(* ===== verification/Prelude.thy ===== *)
theory Prelude
  imports Main "HOL-Library.Word"
begin

text \<open>
  Shared vocabulary of the development: names for the machine integers and byte
  strings of the code, the reading of word operations as arithmetic on natural
  numbers, and generic facts on lists.

  The collection \<open>unat_arith_simps\<close> turns a term \<open>unat e\<close>, for a word expression \<open>e\<close>
  built from the C operators, into \<open>nat\<close> arithmetic with the wrap-around written
  out; the component theories pass it to \<open>simp\<close>.
\<close>

unbundle bit_operations_syntax

section \<open>Types\<close>

type_synonym u8 = "8 word"
type_synonym u16 = "16 word"
type_synonym u32 = "32 word"
type_synonym u64 = "64 word"
type_synonym u128 = "128 word"

type_synonym bytes = "u8 list"

text \<open>\<open>crypto::hash\<close>: 32 bytes, held as a byte list.\<close>

type_synonym hash = "bytes"

text \<open>The bytes of a C string literal.\<close>

definition bytes_of :: "string \<Rightarrow> bytes" where
  "bytes_of s = map of_char s"

lemma length_bytes_of [simp]: "length (bytes_of s) = length s"
  by (simp add: bytes_of_def)

section \<open>Words as natural numbers\<close>

named_theorems unat_arith_simps

lemma unat_shl:
  fixes w :: "'a::len word"
  shows "unat (push_bit n w) = unat w * 2 ^ n mod 2 ^ LENGTH('a)"
  by (subst unsigned_push_bit_eq) (simp only: push_bit_eq_mult take_bit_eq_mod)

lemma unat_shr [unat_arith_simps]:
  fixes w :: "'a::len word"
  shows "unat (drop_bit n w) = unat w div 2 ^ n"
  by (subst unat_drop_bit_eq) (simp only: drop_bit_eq_div)

lemma unat_take_bit:
  fixes w :: "'a::len word"
  shows "unat (take_bit n w) = unat w mod 2 ^ n"
  by (subst unsigned_take_bit_eq) (simp only: take_bit_eq_mod)

lemma unat_and_mask:
  fixes w :: "'a::len word"
  shows "unat (w AND mask n) = unat w mod 2 ^ n"
  by (simp add: unat_take_bit flip: take_bit_eq_mask)

lemma unat_lt_2p:
  fixes w :: "'a::len word"
  shows "unat w < 2 ^ LENGTH('a)"
  by (rule unsigned_less)

lemma unat_u8_lt: "unat (w :: u8) < 256"
  using unat_lt_2p [of w] by simp

lemma unat_u32_lt: "unat (w :: u32) < 4294967296"
  using unat_lt_2p [of w] by simp

lemma unat_u64_lt: "unat (w :: u64) < 18446744073709551616"
  using unat_lt_2p [of w] by simp

lemma unat_u128_lt: "unat (w :: u128) < 340282366920938463463374607431768211456"
  using unat_lt_2p [of w] by simp

lemmas unat_bounds = unat_u8_lt unat_u32_lt unat_u64_lt unat_u128_lt

text \<open>
  A disjunction whose operands share no bit is a sum. The two shapes the code uses:
  a value below \<open>2 ^ n\<close> joined with one shifted left by \<open>n\<close>.
\<close>

lemma unat_or_disjoint:
  fixes a b :: "'a::len word"
  assumes "unat a < 2 ^ n" and "2 ^ n dvd unat b"
  shows "unat (a OR b) = unat a + unat b"
proof -
  have "\<not> bit (unat a) k \<or> \<not> bit (unat b) k" for k
  proof (cases "k < n")
    case True
    from assms(2) obtain c where "unat b = push_bit n c"
      by (auto simp: push_bit_eq_mult mult.commute)
    with True show ?thesis by (simp add: bit_push_bit_iff)
  next
    case False
    have "take_bit n (unat a) = unat a"
      using assms(1) by (simp add: take_bit_eq_mod)
    then have "\<not> bit (unat a) k"
      using False by (metis bit_take_bit_iff)
    then show ?thesis by simp
  qed
  then have "unat a + unat b = unat a OR unat b"
    by (rule disjunctive_add)
  moreover have "unat (a OR b) = unat a OR unat b"
    by (simp add: unsigned_or_eq)
  ultimately show ?thesis by simp
qed

lemma unat_or_disjoint':
  fixes a b :: "'a::len word"
  assumes "2 ^ n dvd unat a" and "unat b < 2 ^ n"
  shows "unat (a OR b) = unat a + unat b"
  using unat_or_disjoint [OF assms(2,1)] by (simp add: or.commute)

lemma unat_add_wrap [unat_arith_simps]:
  fixes a b :: "'a::len word"
  shows "unat (a + b) = (unat a + unat b) mod 2 ^ LENGTH('a)"
  by (simp add: unat_word_ariths)

lemma unat_mult_wrap [unat_arith_simps]:
  fixes a b :: "'a::len word"
  shows "unat (a * b) = (unat a * unat b) mod 2 ^ LENGTH('a)"
  by (simp add: unat_word_ariths)

lemmas unat_div_mod [unat_arith_simps] = unat_div unat_mod

lemmas unat_shl_wrap [unat_arith_simps] = unat_shl

lemma unat_of_nat_eq:
  "n < 2 ^ LENGTH('a) \<Longrightarrow> unat (of_nat n :: 'a::len word) = n"
  by (simp add: unsigned_of_nat take_bit_nat_eq_self)

lemma unat_of_nat_u32: "n < 2 ^ 32 \<Longrightarrow> unat (of_nat n :: u32) = n"
  by (simp add: unat_of_nat_eq)

lemma unat_of_nat_u64: "n < 2 ^ 64 \<Longrightarrow> unat (of_nat n :: u64) = n"
  by (simp add: unat_of_nat_eq)

lemma word_eqI_unat: "unat a = unat b \<Longrightarrow> a = b"
  for a b :: "'a::len word"
  by (simp add: word_unat_eq_iff)

lemma unat_inv: "of_nat (unat w) = w"
  for w :: "'a::len word"
  by (rule word_eqI_unat) (simp add: unat_of_nat_eq unat_lt_2p)

lemma drop_bit_of_unat: "drop_bit n w = of_nat (unat w div 2 ^ n)"
  for w :: "'a::len word"
  by (metis unat_shr unat_inv)

lemma mod_sub_once: "m \<le> x \<Longrightarrow> x < 2 * m \<Longrightarrow> x mod m = x - (m::nat)"
  by (simp add: le_mod_geq)

lemma unat_ucast_wrap:
  fixes w :: "'a::len word"
  shows "unat (ucast w :: 'b::len word) = unat w mod 2 ^ LENGTH('b)"
  by (simp add: unsigned_ucast_eq take_bit_eq_mod)

lemma unat_ucast_up:
  fixes w :: "'a::len word"
  assumes "LENGTH('a) \<le> LENGTH('b)"
  shows "unat (ucast w :: 'b::len word) = unat w"
proof -
  have "(2::nat) ^ LENGTH('a) \<le> 2 ^ LENGTH('b)"
    using assms by (simp add: power_increasing)
  then have "unat w < 2 ^ LENGTH('b)"
    using unat_lt_2p [of w] by linarith
  then show ?thesis by (simp add: unat_ucast_wrap)
qed

lemma unat_ucast_widen [simp]:
  "unat (ucast (a :: u8) :: u32) = unat a"
  "unat (ucast (a :: u8) :: u64) = unat a"
  "unat (ucast (b :: u32) :: u64) = unat b"
  "unat (ucast (c :: u64) :: u128) = unat c"
  by (simp_all add: unat_ucast_up)

lemma long_div_step:
  fixes N d B x :: nat
  shows "(N div d) * B + ((N mod d) * B + x) div d = (N * B + x) div d" (is ?q)
    and "((N mod d) * B + x) mod d = (N * B + x) mod d" (is ?r)
proof -
  show ?r by (metis mod_add_left_eq mod_mult_left_eq)
  show ?q
  proof (cases "d = 0")
    case False
    have "N * B + x = (N mod d) * B + x + d * ((N div d) * B)"
      by (metis (no_types) add.assoc add.commute add_mult_distrib div_mult_mod_eq mult.assoc mult.commute)
    then have "(N * B + x) div d = (N div d) * B + ((N mod d) * B + x) div d"
      using False by (metis div_mult_self2)
    then show ?thesis by simp
  qed simp
qed

lemma long_div_digit:
  fixes r d B x :: nat
  shows "r < d \<Longrightarrow> x < B \<Longrightarrow> (r * B + x) div d < B"
proof -
  assume "r < d" "x < B"
  then have "r * B + x < Suc r * B" by simp
  also have "\<dots> \<le> d * B" using \<open>r < d\<close> by (intro mult_right_mono) auto
  finally show ?thesis by (simp add: less_mult_imp_div_less mult.commute)
qed

text \<open>
  The carry test of the code: a wrapped sum is below its first operand exactly when
  the exact sum does not fit.
\<close>

lemma add_carry:
  fixes a b :: "'a::len word"
  shows "(a + b < a) = (2 ^ LENGTH('a) \<le> unat a + unat b)"
proof -
  have a: "unat a < 2 ^ LENGTH('a)" and b: "unat b < 2 ^ LENGTH('a)"
    by (rule unat_lt_2p)+
  show ?thesis
  proof (cases "unat a + unat b < 2 ^ LENGTH('a)")
    case True
    then show ?thesis by (simp add: word_less_nat_alt unat_arith_simps)
  next
    case False
    with a b have "(unat a + unat b) mod 2 ^ LENGTH('a) = unat a + unat b - 2 ^ LENGTH('a)"
      by (intro mod_sub_once) linarith+
    moreover have "unat a + unat b - 2 ^ LENGTH('a) < unat a"
      using False b by linarith
    ultimately show ?thesis
      using False by (simp add: word_less_nat_alt unat_arith_simps)
  qed
qed

lemma unat_add_carry:
  fixes a b :: "'a::len word"
  shows "unat a + unat b = unat (a + b) + (if a + b < a then 2 ^ LENGTH('a) else 0)"
proof (cases "unat a + unat b < 2 ^ LENGTH('a)")
  case True
  then show ?thesis by (simp add: add_carry unat_arith_simps)
next
  case False
  moreover have "unat a < 2 ^ LENGTH('a)" "unat b < 2 ^ LENGTH('a)"
    by (rule unat_lt_2p)+
  ultimately have "(unat a + unat b) mod 2 ^ LENGTH('a) = unat a + unat b - 2 ^ LENGTH('a)"
    by (intro mod_sub_once) linarith+
  with False show ?thesis by (simp add: add_carry unat_arith_simps)
qed

section \<open>Lists\<close>

text \<open>
  \<open>std::vector::resize(n)\<close> (or \<open>std::string::resize\<close>) with a fill value: shorten, or
  extend with the value.
\<close>

definition resize :: "nat \<Rightarrow> 'a \<Rightarrow> 'a list \<Rightarrow> 'a list" where
  "resize n d xs = take n xs @ replicate (n - length xs) d"

lemma length_resize [simp]: "length (resize n d xs) = n"
  by (simp add: resize_def)

lemma resize_shorten: "n \<le> length xs \<Longrightarrow> resize n d xs = take n xs"
  by (simp add: resize_def)

lemma nth_resize: "i < n \<Longrightarrow> i < length xs \<Longrightarrow> resize n d xs ! i = xs ! i"
  by (simp add: resize_def nth_append)

section \<open>Words in memory\<close>

text \<open>
  The little-endian view of memory: the word at the start of a byte string, and the
  bytes of a word.
\<close>

definition load_le :: "bytes \<Rightarrow> 'a::len word" where
  "load_le bs = foldr (\<lambda>b acc. ucast b OR push_bit 8 acc) bs 0"

definition store_le :: "nat \<Rightarrow> 'a::len word \<Rightarrow> bytes" where
  "store_le n w = map (\<lambda>i. ucast (drop_bit (8 * i) w)) [0..<n]"

lemma length_store_le [simp]: "length (store_le n w) = n"
  by (simp add: store_le_def)

text \<open>The \<open>i\<close>-th 32-bit and 64-bit word of a byte string.\<close>

definition word32_at :: "bytes \<Rightarrow> nat \<Rightarrow> u32" where
  "word32_at bs i = load_le (take 4 (drop (4 * i) bs))"

definition word64_at :: "bytes \<Rightarrow> nat \<Rightarrow> u64" where
  "word64_at bs i = load_le (take 8 (drop (8 * i) bs))"

text \<open>The number a byte string spells, least significant byte first.\<close>

fun le_nat :: "bytes \<Rightarrow> nat" where
  "le_nat [] = 0"
| "le_nat (b # bs) = unat b + 256 * le_nat bs"

lemma le_nat_append: "le_nat (xs @ ys) = le_nat xs + 256 ^ length xs * le_nat ys"
  by (induction xs) (simp_all add: algebra_simps)

lemma le_nat_bound: "le_nat bs < 256 ^ length bs"
proof (induction bs)
  case (Cons b bs)
  have "unat b < 256" by (rule unat_u8_lt)
  moreover have "le_nat bs + 1 \<le> 256 ^ length bs" using Cons by simp
  then have "256 * (le_nat bs + 1) \<le> 256 * 256 ^ length bs" by (rule mult_le_mono2)
  ultimately show ?case by simp
qed simp

lemma load_le_Nil [simp]: "load_le [] = 0"
  by (simp add: load_le_def)

lemma load_le_Cons: "load_le (b # bs) = ucast b OR push_bit 8 (load_le bs)"
  by (simp add: load_le_def)

lemma pow_256: "(256::nat) ^ n = 2 ^ (8 * n)"
  by (simp add: power_mult)

lemma unat_load_le:
  assumes "8 * length bs \<le> LENGTH('a)"
  shows "unat (load_le bs :: 'a::len word) = le_nat bs"
  using assms
proof (induction bs)
  case (Cons b bs)
  then have IH: "unat (load_le bs :: 'a word) = le_nat bs" by simp
  have le: "LENGTH(8) \<le> LENGTH('a)" using Cons.prems by simp
  have "le_nat bs * 256 < 256 ^ Suc (length bs)"
    using le_nat_bound [of bs] by simp
  also have "\<dots> \<le> 2 ^ LENGTH('a)"
    unfolding pow_256 using Cons.prems by (intro power_increasing) auto
  finally have "unat (push_bit 8 (load_le bs :: 'a word)) = le_nat bs * 256"
    by (simp add: unat_shl IH)
  then show ?case
    unfolding load_le_Cons
    by (subst unat_or_disjoint [where n = 8]) (simp_all add: unat_ucast_up [OF le] unat_u8_lt)
qed simp

lemma store_le_Suc: "store_le (Suc n) w = ucast w # store_le n (drop_bit 8 w)"
proof -
  have "store_le (Suc n) w = map (\<lambda>i. ucast (drop_bit (8 * i) w)) (0 # map Suc [0..<n])"
    unfolding store_le_def by (simp only: map_Suc_upt upt_conv_Cons zero_less_Suc)
  then show ?thesis by (simp add: store_le_def algebra_simps)
qed

lemma nth_store_le: "i < n \<Longrightarrow> store_le n w ! i = ucast (drop_bit (8 * i) w)"
  by (simp add: store_le_def)

lemma store_load_le:
  assumes "8 * length bs \<le> LENGTH('a)" and "n = length bs"
  shows "store_le n (load_le bs :: 'a::len word) = bs"
proof (rule nth_equalityI)
  fix i assume i: "i < length (store_le n (load_le bs :: 'a word))"
  have key: "le_nat bs div 2 ^ (8 * i) mod 256 = unat (bs ! i)" if "i < length bs" for i bs
    using that
  proof (induction bs arbitrary: i)
    case (Cons b bs)
    show ?case
    proof (cases i)
      case 0
      then show ?thesis using unat_u8_lt [of b] by simp
    next
      case (Suc k)
      have "(unat b + 256 * le_nat bs) div 256 = le_nat bs"
        using unat_u8_lt [of b] by simp
      then have "(unat b + 256 * le_nat bs) div 2 ^ (8 * i) = le_nat bs div 2 ^ (8 * k)"
        by (simp add: Suc power_add div_mult2_eq)
      with Cons Suc show ?thesis by simp
    qed
  qed simp
  show "store_le n (load_le bs :: 'a word) ! i = bs ! i"
    using i assms key [of i bs]
    by (intro word_eqI_unat) (simp add: nth_store_le unat_ucast_wrap unat_shr unat_load_le)
qed (use assms in simp)

lemma le_nat_store_le: "le_nat (store_le k v) = unat v mod 256 ^ k"
proof (induction k arbitrary: v)
  case (Suc k)
  then show ?case
    by (simp add: store_le_Suc unat_ucast_wrap unat_shr mod_mult2_eq)
qed (simp add: store_le_def)

lemma load_store_le:
  assumes "8 * n = LENGTH('a)"
  shows "load_le (store_le n w) = (w :: 'a::len word)"
  using assms unat_lt_2p [of w]
  by (intro word_eqI_unat) (simp add: unat_load_le le_nat_store_le pow_256)

lemma store_le_xor:
  "store_le n (a XOR b) = map2 (XOR) (store_le n a) (store_le n b)"
proof (rule nth_equalityI)
  fix i assume "i < length (store_le n (a XOR b))"
  then show "store_le n (a XOR b) ! i = map2 (XOR) (store_le n a) (store_le n b) ! i"
    by (simp add: nth_store_le) (rule bit_eqI, auto simp: bit_simps)
qed simp

lemma length_concat_store: "length (concat (map (store_le k) ws)) = k * length ws"
  by (induction ws) auto

end
