(* ===== verification/Int_Util.thy ===== *)
theory Int_Util
  imports Prelude
begin

text \<open>
  The integer helpers of \<open>contrib/epee/include/int-util.h\<close> and
  \<open>contrib/epee/src/int-util.cpp\<close>: rotations, the portable 64x64 to 128 bit
  multiplication \<open>mul128\<close>, long division of a 128-bit value by a 32-bit and a 64-bit
  one, the clamped addition and subtraction, and byte swapping. The lemmas show that
  each computes what its name promises on the full range of its arguments.
\<close>

definition rol32 :: "u32 \<Rightarrow> nat \<Rightarrow> u32" where
  "rol32 x r = push_bit (r mod 32) x OR drop_bit ((32 - r mod 32) mod 32) x"

definition rol64 :: "u64 \<Rightarrow> nat \<Rightarrow> u64" where
  "rol64 x r = push_bit (r mod 64) x OR drop_bit ((64 - r mod 64) mod 64) x"

definition hi_dword :: "u64 \<Rightarrow> u64" where
  "hi_dword val = drop_bit 32 val"

definition lo_dword :: "u64 \<Rightarrow> u64" where
  "lo_dword val = val AND 0xFFFFFFFF"

text \<open>\<open>mul128\<close> returns the low word and stores the high one: the pair \<open>(lo, hi)\<close>.\<close>

definition mul128 :: "u64 \<Rightarrow> u64 \<Rightarrow> u64 \<times> u64" where
  "mul128 multiplier multiplicand =
     (let a = hi_dword multiplier;
          b = lo_dword multiplier;
          c = hi_dword multiplicand;
          d = lo_dword multiplicand;
          ac = a * c;
          ad = a * d;
          bc = b * c;
          bd = b * d;
          adbc = ad + bc;
          adbc_carry = (if adbc < ad then 1 else 0);
          product_lo = bd + push_bit 32 adbc;
          product_lo_carry = (if product_lo < bd then 1 else 0);
          product_hi = ac + drop_bit 32 adbc + push_bit 32 adbc_carry + product_lo_carry
      in (product_lo, product_hi))"

definition div_with_reminder :: "u64 \<Rightarrow> u32 \<Rightarrow> u32 \<Rightarrow> u64 \<times> u32" where
  "div_with_reminder dividend divisor remainder =
     (let dividend = dividend OR push_bit 32 (ucast remainder)
      in (dividend div ucast divisor, ucast (dividend mod ucast divisor)))"

text \<open>
  The stores through \<open>quotient_hi\<close> and \<open>quotient_lo\<close> are part of the result:
  \<open>(remainder, quotient_hi, quotient_lo)\<close>.
\<close>

definition div128_32 :: "u64 \<Rightarrow> u64 \<Rightarrow> u32 \<Rightarrow> u32 \<times> u64 \<times> u64" where
  "div128_32 dividend_hi dividend_lo divisor =
     (let d3 = hi_dword dividend_hi;
          d2 = lo_dword dividend_hi;
          d1 = hi_dword dividend_lo;
          d0 = lo_dword dividend_lo;
          (q3, remainder) = div_with_reminder d3 divisor 0;
          quotient_hi = push_bit 32 q3;
          (q2, remainder) = div_with_reminder d2 divisor remainder;
          quotient_hi = quotient_hi OR q2;
          (q1, remainder) = div_with_reminder d1 divisor remainder;
          quotient_lo = push_bit 32 q1;
          (q0, remainder) = div_with_reminder d0 divisor remainder;
          quotient_lo = quotient_lo OR q0
      in (remainder, quotient_hi, quotient_lo))"

text \<open>
  \<open>div128_64\<close> works on \<open>boost::multiprecision::uint128_t\<close>; the result is
  \<open>(quotient_hi, quotient_lo, remainder_hi, remainder_lo)\<close>.
\<close>

definition div128_64 :: "u64 \<Rightarrow> u64 \<Rightarrow> u64 \<Rightarrow> u64 \<times> u64 \<times> u64 \<times> u64" where
  "div128_64 dividend_hi dividend_lo divisor =
     (let dividend = (ucast dividend_hi :: u128);
          dividend = push_bit 64 dividend;
          dividend = dividend OR ucast dividend_lo;
          q = dividend div ucast divisor;
          r = dividend mod ucast divisor
      in (ucast (drop_bit 64 q AND 0xffffffffffffffff), ucast (q AND 0xffffffffffffffff),
          ucast (drop_bit 64 r AND 0xffffffffffffffff), ucast (r AND 0xffffffffffffffff)))"

definition add64clamp :: "u64 \<Rightarrow> u64 \<Rightarrow> u64" where
  "add64clamp value add = (let maxval = - 1 in if value > maxval - add then maxval else value + add)"

definition sub64clamp :: "u64 \<Rightarrow> u64 \<Rightarrow> u64" where
  "sub64clamp value sub = (if value < sub then 0 else value - sub)"

definition SWAP64 :: "u64 \<Rightarrow> u64" where
  "SWAP64 x =
     push_bit 56 (x AND 0x00000000000000ff) OR
     push_bit 40 (x AND 0x000000000000ff00) OR
     push_bit 24 (x AND 0x0000000000ff0000) OR
     push_bit 8 (x AND 0x00000000ff000000) OR
     drop_bit 8 (x AND 0x000000ff00000000) OR
     drop_bit 24 (x AND 0x0000ff0000000000) OR
     drop_bit 40 (x AND 0x00ff000000000000) OR
     drop_bit 56 (x AND 0xff00000000000000)"

section \<open>Multiplication\<close>

lemma unat_hi_dword [simp]: "unat (hi_dword w) = unat w div 2 ^ 32"
  by (simp add: hi_dword_def unat_arith_simps)

lemma unat_lo_dword [simp]: "unat (lo_dword w) = unat w mod 2 ^ 32"
  using unat_and_mask [of w 32] by (simp add: lo_dword_def mask_eq_exp_minus_1)

lemma dword_bounds: "unat (hi_dword w) < 2 ^ 32" "unat (lo_dword w) < 2 ^ 32"
  by (simp_all add: less_mult_imp_div_less unat_bounds)

lemma dword_split: "unat w = unat (hi_dword w) * 2 ^ 32 + unat (lo_dword w)"
  by simp

lemma mult_dword_bound:
  "a < 2 ^ 32 \<Longrightarrow> b < 2 ^ 32 \<Longrightarrow> a * b \<le> (2 ^ 32 - 1) * (2 ^ 32 - 1 :: nat)"
  by (intro mult_mono) auto

lemma dword_mult [simp]:
  assumes "unat x < 2 ^ 32" "unat y < 2 ^ 32"
  shows "unat (x * y :: u64) = unat x * unat y"
  using mult_dword_bound [OF assms] by (simp add: unat_arith_simps)

theorem mul128_correct:
  "unat (snd (mul128 x y)) * 2 ^ 64 + unat (fst (mul128 x y)) = unat x * unat y"
proof -
  define a where "a = hi_dword x"
  define b where "b = lo_dword x"
  define c where "c = hi_dword y"
  define d where "d = lo_dword y"
  note defs = a_def b_def c_def d_def
  have bnd: "unat a < 2 ^ 32" "unat b < 2 ^ 32" "unat c < 2 ^ 32" "unat d < 2 ^ 32"
    by (simp_all only: defs dword_bounds)
  define adbc where "adbc = a * d + b * c"
  define k1 :: nat where "k1 = (if adbc < a * d then 1 else 0)"
  define lo where "lo = b * d + push_bit 32 adbc"
  define k2 :: nat where "k2 = (if lo < b * d then 1 else 0)"
  define hi where "hi = a * c + drop_bit 32 adbc + push_bit 32 (of_nat k1) + of_nat k2"
  have m: "mul128 x y = (lo, hi)"
    by (simp add: mul128_def Let_def lo_def hi_def k1_def k2_def adbc_def defs)
  have e1: "unat a * unat d + unat b * unat c = unat adbc + k1 * 2 ^ 64"
    using unat_add_carry [of "a * d" "b * c"] bnd
    by (simp add: adbc_def k1_def)
  have sh: "unat (push_bit 32 adbc) = (unat adbc mod 2 ^ 32) * 2 ^ 32"
  proof -
    have "unat adbc * 2 ^ 32 mod (2 ^ 32 * 2 ^ 32) = (unat adbc mod 2 ^ 32) * 2 ^ 32"
      by (metis mod_mult_mult1 mult.commute)
    then show ?thesis by (simp add: unat_shl)
  qed
  have e2: "unat b * unat d + (unat adbc mod 2 ^ 32) * 2 ^ 32 = unat lo + k2 * 2 ^ 64"
    using unat_add_carry [of "b * d" "push_bit 32 adbc"] bnd
    by (simp add: lo_def k2_def sh)
  have x: "unat x = unat a * 2 ^ 32 + unat b" and y: "unat y = unat c * 2 ^ 32 + unat d"
    unfolding defs by (rule dword_split)+
  define q r where "q = unat adbc div 2 ^ 32" and "r = unat adbc mod 2 ^ 32"
  have qr: "unat adbc = q * 2 ^ 32 + r" by (simp add: q_def r_def)
  have prod: "unat x * unat y = (unat a * unat c + q + k1 * 2 ^ 32 + k2) * 2 ^ 64 + unat lo"
  proof -
    have "unat x * unat y =
        unat a * unat c * 2 ^ 64 + (unat a * unat d + unat b * unat c) * 2 ^ 32 + unat b * unat d"
      unfolding x y by (simp add: algebra_simps)
    also have "\<dots> = unat a * unat c * 2 ^ 64 + (q * 2 ^ 32 + r + k1 * 2 ^ 64) * 2 ^ 32 + unat b * unat d"
      by (simp only: e1 qr)
    also have "\<dots> = (unat a * unat c + q + k1 * 2 ^ 32) * 2 ^ 64 + (unat b * unat d + r * 2 ^ 32)"
      by (simp add: algebra_simps)
    also have "\<dots> = (unat a * unat c + q + k1 * 2 ^ 32) * 2 ^ 64 + (unat lo + k2 * 2 ^ 64)"
      using e2 by (simp only: r_def)
    finally show ?thesis by (simp add: algebra_simps)
  qed
  have lt: "unat a * unat c + q + k1 * 2 ^ 32 + k2 < 2 ^ 64"
  proof -
    have "unat x * unat y < 2 ^ 64 * 2 ^ 64"
      by (intro mult_strict_mono) (simp_all add: unat_bounds)
    then show ?thesis unfolding prod by simp
  qed
  have "hi = of_nat (unat a * unat c + q + k1 * 2 ^ 32 + k2)"
    unfolding hi_def q_def drop_bit_of_unat push_bit_eq_mult
    by (simp only: of_nat_add of_nat_mult of_nat_power unat_inv of_nat_numeral)
  with lt have "unat hi = unat a * unat c + q + k1 * 2 ^ 32 + k2"
    by (simp only: unat_of_nat_u64)
  then show ?thesis by (simp only: m prod fst_conv snd_conv)
qed

section \<open>Division\<close>

lemma div_with_reminder_step:
  assumes d: "divisor \<noteq> 0" and rem: "unat remainder < unat divisor"
    and dw: "unat dividend < 2 ^ 32"
  shows "unat (fst (div_with_reminder dividend divisor remainder)) =
           (unat remainder * 2 ^ 32 + unat dividend) div unat divisor" (is "?q = _")
    and "unat (snd (div_with_reminder dividend divisor remainder)) =
           (unat remainder * 2 ^ 32 + unat dividend) mod unat divisor"
    and "unat (fst (div_with_reminder dividend divisor remainder)) < 2 ^ 32"
    and "unat (snd (div_with_reminder dividend divisor remainder)) < unat divisor"
proof -
  have d0: "0 < unat divisor" using d by (simp add: unat_gt_0)
  have "unat remainder * 2 ^ 32 < 2 ^ 64"
    by (simp add: unat_bounds)
  then have "unat (push_bit 32 (ucast remainder :: u64)) = unat remainder * 2 ^ 32"
    by (simp add: unat_shl)
  with dw have n: "unat (dividend OR push_bit 32 (ucast remainder)) = unat remainder * 2 ^ 32 + unat dividend"
    by (subst unat_or_disjoint [where n = 32]) auto
  have dd: "unat (ucast divisor :: u64) = unat divisor" by simp
  show q: "?q = (unat remainder * 2 ^ 32 + unat dividend) div unat divisor"
    by (simp only: div_with_reminder_def Let_def fst_conv unat_div n dd)
  show "?q < 2 ^ 32"
    unfolding q using rem dw by (rule long_div_digit)
  have r: "(unat remainder * 2 ^ 32 + unat dividend) mod unat divisor < unat divisor"
    using d0 by (rule mod_less_divisor)
  also have "\<dots> < 2 ^ 32" using unat_u32_lt by simp
  finally show s: "unat (snd (div_with_reminder dividend divisor remainder)) =
           (unat remainder * 2 ^ 32 + unat dividend) mod unat divisor"
    by (simp add: div_with_reminder_def Let_def unat_ucast_wrap unat_mod n dd)
  show "unat (snd (div_with_reminder dividend divisor remainder)) < unat divisor"
    unfolding s by (rule r)
qed

lemma unat_join_dwords:
  assumes "unat a < 2 ^ 32" "unat b < 2 ^ 32"
  shows "unat (push_bit 32 a OR b :: u64) = unat a * 2 ^ 32 + unat b"
proof -
  have "unat a * 2 ^ 32 < 2 ^ 64" using assms by simp
  then have "unat (push_bit 32 a) = unat a * 2 ^ 32" by (simp add: unat_shl)
  with assms show ?thesis by (subst unat_or_disjoint' [where n = 32]) auto
qed

lemma join_dwords:
  "H = a * 2 ^ 32 + b \<Longrightarrow> L = c * 2 ^ 32 + d \<Longrightarrow>
     ((a * 2 ^ 32 + b) * 2 ^ 32 + c) * 2 ^ 32 + d = H * 2 ^ 64 + (L :: nat)"
  by simp

theorem div128_32_correct:
  assumes "divisor \<noteq> 0" and "div128_32 hi lo divisor = (r, qh, ql)"
  shows "unat qh * 2 ^ 64 + unat ql = (unat hi * 2 ^ 64 + unat lo) div unat divisor"
    and "unat r = (unat hi * 2 ^ 64 + unat lo) mod unat divisor"
proof -
  define s where "s = div_with_reminder"
  obtain q3 r3 where s3: "s (hi_dword hi) divisor 0 = (q3, r3)" by force
  obtain q2 r2 where s2: "s (lo_dword hi) divisor r3 = (q2, r2)" by force
  obtain q1 r1 where s1: "s (hi_dword lo) divisor r2 = (q1, r1)" by force
  obtain q0 r0 where s0: "s (lo_dword lo) divisor r1 = (q0, r0)" by force
  have res: "r = r0" "qh = push_bit 32 q3 OR q2" "ql = push_bit 32 q1 OR q0"
    using assms(2) s0 s1 s2 s3 by (auto simp: div128_32_def Let_def s_def)
  have d0: "unat (0 :: u32) < unat divisor" using assms(1) by (simp add: unat_gt_0)
  note step = div_with_reminder_step [OF assms(1), folded s_def]
  note t3 = step [OF d0 dword_bounds(1) [of hi], unfolded s3 fst_conv snd_conv]
  note t2 = step [OF t3(4) dword_bounds(2) [of hi], unfolded s2 fst_conv snd_conv]
  note t1 = step [OF t2(4) dword_bounds(1) [of lo], unfolded s1 fst_conv snd_conv]
  note t0 = step [OF t1(4) dword_bounds(2) [of lo], unfolded s0 fst_conv snd_conv]
  define d where "d = unat divisor"
  define N3 N2 N1 N0 where "N3 = unat (hi_dword hi)" and "N2 = N3 * 2 ^ 32 + unat (lo_dword hi)"
    and "N1 = N2 * 2 ^ 32 + unat (hi_dword lo)" and "N0 = N1 * 2 ^ 32 + unat (lo_dword lo)"
  have e3: "unat q3 = N3 div d" "unat r3 = N3 mod d"
    using t3 by (simp_all add: N3_def d_def)
  have e2: "unat q3 * 2 ^ 32 + unat q2 = N2 div d" "unat r2 = N2 mod d"
    unfolding t2(1) t2(2) e3 N2_def d_def [symmetric] by (rule long_div_step)+
  have e1: "(N2 div d) * 2 ^ 32 + unat q1 = N1 div d" "unat r1 = N1 mod d"
    unfolding t1(1) t1(2) e2 N1_def d_def [symmetric] by (rule long_div_step)+
  have e0: "(N1 div d) * 2 ^ 32 + unat q0 = N0 div d" "unat r0 = N0 mod d"
    unfolding t0(1) t0(2) e1 N0_def d_def [symmetric] by (rule long_div_step)+
  have N: "N0 = unat hi * 2 ^ 64 + unat lo"
    unfolding N0_def N1_def N2_def N3_def by (rule join_dwords) (rule dword_split)+
  have "unat qh = N2 div d"
    using e2(1) t3(3) t2(3) by (simp add: res unat_join_dwords)
  moreover have "unat ql = unat q1 * 2 ^ 32 + unat q0"
    using t1(3) t0(3) by (simp add: res unat_join_dwords)
  ultimately have "unat qh * 2 ^ 64 + unat ql = N0 div d"
    unfolding e0(1) [symmetric] e1(1) [symmetric] by simp
  then show "unat qh * 2 ^ 64 + unat ql = (unat hi * 2 ^ 64 + unat lo) div unat divisor"
    by (simp only: N d_def)
  show "unat r = (unat hi * 2 ^ 64 + unat lo) mod unat divisor"
    using e0(2) by (simp only: res N d_def)
qed

theorem div128_64_correct:
  assumes "div128_64 hi lo divisor = (qh, ql, rh, rl)"
  shows "unat qh * 2 ^ 64 + unat ql = (unat hi * 2 ^ 64 + unat lo) div unat divisor"
    and "unat rh * 2 ^ 64 + unat rl = (unat hi * 2 ^ 64 + unat lo) mod unat divisor"
proof -
  define N :: u128 where "N = push_bit 64 (ucast hi) OR ucast lo"
  have m: "unat (w AND 0xffffffffffffffff :: u128) = unat w mod 2 ^ 64" for w
    using unat_and_mask [of w 64] by (simp add: mask_eq_exp_minus_1)
  have sp: "unat (ucast (drop_bit 64 w AND 0xffffffffffffffff :: u128) :: u64) * 2 ^ 64
      + unat (ucast (w AND 0xffffffffffffffff) :: u64) = unat w" for w :: u128
  proof -
    have "unat w div 2 ^ 64 < 2 ^ 64" by (simp add: less_mult_imp_div_less unat_bounds)
    then show ?thesis by (simp add: unat_ucast_wrap m unat_shr)
  qed
  have "unat hi * 2 ^ 64 < 2 ^ 128" by (simp add: unat_bounds)
  then have "unat (push_bit 64 (ucast hi :: u128)) = unat hi * 2 ^ 64"
    by (simp add: unat_shl)
  then have n: "unat N = unat hi * 2 ^ 64 + unat lo"
    unfolding N_def by (subst unat_or_disjoint' [where n = 64]) (auto simp: unat_bounds)
  have "qh = ucast (drop_bit 64 (N div ucast divisor) AND 0xffffffffffffffff)"
    "ql = ucast (N div ucast divisor AND 0xffffffffffffffff)"
    "rh = ucast (drop_bit 64 (N mod ucast divisor) AND 0xffffffffffffffff)"
    "rl = ucast (N mod ucast divisor AND 0xffffffffffffffff)"
    using assms by (auto simp: div128_64_def Let_def N_def)
  then show "unat qh * 2 ^ 64 + unat ql = (unat hi * 2 ^ 64 + unat lo) div unat divisor"
    and "unat rh * 2 ^ 64 + unat rl = (unat hi * 2 ^ 64 + unat lo) mod unat divisor"
    by (simp_all only: sp unat_div unat_mod n unat_ucast_widen)
qed

lemma unat_minus_one_u64: "unat (- 1 :: u64) = 2 ^ 64 - 1"
  by (simp add: unsigned_minus_1_eq_mask mask_eq_exp_minus_1)

section \<open>Clamped arithmetic\<close>

theorem add64clamp_min: "unat (add64clamp a b) = min (unat a + unat b) (2 ^ 64 - 1)"
proof -
  have m: "unat (- 1 - b :: u64) = 2 ^ 64 - 1 - unat b"
    by (subst unat_sub) (simp_all add: unat_minus_one_u64)
  show ?thesis
  proof (cases "unat a > unat (- 1 - b)")
    case True
    then show ?thesis
      unfolding m by (simp add: add64clamp_def word_less_nat_alt m unat_minus_one_u64)
  next
    case False
    then have "unat a + unat b < 2 ^ 64"
      unfolding m using unat_u64_lt [of b] by simp
    then show ?thesis
      using False by (simp add: add64clamp_def word_less_nat_alt m unat_arith_simps)
  qed
qed

theorem sub64clamp_monus: "unat (sub64clamp a b) = unat a - unat b"
  by (simp add: sub64clamp_def word_less_nat_alt unat_sub_if')

section \<open>Byte order\<close>

lemma upt_64: "[0..<64] = [0, 1, 2, 3, 4, 5, 6, 7, 8, 9, 10, 11, 12, 13, 14, 15, 16, 17, 18, 19, 20, 21, 22, 23, 24, 25, 26, 27, 28, 29, 30, 31, 32, 33, 34, 35, 36, 37, 38, 39, 40, 41, 42, 43, 44, 45, 46, 47, 48, 49, 50, 51, 52, 53, 54, 55, 56, 57, 58, 59, 60, 61, 62, 63]"
  by code_simp

lemma lt64_cases:
  "n < (64::nat) \<Longrightarrow> (\<And>k. k \<in> set [0..<64] \<Longrightarrow> P k) \<Longrightarrow> P n"
  by simp

lemma byte_masks:
  "(0x00000000000000ff :: u64) = push_bit 0 (mask 8)"
  "(0x000000000000ff00 :: u64) = push_bit 8 (mask 8)"
  "(0x0000000000ff0000 :: u64) = push_bit 16 (mask 8)"
  "(0x00000000ff000000 :: u64) = push_bit 24 (mask 8)"
  "(0x000000ff00000000 :: u64) = push_bit 32 (mask 8)"
  "(0x0000ff0000000000 :: u64) = push_bit 40 (mask 8)"
  "(0x00ff000000000000 :: u64) = push_bit 48 (mask 8)"
  "(0xff00000000000000 :: u64) = push_bit 56 (mask 8)"
  by (simp_all add: mask_numeral)

lemma bit_SWAP64:
  assumes "n < 64"
  shows "bit (SWAP64 x) n = bit x (8 * (7 - n div 8) + n mod 8)"
  using assms
proof (rule lt64_cases)
  fix k :: nat
  assume "k \<in> set [0..<64]"
  then show "bit (SWAP64 x) k = bit x (8 * (7 - k div 8) + k mod 8)"
    unfolding upt_64 list.set insert_iff empty_iff SWAP64_def byte_masks
    by (elim disjE; simp add: bit_or_iff bit_and_iff bit_push_bit_iff bit_drop_bit_eq bit_mask_iff del: push_bit_numeral flip: numeral_2_eq_2)
qed

section \<open>Properties\<close>

text \<open>C7: the 64 by 64 bit product computed from four 32 bit partial products is exact: the two
  words returned are the low and the high half of the product over the naturals.\<close>

theorem mul128_exact:
  "unat (snd (mul128 x y)) * 2 ^ 64 + unat (fst (mul128 x y)) = unat x * unat y"
  by (rule mul128_correct)

text \<open>dividing a 128 bit number by a 32 bit divisor with four chained 32 bit long-division
  steps gives the quotient, as two words, and the remainder of the division over the naturals.\<close>

theorem div128_32_exact:
  assumes "divisor \<noteq> 0" and "div128_32 hi lo divisor = (r, qh, ql)"
  shows "unat qh * 2 ^ 64 + unat ql = (unat hi * 2 ^ 64 + unat lo) div unat divisor \<and>
    unat r = (unat hi * 2 ^ 64 + unat lo) mod unat divisor"
  using div128_32_correct [OF assms] by simp

theorem div128_32_exact_witness:
  "(7::u32) \<noteq> 0 \<and> div128_32 1 5 7 = (0, 0, 2635249153387078803) \<and>
   unat (0::u64) * 2 ^ 64 + unat (2635249153387078803::u64) =
     (unat (1::u64) * 2 ^ 64 + unat (5::u64)) div unat (7::u32)"
proof -
  have d: "div128_32 1 5 7 = (0, 0, 2635249153387078803)" by code_simp
  then show ?thesis using div128_32_exact [of 7 1 5 0 0 2635249153387078803] by simp
qed

end
