(* ===== verification/Keccak.thy ===== *)
theory Keccak
  imports Int_Util
begin

text \<open>
  \<open>src/crypto/keccak.c\<close>, \<open>src/crypto/hash.c\<close> and \<open>src/crypto/hmac-keccak.c\<close>: the
  Keccak permutation, the one-shot hash \<open>keccak\<close>, the streaming interface
  \<open>keccak_init\<close>, \<open>keccak_update\<close>, \<open>keccak_finish\<close>, the hash \<open>cn_fast_hash\<close> every
  other component uses, and HMAC over it.

  A state is the list of its 25 words. \<open>local_abort\<close>, which ends the process, is the
  result \<open>None\<close>.
\<close>

section \<open>The permutation\<close>

definition keccakf_rndc :: "u64 list" where
  "keccakf_rndc =
    [0x0000000000000001, 0x0000000000008082, 0x800000000000808a,
     0x8000000080008000, 0x000000000000808b, 0x0000000080000001,
     0x8000000080008081, 0x8000000000008009, 0x000000000000008a,
     0x0000000000000088, 0x0000000080008009, 0x000000008000000a,
     0x000000008000808b, 0x800000000000008b, 0x8000000000008089,
     0x8000000000008003, 0x8000000000008002, 0x8000000000000080,
     0x000000000000800a, 0x800000008000000a, 0x8000000080008081,
     0x8000000000008080, 0x0000000080000001, 0x8000000080008008]"

definition keccakf_rotc :: "nat list" where
  "keccakf_rotc =
    [1,  3,  6,  10, 15, 21, 28, 36, 45, 55, 2,  14,
     27, 41, 56, 8,  25, 43, 62, 18, 39, 61, 20, 44]"

definition keccakf_piln :: "nat list" where
  "keccakf_piln =
    [10, 7,  11, 17, 18, 3, 5,  16, 8,  21, 24, 4,
     15, 23, 19, 13, 12, 2, 20, 14, 22, 9,  6,  1]"

definition ROTL64 :: "u64 \<Rightarrow> nat \<Rightarrow> u64" where
  "ROTL64 x y = push_bit y x OR drop_bit (64 - y) x"

definition keccakf_theta :: "u64 list \<Rightarrow> u64 list" where
  "keccakf_theta st =
     (let bc = map (\<lambda>i. st ! i XOR st ! (i + 5) XOR st ! (i + 10) XOR st ! (i + 15) XOR st ! (i + 20)) [0..<5]
      in fold (\<lambda>i st.
           let t = bc ! ((i + 4) mod 5) XOR ROTL64 (bc ! ((i + 1) mod 5)) 1
           in fold (\<lambda>j st. st[j + i := st ! (j + i) XOR t]) [0, 5, 10, 15, 20] st) [0..<5] st)"

definition keccakf_rho_pi :: "u64 list \<Rightarrow> u64 list" where
  "keccakf_rho_pi st =
     snd (fold (\<lambda>i (t, st).
       let j = keccakf_piln ! i; bc0 = st ! j
       in (bc0, st[j := ROTL64 t (keccakf_rotc ! i)])) [0..<24] (st ! 1, st))"

definition keccakf_chi :: "u64 list \<Rightarrow> u64 list" where
  "keccakf_chi st =
     fold (\<lambda>j st.
       let bc = map (\<lambda>i. st ! (j + i)) [0..<5]
       in fold (\<lambda>i st. st[j + i := st ! (j + i) XOR (NOT (bc ! ((i + 1) mod 5)) AND bc ! ((i + 2) mod 5))])
            [0..<5] st) [0, 5, 10, 15, 20] st"

definition keccakf_round :: "nat \<Rightarrow> u64 list \<Rightarrow> u64 list" where
  "keccakf_round round st =
     (let st = keccakf_chi (keccakf_rho_pi (keccakf_theta st))
      in st[0 := st ! 0 XOR keccakf_rndc ! round])"

definition keccakf :: "u64 list \<Rightarrow> nat \<Rightarrow> u64 list" where
  "keccakf st rounds = fold keccakf_round [0..<rounds] st"

definition KECCAK_ROUNDS :: nat where
  "KECCAK_ROUNDS = 24"

text \<open>The first \<open>n\<close> words of a block are added to the state.\<close>

definition xor_words :: "nat \<Rightarrow> bytes \<Rightarrow> u64 list \<Rightarrow> u64 list" where
  "xor_words n block st = fold (\<lambda>i st. st[i := st ! i XOR word64_at block i]) [0..<n] st"

section \<open>One-shot hashing\<close>

definition HASH_DATA_AREA :: nat where
  "HASH_DATA_AREA = 136"

text \<open>
  The absorbing loop. It advances by \<open>rsiz\<close> bytes, so it ends only for a positive
  \<open>rsiz\<close>; not ending is \<open>None\<close>.
\<close>

partial_function (option) keccak_absorb ::
  "nat \<Rightarrow> u64 list \<Rightarrow> bytes \<Rightarrow> (u64 list \<times> bytes) option" where
  "keccak_absorb rsiz st inp =
     (if length inp \<ge> rsiz
      then keccak_absorb rsiz (keccakf (xor_words (rsiz div 8) inp st) KECCAK_ROUNDS) (drop rsiz inp)
      else Some (st, inp))"

definition keccak :: "bytes \<Rightarrow> int \<Rightarrow> bytes option" where
  "keccak inp mdlen =
     (if mdlen \<le> 0 \<or> (mdlen > 100 \<and> mdlen \<noteq> 200) then None
      else
        let rsiz = (if mdlen = 200 then HASH_DATA_AREA else nat (200 - 2 * mdlen));
            rsizw = rsiz div 8
        in case keccak_absorb rsiz (replicate 25 0) inp of
             None \<Rightarrow> None
           | Some (st, inp) \<Rightarrow>
               (let inlen = length inp in
                if inlen + 1 \<ge> 144 \<or> inlen > rsiz \<or> rsiz - inlen + inlen + 1 \<ge> 144 \<or> rsiz = 0 \<or>
                   rsiz - 1 \<ge> 144 \<or> rsizw * 8 > 144
                then None
                else
                  let temp = inp @ [1] @ replicate (rsiz - (inlen + 1)) 0;
                      temp = temp[rsiz - 1 := temp ! (rsiz - 1) OR 0x80];
                      st = keccakf (xor_words rsizw temp st) KECCAK_ROUNDS
                  in if nat mdlen mod 8 \<noteq> 0 then None
                     else Some (concat (map (store_le 8) (take (nat mdlen div 8) st)))))"

definition keccak1600 :: "bytes \<Rightarrow> bytes option" where
  "keccak1600 inp = keccak inp 200"

definition hash_process :: "bytes \<Rightarrow> bytes option" where
  "hash_process buf = keccak1600 buf"

definition HASH_SIZE :: nat where
  "HASH_SIZE = 32"

definition cn_fast_hash :: "bytes \<Rightarrow> hash" where
  "cn_fast_hash data = (case hash_process data of None \<Rightarrow> [] | Some state \<Rightarrow> take HASH_SIZE state)"

section \<open>Streaming\<close>

text \<open>
  \<open>KECCAK_CTX\<close>. The block buffer \<open>message\<close> is held as its 136 bytes. \<open>size_t\<close> values
  are natural numbers with the wrap at \<open>2 ^ 64\<close> written out.
\<close>

record keccak_ctx =
  kc_hash :: "u64 list"
  kc_message :: bytes
  kc_rest :: u64

definition KECCAK_FINALIZED :: u64 where
  "KECCAK_FINALIZED = 0x80000000"

definition KECCAK_BLOCKLEN :: nat where
  "KECCAK_BLOCKLEN = 136"

definition KECCAK_WORDS :: nat where
  "KECCAK_WORDS = 17"

definition KECCAK_PROCESS_BLOCK :: "u64 list \<Rightarrow> bytes \<Rightarrow> u64 list" where
  "KECCAK_PROCESS_BLOCK st block = keccakf (xor_words KECCAK_WORDS block st) KECCAK_ROUNDS"

definition keccak_init :: keccak_ctx where
  "keccak_init = \<lparr>kc_hash = replicate 25 0, kc_message = replicate 136 0, kc_rest = 0\<rparr>"

text \<open>\<open>memcpy(dst + k, src, length src)\<close>.\<close>

definition memcpy_at :: "'a list \<Rightarrow> nat \<Rightarrow> 'a list \<Rightarrow> 'a list" where
  "memcpy_at dst k src = take k dst @ src @ drop (k + length src) dst"

text \<open>
  The loop over whole blocks. Whether the input pointer is aligned decides only whether
  the block passes through \<open>message\<close>.
\<close>

function keccak_update_blocks :: "bool \<Rightarrow> keccak_ctx \<Rightarrow> bytes \<Rightarrow> keccak_ctx \<times> bytes" where
  "keccak_update_blocks is_aligned ctx inp =
     (if length inp \<ge> KECCAK_BLOCKLEN
      then
        let ctx = (if is_aligned then ctx else ctx\<lparr>kc_message := take KECCAK_BLOCKLEN inp\<rparr>);
            block = (if is_aligned then take KECCAK_BLOCKLEN inp else kc_message ctx)
        in keccak_update_blocks is_aligned
             (ctx\<lparr>kc_hash := KECCAK_PROCESS_BLOCK (kc_hash ctx) block\<rparr>) (drop KECCAK_BLOCKLEN inp)
      else (ctx, inp))"
  by pat_completeness auto
termination
  by (relation "measure (\<lambda>(a, ctx, inp). length inp)") (auto simp: KECCAK_BLOCKLEN_def)

definition keccak_update_tail :: "bool \<Rightarrow> keccak_ctx \<Rightarrow> bytes \<Rightarrow> keccak_ctx" where
  "keccak_update_tail is_aligned ctx inp =
     (let (ctx, inp) = keccak_update_blocks is_aligned ctx inp
      in if inp \<noteq> [] then ctx\<lparr>kc_message := memcpy_at (kc_message ctx) 0 inp\<rparr> else ctx)"

definition keccak_update :: "bool \<Rightarrow> keccak_ctx \<Rightarrow> bytes \<Rightarrow> keccak_ctx option" where
  "keccak_update is_aligned ctx inp =
     (if kc_rest ctx AND KECCAK_FINALIZED \<noteq> 0 then None
      else
        let inlen = length inp;
            idx = unat (kc_rest ctx);
            ctx = ctx\<lparr>kc_rest := (kc_rest ctx + of_nat inlen) mod of_nat KECCAK_BLOCKLEN\<rparr>
        in if idx \<noteq> 0
           then
             let left = KECCAK_BLOCKLEN - idx;
                 ctx = ctx\<lparr>kc_message := memcpy_at (kc_message ctx) idx (take (min inlen left) inp)\<rparr>
             in if inlen < left then Some ctx
                else
                  let ctx = ctx\<lparr>kc_hash := KECCAK_PROCESS_BLOCK (kc_hash ctx) (kc_message ctx)\<rparr>
                  in Some (keccak_update_tail is_aligned ctx (drop left inp))
           else Some (keccak_update_tail is_aligned ctx inp))"

definition keccak_finish :: "keccak_ctx \<Rightarrow> keccak_ctx \<times> bytes" where
  "keccak_finish ctx =
     (let ctx =
        (if kc_rest ctx AND KECCAK_FINALIZED = 0
         then
           let r = unat (kc_rest ctx);
               m = memcpy_at (kc_message ctx) r (replicate (KECCAK_BLOCKLEN - r) 0);
               m = m[r := m ! r OR 0x01];
               m = m[KECCAK_BLOCKLEN - 1 := m ! (KECCAK_BLOCKLEN - 1) OR 0x80]
           in ctx\<lparr>kc_message := m, kc_hash := KECCAK_PROCESS_BLOCK (kc_hash ctx) m,
                 kc_rest := KECCAK_FINALIZED\<rparr>
         else ctx)
      in (ctx, concat (map (store_le 8) (take 4 (kc_hash ctx)))))"

section \<open>HMAC\<close>

record hmac_keccak_state =
  hk_inner :: keccak_ctx
  hk_outer :: keccak_ctx

text \<open>
  \<open>al\<close> tells of each \<open>keccak_update\<close> call, in program order, whether the pointer it gets
  is aligned.
\<close>

definition hmac_pad :: "u8 \<Rightarrow> bytes \<Rightarrow> bytes" where
  "hmac_pad c key = fold (\<lambda>i pad. pad[i := pad ! i XOR key ! i]) [0..<length key] (replicate KECCAK_BLOCKLEN c)"

definition hmac_keccak_init :: "(nat \<Rightarrow> bool) \<Rightarrow> bytes \<Rightarrow> hmac_keccak_state option" where
  "hmac_keccak_init al key =
     (case (if length key > KECCAK_BLOCKLEN then keccak key (int HASH_SIZE) else Some key) of
        None \<Rightarrow> None
      | Some key \<Rightarrow>
          (case keccak_update (al 0) keccak_init (hmac_pad 0x36 key) of
             None \<Rightarrow> None
           | Some inner \<Rightarrow>
               (case keccak_update (al 1) keccak_init (hmac_pad 0x5c key) of
                  None \<Rightarrow> None
                | Some outer \<Rightarrow> Some \<lparr>hk_inner = inner, hk_outer = outer\<rparr>)))"

definition hmac_keccak_update :: "(nat \<Rightarrow> bool) \<Rightarrow> hmac_keccak_state \<Rightarrow> bytes \<Rightarrow> hmac_keccak_state option" where
  "hmac_keccak_update al S data =
     (case keccak_update (al 2) (hk_inner S) data of
        None \<Rightarrow> None
      | Some inner \<Rightarrow> Some (S\<lparr>hk_inner := inner\<rparr>))"

definition hmac_keccak_finish :: "(nat \<Rightarrow> bool) \<Rightarrow> hmac_keccak_state \<Rightarrow> (hmac_keccak_state \<times> bytes) option" where
  "hmac_keccak_finish al S =
     (let (inner, ihash) = keccak_finish (hk_inner S)
      in case keccak_update (al 3) (hk_outer S) ihash of
           None \<Rightarrow> None
         | Some outer \<Rightarrow>
             let (outer, digest) = keccak_finish outer
             in Some (\<lparr>hk_inner = inner, hk_outer = outer\<rparr>, digest))"

definition hmac_keccak_hash :: "(nat \<Rightarrow> bool) \<Rightarrow> bytes \<Rightarrow> bytes \<Rightarrow> bytes option" where
  "hmac_keccak_hash al key inp =
     (case hmac_keccak_init al key of
        None \<Rightarrow> None
      | Some S \<Rightarrow>
          (case hmac_keccak_update al S inp of
             None \<Rightarrow> None
           | Some S \<Rightarrow> map_option snd (hmac_keccak_finish al S)))"

section \<open>Shape of the state\<close>

lemma length_fold_update: "(\<And>x st. length (f x st) = length st) \<Longrightarrow> length (fold f xs st) = length st"
  by (induction xs arbitrary: st) auto

lemma length_keccakf_theta [simp]: "length (keccakf_theta st) = length st"
  by (simp add: keccakf_theta_def Let_def length_fold_update)

lemma length_keccakf_chi [simp]: "length (keccakf_chi st) = length st"
  by (simp add: keccakf_chi_def Let_def length_fold_update)

lemma length_keccakf_rho_pi [simp]: "length (keccakf_rho_pi st) = length st"
proof -
  have "length (snd (fold (\<lambda>i (t, st). let j = keccakf_piln ! i; bc0 = st ! j
       in (bc0, st[j := ROTL64 t (keccakf_rotc ! i)])) is p)) = length (snd p)" for "is" and p :: "u64 \<times> u64 list"
    by (induction "is" arbitrary: p) (auto simp: Let_def split: prod.splits)
  then show ?thesis by (simp add: keccakf_rho_pi_def)
qed

lemma length_keccakf [simp]: "length (keccakf st n) = length st"
  by (simp add: keccakf_def length_fold_update keccakf_round_def Let_def)

lemma length_xor_words [simp]: "length (xor_words n b st) = length st"
  by (simp add: xor_words_def length_fold_update)

lemma length_KECCAK_PROCESS_BLOCK [simp]: "length (KECCAK_PROCESS_BLOCK st b) = length st"
  by (simp add: KECCAK_PROCESS_BLOCK_def)

text \<open>Only the first \<open>8 * n\<close> bytes of a block reach the state.\<close>

lemma word64_at_cong:
  "take (8 * n) a = take (8 * n) b \<Longrightarrow> i < n \<Longrightarrow> word64_at a i = word64_at b i"
proof -
  assume h: "take (8 * n) a = take (8 * n) b" and i: "i < n"
  have "take 8 (drop (8 * i) c) = take 8 (drop (8 * i) (take (8 * n) c))" for c :: bytes
    using i by (simp add: drop_take min_def)
  then show ?thesis using h by (metis word64_at_def)
qed

lemma xor_words_cong:
  "take (8 * n) a = take (8 * n) b \<Longrightarrow> xor_words n a st = xor_words n b st"
  unfolding xor_words_def by (rule fold_cong) (auto simp: word64_at_cong [of n a b])

section \<open>Absorbing, as one function\<close>

function kabs :: "u64 list \<Rightarrow> bytes \<Rightarrow> u64 list \<times> bytes" where
  "kabs st inp =
     (if length inp \<ge> 136 then kabs (KECCAK_PROCESS_BLOCK st (take 136 inp)) (drop 136 inp)
      else (st, inp))"
  by pat_completeness auto
termination
  by (relation "measure (\<lambda>(st, inp). length inp)") auto

declare kabs.simps [simp del] keccak_update_blocks.simps [simp del]

lemma kabs_rest_length: "length (snd (kabs st inp)) = length inp mod 136"
proof (induction st inp rule: kabs.induct)
  case (1 st inp)
  then show ?case
    by (subst kabs.simps) (auto simp: le_mod_geq)
qed

lemma length_kabs [simp]: "length (fst (kabs st inp)) = length st"
proof (induction st inp rule: kabs.induct)
  case (1 st inp)
  then show ?case
    by (subst kabs.simps) auto
qed

lemma kabs_append: "kabs st (a @ b) = kabs (fst (kabs st a)) (snd (kabs st a) @ b)"
proof (induction st a rule: kabs.induct)
  case (1 st a)
  show ?case
  proof (cases "length a \<ge> 136")
    case True
    then have "kabs st (a @ b) = kabs (KECCAK_PROCESS_BLOCK st (take 136 a)) (drop 136 a @ b)"
      by (subst kabs.simps) simp
    with 1 True show ?thesis by (simp add: kabs.simps [of st a])
  qed (simp add: kabs.simps [of st a])
qed

lemma keccak_absorb_kabs: "keccak_absorb 136 st inp = Some (kabs st inp)"
proof (induction st inp rule: kabs.induct)
  case (1 st inp)
  show ?case
  proof (cases "length inp \<ge> 136")
    case True
    have w: "(136::nat) div 8 = 17" by simp
    have "xor_words 17 (take 136 inp) st = xor_words 17 inp st"
      by (rule xor_words_cong) simp
    then have "keccak_absorb 136 st inp = keccak_absorb 136 (KECCAK_PROCESS_BLOCK st (take 136 inp)) (drop 136 inp)"
      using True by (subst keccak_absorb.simps) (simp only: if_True w KECCAK_PROCESS_BLOCK_def KECCAK_WORDS_def)
    also have "\<dots> = Some (kabs st inp)"
      using True 1 by (simp add: kabs.simps [of st inp])
    finally show ?thesis .
  next
    case False
    then show ?thesis by (subst keccak_absorb.simps) (simp add: kabs.simps [of st inp])
  qed
qed

lemma keccak_update_blocks_step:
  assumes "136 \<le> length inp"
  shows "keccak_update_blocks al ctx inp =
     keccak_update_blocks al
       (ctx\<lparr>kc_message := (if al then kc_message ctx else take 136 inp),
            kc_hash := KECCAK_PROCESS_BLOCK (kc_hash ctx) (take 136 inp)\<rparr>) (drop 136 inp)"
  using assms by (subst keccak_update_blocks.simps) (simp add: KECCAK_BLOCKLEN_def)

lemma keccak_update_blocks_kabs:
  assumes "length (kc_message ctx) = 136"
  shows "\<exists>ctx'. keccak_update_blocks al ctx inp = (ctx', snd (kabs (kc_hash ctx) inp)) \<and>
     kc_hash ctx' = fst (kabs (kc_hash ctx) inp) \<and> kc_rest ctx' = kc_rest ctx \<and>
     length (kc_message ctx') = 136"
  using assms
proof (induction "kc_hash ctx" inp arbitrary: ctx rule: kabs.induct)
  case (1 inp)
  show ?case
  proof (cases "136 \<le> length inp")
    case True
    define c where "c = ctx\<lparr>kc_message := (if al then kc_message ctx else take 136 inp),
            kc_hash := KECCAK_PROCESS_BLOCK (kc_hash ctx) (take 136 inp)\<rparr>"
    have "length (kc_message c) = 136" "KECCAK_PROCESS_BLOCK (kc_hash ctx) (take 136 inp) = kc_hash c"
      and "kc_rest c = kc_rest ctx"
      using 1(2) True by (simp_all add: c_def)
    moreover have "kabs (kc_hash ctx) inp = kabs (kc_hash c) (drop 136 inp)"
      using True by (simp add: kabs.simps [of "kc_hash ctx" inp] c_def)
    moreover have "keccak_update_blocks al ctx inp = keccak_update_blocks al c (drop 136 inp)"
      using keccak_update_blocks_step [OF True] by (simp only: c_def)
    ultimately show ?thesis
      using 1(1) [OF True, of c] by simp
  next
    case False
    then show ?thesis
      using 1 by (simp add: keccak_update_blocks.simps [of al ctx inp] KECCAK_BLOCKLEN_def
          kabs.simps [of "kc_hash ctx" inp])
  qed
qed

section \<open>The digest\<close>

definition kpad :: "bytes \<Rightarrow> bytes" where
  "kpad r = (r @ [1] @ replicate (135 - length r) 0)[135 := (r @ [1] @ replicate (135 - length r) 0) ! 135 OR 0x80]"

definition kfinal :: "bytes \<Rightarrow> u64 list" where
  "kfinal inp = (let (st, r) = kabs (replicate 25 0) inp in KECCAK_PROCESS_BLOCK st (kpad r))"

lemma length_kfinal [simp]: "length (kfinal inp) = 25"
proof -
  have "length (fst (kabs (replicate 25 0) inp)) = 25" by simp
  then show ?thesis
    unfolding kfinal_def by (cases "kabs (replicate 25 0) inp") (simp del: length_kabs)
qed

lemma keccak_kfinal:
  assumes "m = 32 \<or> m = 200"
  shows "keccak inp m = Some (concat (map (store_le 8) (take (nat m div 8) (kfinal inp))))"
proof -
  obtain st r where k: "kabs (replicate 25 0) inp = (st, r)" by force
  have r: "length r < 136"
    using kabs_rest_length [of "replicate 25 0" inp] k by simp
  have rs: "(if m = 200 then HASH_DATA_AREA else nat (200 - 2 * m)) = 136"
    using assms by (auto simp: HASH_DATA_AREA_def)
  have w: "(136::nat) div 8 = 17" "(136::nat) - 1 = 135" by simp_all
  have "keccak inp m =
      Some (concat (map (store_le 8) (take (nat m div 8) (KECCAK_PROCESS_BLOCK st (kpad r)))))"
    unfolding keccak_def rs Let_def keccak_absorb_kabs k KECCAK_PROCESS_BLOCK_def KECCAK_WORDS_def kpad_def w
    using assms r by auto
  then show ?thesis by (simp add: kfinal_def k)
qed

theorem cn_fast_hash_keccak: "keccak data 32 = Some (cn_fast_hash data)"
proof -
  have "take 32 (concat (map (store_le 8) ws)) = concat (map (store_le 8) (take 4 ws))"
    if "length ws = 25" for ws :: "u64 list"
  proof -
    have "concat (map (store_le 8) ws) = concat (map (store_le 8) (take 4 ws)) @ concat (map (store_le 8) (drop 4 ws))"
      by (metis append_take_drop_id concat_append map_append)
    moreover have "length (concat (map (store_le 8) (take 4 ws))) = 32"
      using that by (simp add: length_concat_store)
    ultimately show ?thesis by simp
  qed
  then show ?thesis
    by (simp add: cn_fast_hash_def hash_process_def keccak1600_def HASH_SIZE_def keccak_kfinal)
qed

lemma length_cn_fast_hash [simp]: "length (cn_fast_hash data) = 32"
  by (simp add: cn_fast_hash_def hash_process_def keccak1600_def HASH_SIZE_def keccak_kfinal length_concat_store)


section \<open>Streaming computes the same digest\<close>

definition streamed :: "keccak_ctx \<Rightarrow> bytes \<Rightarrow> bool" where
  "streamed ctx D \<longleftrightarrow>
     (let (st, r) = kabs (replicate 25 0) D
      in kc_hash ctx = st \<and> unat (kc_rest ctx) = length r \<and> take (length r) (kc_message ctx) = r \<and>
         length (kc_message ctx) = 136)"

lemma streamed_init: "streamed keccak_init []"
  by (simp add: streamed_def keccak_init_def kabs.simps)

lemma not_finalized:
  assumes "unat w < 136"
  shows "w AND KECCAK_FINALIZED = 0"
proof -
  have "take_bit 8 w = w"
    using assms by (intro word_eqI_unat) (simp add: unat_take_bit)
  then have "w = w AND mask 8" by (simp add: take_bit_eq_mask)
  then have "w AND KECCAK_FINALIZED = w AND (mask 8 AND KECCAK_FINALIZED)"
    by (metis and.assoc)
  also have "mask 8 AND KECCAK_FINALIZED = 0"
    by (simp add: KECCAK_FINALIZED_def mask_numeral)
  finally show ?thesis by simp
qed

lemma keccak_update_tail_kabs:
  assumes "length (kc_message ctx) = 136"
  shows "kc_hash (keccak_update_tail al ctx inp) = fst (kabs (kc_hash ctx) inp)"
    and "kc_rest (keccak_update_tail al ctx inp) = kc_rest ctx"
    and "take (length (snd (kabs (kc_hash ctx) inp))) (kc_message (keccak_update_tail al ctx inp)) = snd (kabs (kc_hash ctx) inp)"
    and "length (kc_message (keccak_update_tail al ctx inp)) = 136"
proof -
  define r where "r = snd (kabs (kc_hash ctx) inp)"
  have r: "length r < 136"
    unfolding r_def by (simp add: kabs_rest_length)
  obtain c where c: "keccak_update_blocks al ctx inp = (c, r)" "kc_hash c = fst (kabs (kc_hash ctx) inp)"
    "kc_rest c = kc_rest ctx" "length (kc_message c) = 136"
    using keccak_update_blocks_kabs [OF assms] unfolding r_def by metis
  have t: "keccak_update_tail al ctx inp =
      (if r \<noteq> [] then c\<lparr>kc_message := memcpy_at (kc_message c) 0 r\<rparr> else c)"
    by (simp add: keccak_update_tail_def c(1))
  show "kc_hash (keccak_update_tail al ctx inp) = fst (kabs (kc_hash ctx) inp)"
    and "kc_rest (keccak_update_tail al ctx inp) = kc_rest ctx"
    and "take (length (snd (kabs (kc_hash ctx) inp))) (kc_message (keccak_update_tail al ctx inp)) = snd (kabs (kc_hash ctx) inp)"
    and "length (kc_message (keccak_update_tail al ctx inp)) = 136"
    unfolding t r_def [symmetric] using c r by (simp_all add: memcpy_at_def)
qed


lemma rest_after_update:
  fixes w :: u64
  assumes "unat w < 136" and "n < 2 ^ 64 - 136"
  shows "unat ((w + of_nat n) mod of_nat KECCAK_BLOCKLEN) = (unat w + n) mod 136"
proof -
  have "unat (w + of_nat n) = unat w + n"
    using assms by (simp add: unat_add_wrap unat_of_nat_u64)
  then show ?thesis by (simp add: unat_mod KECCAK_BLOCKLEN_def)
qed

lemma streamedI:
  assumes "kabs (replicate 25 0) D = (st, r)" "kc_hash ctx = st" "unat (kc_rest ctx) = length r"
    "take (length r) (kc_message ctx) = r" "length (kc_message ctx) = 136"
  shows "streamed ctx D"
  using assms by (simp add: streamed_def)

lemma streamed_tail:
  assumes k: "kabs (replicate 25 0) D = kabs (kc_hash ctx) inp"
    and m: "length (kc_message ctx) = 136" and r: "unat (kc_rest ctx) = length D mod 136"
  shows "streamed (keccak_update_tail al ctx inp) D"
proof (rule streamedI)
  show "kabs (replicate 25 0) D = (fst (kabs (kc_hash ctx) inp), snd (kabs (kc_hash ctx) inp))"
    using k by simp
  have "length (snd (kabs (kc_hash ctx) inp)) = length D mod 136"
    using kabs_rest_length [of "replicate 25 0" D] by (simp only: k)
  then show "unat (kc_rest (keccak_update_tail al ctx inp)) = length (snd (kabs (kc_hash ctx) inp))"
    using keccak_update_tail_kabs(2) [OF m] r by simp
qed (rule keccak_update_tail_kabs [OF m])+

lemma keccak_update_streamed:
  assumes s: "streamed ctx D" and n: "length inp < 2 ^ 64 - 136"
  shows "\<exists>ctx'. keccak_update al ctx inp = Some ctx' \<and> streamed ctx' (D @ inp)"
proof -
  obtain st r where k: "kabs (replicate 25 0) D = (st, r)" by force
  have c: "kc_hash ctx = st" "unat (kc_rest ctx) = length r" "take (length r) (kc_message ctx) = r"
    "length (kc_message ctx) = 136"
    using s by (simp_all add: streamed_def k)
  have lr: "length r = length D mod 136" "length r < 136"
    using kabs_rest_length [of "replicate 25 0" D] k by simp_all
  define c1 where "c1 = ctx\<lparr>kc_rest := (kc_rest ctx + of_nat (length inp)) mod of_nat KECCAK_BLOCKLEN\<rparr>"
  have rest': "unat (kc_rest c1) = (length r + length inp) mod 136"
    using rest_after_update [of "kc_rest ctx" "length inp"] c(2) lr(2) n by (simp add: c1_def)
  then have rest: "unat (kc_rest c1) = length (D @ inp) mod 136"
    unfolding lr(1) by (simp add: mod_simps)
  have kk: "kabs (replicate 25 0) (D @ inp) = kabs st (r @ inp)"
    using kabs_append [of "replicate 25 0" D inp] k by simp
  have nf: "kc_rest ctx AND KECCAK_FINALIZED = 0"
    using c(2) lr(2) by (intro not_finalized) simp
  show ?thesis
  proof (cases "r = []")
    case True
    then have "keccak_update al ctx inp = Some (keccak_update_tail al c1 inp)"
      using nf c(2) by (simp add: keccak_update_def Let_def c1_def)
    moreover have "streamed (keccak_update_tail al c1 inp) (D @ inp)"
      using kk True rest c by (intro streamed_tail) (simp_all add: c1_def)
    ultimately show ?thesis by simp
  next
    case False
    define left where "left = 136 - length r"
    define c2 where "c2 = c1\<lparr>kc_message := r @ take left inp @ drop (length r + length (take left inp)) (kc_message ctx)\<rparr>"
    have upd: "keccak_update al ctx inp =
        (if length inp < left then Some c2
         else Some (keccak_update_tail al (c2\<lparr>kc_hash := KECCAK_PROCESS_BLOCK st (kc_message c2)\<rparr>) (drop left inp)))"
      using nf c False
      by (simp add: keccak_update_def Let_def memcpy_at_def c2_def c1_def left_def KECCAK_BLOCKLEN_def min_def)
    show ?thesis
    proof (cases "length inp < left")
      case True
      have "streamed c2 (D @ inp)"
      proof (rule streamedI)
        show "kabs (replicate 25 0) (D @ inp) = (st, r @ inp)"
          unfolding kk using True by (subst kabs.simps) (auto simp: left_def)
        show "unat (kc_rest c2) = length (r @ inp)"
          using rest' True by (simp add: c2_def left_def)
      qed (use True c in \<open>simp_all add: c2_def c1_def left_def\<close>)
      with upd True show ?thesis by simp
    next
      case f: False
      define c3 where "c3 = c2\<lparr>kc_hash := KECCAK_PROCESS_BLOCK st (kc_message c2)\<rparr>"
      have m: "kc_message c2 = r @ take left inp"
        using f c(4) lr(2) by (simp add: c2_def left_def)
      have "streamed (keccak_update_tail al c3 (drop left inp)) (D @ inp)"
      proof (rule streamed_tail)
        show "kabs (replicate 25 0) (D @ inp) = kabs (kc_hash c3) (drop left inp)"
          unfolding kk using f lr(2) by (subst kabs.simps) (auto simp: left_def c3_def m)
        show "length (kc_message c3) = 136"
          using f lr(2) by (simp add: c3_def m left_def)
        show "unat (kc_rest c3) = length (D @ inp) mod 136"
          using rest by (simp add: c3_def c2_def)
      qed
      with upd f show ?thesis by (simp add: c3_def)
    qed
  qed
qed

lemma keccak_finish_streamed:
  assumes s: "streamed ctx D"
  shows "keccak D 32 = Some (snd (keccak_finish ctx))"
proof -
  obtain st r where k: "kabs (replicate 25 0) D = (st, r)" by force
  have c: "kc_hash ctx = st" "unat (kc_rest ctx) = length r" "take (length r) (kc_message ctx) = r"
    "length (kc_message ctx) = 136"
    using s by (simp_all add: streamed_def k)
  have lr: "length r < 136"
    using kabs_rest_length [of "replicate 25 0" D] k by simp
  have nf: "kc_rest ctx AND KECCAK_FINALIZED = 0"
    using c(2) lr by (intro not_finalized) simp
  define m where "m = r @ replicate (136 - length r) 0"
  have m1: "m[length r := m ! length r OR 1] = r @ [1] @ replicate (135 - length r) 0"
  proof -
    have "136 - length r = Suc (135 - length r)" using lr by simp
    then show ?thesis by (simp add: m_def list_update_append nth_append)
  qed
  have "kc_hash (fst (keccak_finish ctx)) = KECCAK_PROCESS_BLOCK st (kpad r)"
    using nf c lr m1
    by (simp add: keccak_finish_def Let_def memcpy_at_def KECCAK_BLOCKLEN_def kpad_def m_def)
  then have "snd (keccak_finish ctx) = concat (map (store_le 8) (take 4 (kfinal D)))"
    by (simp add: keccak_finish_def Let_def kfinal_def k)
  then show ?thesis by (simp add: keccak_kfinal)
qed

text \<open>Feeding a message in pieces.\<close>

fun keccak_update_all :: "keccak_ctx \<Rightarrow> (bool \<times> bytes) list \<Rightarrow> keccak_ctx option" where
  "keccak_update_all ctx [] = Some ctx"
| "keccak_update_all ctx ((al, x) # xs) =
     (case keccak_update al ctx x of None \<Rightarrow> None | Some ctx \<Rightarrow> keccak_update_all ctx xs)"

lemma keccak_update_all_streamed:
  "streamed ctx D \<Longrightarrow> \<forall>x \<in> set xs. length (snd x) < 2 ^ 64 - 136 \<Longrightarrow>
     \<exists>ctx'. keccak_update_all ctx xs = Some ctx' \<and> streamed ctx' (D @ concat (map snd xs))"
proof (induction ctx xs arbitrary: D rule: keccak_update_all.induct)
  case (2 ctx al x xs)
  then obtain c where "keccak_update al ctx x = Some c" "streamed c (D @ x)"
    using keccak_update_streamed [of ctx D x al] by auto
  with 2 show ?case by fastforce
qed simp

theorem keccak_stream_correct:
  assumes "\<forall>x \<in> set xs. length (snd x) < 2 ^ 64 - 136"
  shows "map_option (snd \<circ> keccak_finish) (keccak_update_all keccak_init xs) = keccak (concat (map snd xs)) 32"
  using keccak_update_all_streamed [OF streamed_init assms] keccak_finish_streamed by fastforce


section \<open>HMAC is the keyed construction over the one-shot hash\<close>

definition hmac_K0 :: "bytes \<Rightarrow> bytes" where
  "hmac_K0 key =
     (let k = (if length key > 136 then cn_fast_hash key else key)
      in k @ replicate (136 - length k) 0)"

lemma fold_xor_prefix:
  assumes "length key \<le> length pad" and "n \<le> length key" and "j < length pad"
  shows "fold (\<lambda>i pad. pad[i := pad ! i XOR key ! i]) [0..<n] pad ! j =
           (if j < n then pad ! j XOR key ! j else pad ! j)"
  using assms(2,3)
proof (induction n)
  case (Suc n)
  have "length (fold (\<lambda>i pad. pad[i := pad ! i XOR key ! i]) [0..<n] pad) = length pad"
    by (simp add: length_fold_update)
  with Suc assms(1) show ?case by (auto simp: nth_list_update less_Suc_eq)
qed simp

lemma hmac_pad_eq:
  assumes "length key \<le> 136"
  shows "hmac_pad c key = map (\<lambda>x. x XOR c) (key @ replicate (136 - length key) 0)"
proof (rule nth_equalityI)
  have l: "length (hmac_pad c key) = 136"
    by (simp add: hmac_pad_def length_fold_update KECCAK_BLOCKLEN_def)
  then show "length (hmac_pad c key) = length (map (\<lambda>x. x XOR c) (key @ replicate (136 - length key) 0))"
    using assms by simp
  fix i assume "i < length (hmac_pad c key)"
  then have "i < 136" by (simp only: l)
  then show "hmac_pad c key ! i = map (\<lambda>x. x XOR c) (key @ replicate (136 - length key) 0) ! i"
    unfolding hmac_pad_def
    using assms by (simp add: fold_xor_prefix KECCAK_BLOCKLEN_def nth_append xor.commute)
qed

theorem hmac_keccak_hash_correct:
  assumes "length inp < 2 ^ 64 - 136"
  shows "hmac_keccak_hash al key inp =
     Some (cn_fast_hash (map (\<lambda>x. x XOR 0x5c) (hmac_K0 key) @
             cn_fast_hash (map (\<lambda>x. x XOR 0x36) (hmac_K0 key) @ inp)))"
proof -
  define k where "k = (if length key > 136 then cn_fast_hash key else key)"
  have lk: "length k \<le> 136" by (simp add: k_def)
  define P where "P c = map (\<lambda>x. x XOR c) (hmac_K0 key)" for c :: u8
  have P: "hmac_pad c k = P c" for c
    using hmac_pad_eq [OF lk] by (simp add: P_def hmac_K0_def k_def Let_def)
  have lP: "length (P c) < 2 ^ 64 - 136" for c
    using lk by (simp add: P_def hmac_K0_def k_def Let_def)
  have upd: "\<exists>c'. keccak_update a c D' = Some c' \<and> streamed c' (D @ D')"
    if "streamed c D" "length D' < 2 ^ 64 - 136" for a c D D'
    using keccak_update_streamed that by blast
  obtain ci where ci: "keccak_update (al 0) keccak_init (P 0x36) = Some ci" "streamed ci (P 0x36)"
    using upd [OF streamed_init lP] by auto
  obtain co where co: "keccak_update (al 1) keccak_init (P 0x5c) = Some co" "streamed co (P 0x5c)"
    using upd [OF streamed_init lP] by auto
  obtain ci' where ci': "keccak_update (al 2) ci inp = Some ci'" "streamed ci' (P 0x36 @ inp)"
    using upd [OF ci(2) assms] by auto
  have fin: "snd (keccak_finish c) = cn_fast_hash D" if "streamed c D" for c D
    using keccak_finish_streamed [OF that] cn_fast_hash_keccak [of D] by simp
  define ih where "ih = cn_fast_hash (P 0x36 @ inp)"
  have "length ih < 2 ^ 64 - 136" by (simp add: ih_def)
  then obtain co' where co': "keccak_update (al 3) co ih = Some co'" "streamed co' (P 0x5c @ ih)"
    using upd [OF co(2)] by blast
  have "hmac_keccak_init al key = Some \<lparr>hk_inner = ci, hk_outer = co\<rparr>"
    using ci(1) co(1)
    by (simp add: hmac_keccak_init_def KECCAK_BLOCKLEN_def HASH_SIZE_def cn_fast_hash_keccak k_def
        flip: P split: if_splits)
  then show ?thesis
    using ci'(1) co'(1) fin [OF ci'(2)] fin [OF co'(2)]
    by (simp add: hmac_keccak_hash_def hmac_keccak_update_def hmac_keccak_finish_def split_beta ih_def P_def)
qed

section \<open>Properties\<close>

text \<open>C3: feeding a message to the streaming interface in pieces of any sizes, each at any memory
  alignment, and finishing it gives the digest that the one-shot \<open>keccak\<close> gives for the
  concatenation of the pieces.\<close>

theorem keccak_streaming:
  assumes "\<forall>x \<in> set xs. length (snd x) < 2 ^ 64 - 136"
  shows "map_option (snd \<circ> keccak_finish) (keccak_update_all keccak_init xs) =
    keccak (concat (map snd xs)) 32"
  by (rule keccak_stream_correct [OF assms])

theorem keccak_streaming_witness:
  "map_option (snd \<circ> keccak_finish)
     (keccak_update_all keccak_init [(True, [1, 2, 3]), (False, replicate 200 7)]) =
   keccak ([1, 2, 3] @ replicate 200 7) 32"
  using keccak_streaming [of "[(True, [1, 2, 3]), (False, replicate 200 7)]"] by simp

text \<open>C4: \<open>hmac_keccak_hash\<close> computes the keyed construction \<open>H((K0 xor opad) || H((K0 xor ipad) || text))\<close>
  over the one-shot hash, whatever the length of the key and the alignment of the buffers.\<close>

theorem hmac_keccak_hash_spec:
  assumes "length inp < 2 ^ 64 - 136"
  shows "hmac_keccak_hash al key inp =
     Some (cn_fast_hash (map (\<lambda>x. x XOR 0x5c) (hmac_K0 key) @
             cn_fast_hash (map (\<lambda>x. x XOR 0x36) (hmac_K0 key) @ inp)))"
  by (rule hmac_keccak_hash_correct [OF assms])

theorem hmac_keccak_hash_spec_witness:
  "length [1, 2, 3 :: u8] < 2 ^ 64 - 136 \<and>
   hmac_keccak_hash (\<lambda>_. True) (replicate 200 9) [1, 2, 3] =
     Some (cn_fast_hash (map (\<lambda>x. x XOR 0x5c) (hmac_K0 (replicate 200 9)) @
             cn_fast_hash (map (\<lambda>x. x XOR 0x36) (hmac_K0 (replicate 200 9)) @ [1, 2, 3])))"
  using hmac_keccak_hash_spec [of "[1, 2, 3]" "\<lambda>_. True" "replicate 200 9"] by simp

end
