(* ===== verification/ChaCha.thy ===== *)
theory ChaCha
  imports Int_Util
begin

text \<open>
  \<open>src/crypto/chacha.c\<close>: the ChaCha stream cipher that encrypts wallet files and
  payment metadata. The sixteen scalar variables \<open>x0 .. x15\<close> and \<open>j0 .. j15\<close> of the
  code are lists of sixteen words. The lemmas show that a call writes exactly as many
  bytes as it reads and that it is its own inverse for the same key and IV, whatever
  the length and whatever the uninitialised part of the local buffer \<open>tmp\<close> holds.
\<close>

definition U8TO32_LITTLE :: "bytes \<Rightarrow> nat \<Rightarrow> u32" where
  "U8TO32_LITTLE p off = load_le (take 4 (drop off p))"

definition QUARTERROUND :: "nat \<Rightarrow> nat \<Rightarrow> nat \<Rightarrow> nat \<Rightarrow> u32 list \<Rightarrow> u32 list" where
  "QUARTERROUND a b c d x =
     (let x = x[a := x ! a + x ! b]; x = x[d := rol32 (x ! d XOR x ! a) 16];
          x = x[c := x ! c + x ! d]; x = x[b := rol32 (x ! b XOR x ! c) 12];
          x = x[a := x ! a + x ! b]; x = x[d := rol32 (x ! d XOR x ! a) 8];
          x = x[c := x ! c + x ! d]; x = x[b := rol32 (x ! b XOR x ! c) 7]
      in x)"

definition sigma :: bytes where
  "sigma = bytes_of ''expand 32-byte k''"

definition chacha_doubleround :: "u32 list \<Rightarrow> u32 list" where
  "chacha_doubleround x =
     (let x = QUARTERROUND 0 4 8 12 x;
          x = QUARTERROUND 1 5 9 13 x;
          x = QUARTERROUND 2 6 10 14 x;
          x = QUARTERROUND 3 7 11 15 x;
          x = QUARTERROUND 0 5 10 15 x;
          x = QUARTERROUND 1 6 11 12 x;
          x = QUARTERROUND 2 7 8 13 x;
          x = QUARTERROUND 3 4 9 14 x
      in x)"

text \<open>\<open>for (i = rounds; i > 0; i -= 2)\<close>.\<close>

fun chacha_rounds :: "nat \<Rightarrow> u32 list \<Rightarrow> u32 list" where
  "chacha_rounds 0 x = x"
| "chacha_rounds (Suc 0) x = chacha_doubleround x"
| "chacha_rounds (Suc (Suc n)) x = chacha_rounds n (chacha_doubleround x)"

definition chacha_setup :: "bytes \<Rightarrow> bytes \<Rightarrow> u32 list" where
  "chacha_setup key iv =
     [U8TO32_LITTLE sigma 0, U8TO32_LITTLE sigma 4, U8TO32_LITTLE sigma 8, U8TO32_LITTLE sigma 12,
      U8TO32_LITTLE key 0, U8TO32_LITTLE key 4, U8TO32_LITTLE key 8, U8TO32_LITTLE key 12,
      U8TO32_LITTLE key 16, U8TO32_LITTLE key 20, U8TO32_LITTLE key 24, U8TO32_LITTLE key 28,
      0, 0, U8TO32_LITTLE iv 0, U8TO32_LITTLE iv 4]"

text \<open>One 64-byte block: the 64 output bytes for the 64 input bytes.\<close>

definition chacha_block :: "nat \<Rightarrow> u32 list \<Rightarrow> bytes \<Rightarrow> bytes" where
  "chacha_block rounds j data =
     (let x = chacha_rounds rounds j;
          x = map2 (+) x j;
          x = map (\<lambda>i. x ! i XOR U8TO32_LITTLE data (4 * i)) [0..<16]
      in concat (map (store_le 4) x))"

definition chacha_next :: "u32 list \<Rightarrow> u32 list" where
  "chacha_next j =
     (let j = j[12 := j ! 12 + 1]
      in if j ! 12 = 0 then j[13 := j ! 13 + 1] else j)"

text \<open>
  The \<open>for (;;)\<close> loop. A block shorter than 64 bytes is copied into \<open>tmp\<close>, whose other
  bytes are arbitrary, encrypted there and copied back.
\<close>

function chacha_loop :: "nat \<Rightarrow> bytes \<Rightarrow> u32 list \<Rightarrow> bytes \<Rightarrow> bytes" where
  "chacha_loop rounds tmp j data =
     (let len = length data in
      if len < 64 then take len (chacha_block rounds j (data @ drop len tmp))
      else
        let c = chacha_block rounds j (take 64 data)
        in if len \<le> 64 then c
           else c @ chacha_loop rounds tmp (chacha_next j) (drop 64 data))"
  by pat_completeness auto
termination
  by (relation "measure (\<lambda>(rounds, tmp, j, data). length data)") auto

definition chacha :: "nat \<Rightarrow> bytes \<Rightarrow> bytes \<Rightarrow> bytes \<Rightarrow> bytes \<Rightarrow> bytes" where
  "chacha rounds tmp data key iv =
     (if length data = 0 then [] else chacha_loop rounds tmp (chacha_setup key iv) data)"

definition chacha8 :: "bytes \<Rightarrow> bytes \<Rightarrow> bytes \<Rightarrow> bytes \<Rightarrow> bytes" where
  "chacha8 tmp data key iv = chacha 8 tmp data key iv"

definition chacha20 :: "bytes \<Rightarrow> bytes \<Rightarrow> bytes \<Rightarrow> bytes \<Rightarrow> bytes" where
  "chacha20 tmp data key iv = chacha 20 tmp data key iv"

declare chacha_loop.simps [simp del]

section \<open>Encryption is a bytewise exclusive or\<close>

lemma length_QUARTERROUND [simp]: "length (QUARTERROUND a b c d x) = length x"
  by (simp add: QUARTERROUND_def Let_def)

lemma length_chacha_rounds [simp]: "length (chacha_rounds n x) = length x"
  by (induction n x rule: chacha_rounds.induct) (simp_all add: chacha_doubleround_def Let_def)

lemma length_chacha_next [simp]: "length (chacha_next j) = length j"
  by (simp add: chacha_next_def Let_def)

lemma length_chacha_setup [simp]: "length (chacha_setup key iv) = 16"
  by (simp add: chacha_setup_def)

definition keystream :: "nat \<Rightarrow> u32 list \<Rightarrow> bytes" where
  "keystream rounds j = concat (map (store_le 4) (map2 (+) (chacha_rounds rounds j) j))"

lemma length_keystream: "length j = 16 \<Longrightarrow> length (keystream rounds j) = 64"
  by (simp add: keystream_def length_concat_store del: map_map)

lemma concat_store_xor:
  "length data = 4 * length ws \<Longrightarrow>
     concat (map (\<lambda>i. store_le 4 (ws ! i XOR U8TO32_LITTLE data (4 * i))) [0..<length ws]) =
     map2 (XOR) (concat (map (store_le 4) ws)) data"
proof (induction ws arbitrary: data)
  case (Cons w ws)
  have s: "store_le 4 (load_le (take 4 data) :: u32) = take 4 data"
    using Cons.prems by (intro store_load_le) simp_all
  have "concat (map (\<lambda>i. store_le 4 ((w # ws) ! i XOR U8TO32_LITTLE data (4 * i))) [0..<length (w # ws)]) =
      store_le 4 (w XOR U8TO32_LITTLE data 0) @
      concat (map (\<lambda>i. store_le 4 (ws ! i XOR U8TO32_LITTLE (drop 4 data) (4 * i))) [0..<length ws])"
    by (simp add: upt_conv_Cons map_Suc_upt [symmetric] U8TO32_LITTLE_def comp_def add.commute
        del: upt_Suc)
  also have "\<dots> = map2 (XOR) (store_le 4 w) (take 4 data) @
      map2 (XOR) (concat (map (store_le 4) ws)) (drop 4 data)"
    using Cons.IH [of "drop 4 data"] Cons.prems
    by (simp add: store_le_xor U8TO32_LITTLE_def s)
  also have "\<dots> = map2 (XOR) (store_le 4 w @ concat (map (store_le 4) ws)) (take 4 data @ drop 4 data)"
    using Cons.prems by (subst zip_append) simp_all
  finally show ?case by simp
qed simp

lemma chacha_block_xor:
  assumes "length j = 16" and "length data = 64"
  shows "chacha_block rounds j data = map2 (XOR) (keystream rounds j) data"
proof -
  define ws where "ws = map2 (+) (chacha_rounds rounds j) j"
  have "length ws = 16" using assms(1) by (simp add: ws_def)
  then show ?thesis
    using concat_store_xor [of data ws] assms(2)
    by (simp add: chacha_block_def keystream_def comp_def flip: ws_def)
qed

lemma chacha_loop_step:
  assumes "length j = 16" and "64 \<le> length data"
  shows "chacha_loop rounds tmp j data =
     map2 (XOR) (keystream rounds j) (take 64 data) @
     (if length data = 64 then [] else chacha_loop rounds tmp (chacha_next j) (drop 64 data))"
  using assms by (subst chacha_loop.simps) (auto simp: Let_def chacha_block_xor)

lemma chacha_loop_last:
  assumes "length j = 16" and "length data < 64" and "length tmp = 64"
  shows "chacha_loop rounds tmp j data = map2 (XOR) (take (length data) (keystream rounds j)) data"
  using assms by (subst chacha_loop.simps) (simp add: Let_def chacha_block_xor take_map take_zip)

lemma length_chacha_loop:
  "length j = 16 \<Longrightarrow> length tmp = 64 \<Longrightarrow> length (chacha_loop rounds tmp j data) = length data"
proof (induction rounds tmp j data rule: chacha_loop.induct)
  case (1 rounds tmp j data)
  show ?case
  proof (cases "length data < 64")
    case True
    with 1 show ?thesis by (simp add: chacha_loop_last [of j data] length_keystream)
  next
    case False
    with 1 show ?thesis by (simp add: chacha_loop_step [of j data] length_keystream)
  qed
qed

lemma map2_xor_cancel: "length k = length d \<Longrightarrow> map2 (XOR) k (map2 (XOR) k d) = (d :: 'a::len word list)"
  by (induction k d rule: list_induct2) (simp_all flip: xor.assoc)

lemma chacha_loop_involution:
  "length j = 16 \<Longrightarrow> length tmp = 64 \<Longrightarrow> length tmp' = 64 \<Longrightarrow>
     chacha_loop rounds tmp' j (chacha_loop rounds tmp j data) = data"
proof (induction rounds tmp j data rule: chacha_loop.induct)
  case (1 rounds tmp j data)
  show ?case
  proof (cases "length data < 64")
    case True
    with 1 show ?thesis
      by (simp add: chacha_loop_last [of j data] chacha_loop_last [of j] length_keystream map2_xor_cancel)
  next
    case False
    define c where "c = map2 (XOR) (keystream rounds j) (take 64 data)"
    define r where "r = (if length data = 64 then [] else chacha_loop rounds tmp (chacha_next j) (drop 64 data))"
    have c: "length c = 64" "map2 (XOR) (keystream rounds j) c = take 64 data"
      using 1 False by (simp_all add: c_def length_keystream map2_xor_cancel)
    have r: "length r = length data - 64"
      using 1 False by (simp add: r_def length_chacha_loop)
    have "chacha_loop rounds tmp j data = c @ r"
      using 1 False by (simp add: chacha_loop_step [of j data] c_def r_def)
    moreover have "chacha_loop rounds tmp' j (c @ r) =
        take 64 data @ (if length r = 0 then [] else chacha_loop rounds tmp' (chacha_next j) r)"
      using 1 c by (subst chacha_loop_step) simp_all
    moreover have "(if length r = 0 then [] else chacha_loop rounds tmp' (chacha_next j) r) = drop 64 data"
      using 1 False r by (auto simp: r_def)
    ultimately show ?thesis by simp
  qed
qed

theorem chacha_length:
  "length tmp = 64 \<Longrightarrow> length (chacha rounds tmp data key iv) = length data"
  by (simp add: chacha_def length_chacha_loop)

section \<open>Properties\<close>

text \<open>with the same key and initialisation vector the cipher is its own inverse, for any number
  of rounds, messages of any length (the partial last block included), and whatever the scratch
  block held before either call.\<close>

theorem chacha_decrypts:
  assumes "length tmp = 64" and "length tmp' = 64"
  shows "chacha rounds tmp' (chacha rounds tmp data key iv) key iv = data"
  using assms length_chacha_loop [of "chacha_setup key iv" tmp rounds data]
  by (auto simp: chacha_def chacha_loop_involution)

theorem chacha_decrypts_witness:
  "length (replicate 64 (0::u8)) = 64 \<and> length (replicate 64 (1::u8)) = 64 \<and>
   chacha 8 (replicate 64 1) (chacha 8 (replicate 64 0) [1, 2, 3] (replicate 32 5) (replicate 8 6))
     (replicate 32 5) (replicate 8 6) = [1, 2, 3]"
  using chacha_decrypts [of "replicate 64 0" "replicate 64 1" 8 "[1, 2, 3]" "replicate 32 5" "replicate 8 6"]
  by simp

end
