(* ===== verification/Varint.thy ===== *)
theory Varint
  imports Prelude
begin

text \<open>
  \<open>src/common/varint.h\<close>: the base-128 encoding of unsigned integers used by addresses,
  the extra field of transactions and all binary serialization. The lemmas show that
  reading inverts writing, that a terminated encoding accepted by \<open>read_varint\<close> is the
  one \<open>write_varint\<close> produces (so encodings are unique), and the bounds on values and
  lengths.
\<close>

definition EVARINT_OVERFLOW :: int where
  "EVARINT_OVERFLOW = - 1"

definition EVARINT_REPRESENT :: int where
  "EVARINT_REPRESENT = - 2"

function write_varint :: "u64 \<Rightarrow> bytes" where
  "write_varint i =
     (if i \<ge> 0x80 then ((ucast i AND 0x7f) OR 0x80) # write_varint (drop_bit 7 i)
      else [ucast i])"
  by pat_completeness auto
termination
proof (relation "measure unat")
  fix i :: u64
  assume "i \<ge> 0x80"
  then have "128 \<le> unat i" by (simp add: word_le_nat_alt)
  then show "(drop_bit 7 i, i) \<in> measure unat" by (simp add: unat_shr)
qed simp

declare write_varint.simps [simp del]

definition get_varint_data :: "u64 \<Rightarrow> bytes" where
  "get_varint_data v = write_varint v"

text \<open>
  The loop of \<open>read_varint<bits>\<close> from a given \<open>shift\<close>, count \<open>read\<close> and partial value
  \<open>write\<close>. The result is the returned integer, the value stored through \<open>write\<close> and the
  unread rest of the input.
\<close>

fun read_varint_loop :: "nat \<Rightarrow> nat \<Rightarrow> int \<Rightarrow> u64 \<Rightarrow> bytes \<Rightarrow> int \<times> u64 \<times> bytes" where
  "read_varint_loop bits shift read write [] = (read, write, [])"
| "read_varint_loop bits shift read write (byte # rest) =
     (let read = read + 1 in
      if shift + 7 \<ge> bits \<and> unat byte \<ge> 2 ^ (bits - shift) then (EVARINT_OVERFLOW, write, rest)
      else if byte = 0 \<and> shift \<noteq> 0 then (EVARINT_REPRESENT, write, rest)
      else
        let write = write OR push_bit shift (ucast (byte AND 0x7f))
        in if byte AND 0x80 = 0 then (read, write, rest)
           else read_varint_loop bits (shift + 7) read write rest)"

definition read_varint :: "nat \<Rightarrow> bytes \<Rightarrow> int \<times> u64 \<times> bytes" where
  "read_varint bits inp = read_varint_loop bits 0 0 0 inp"

section \<open>The bytes of an encoding\<close>

lemma and_7f: "x AND 0x7f = take_bit 7 x" for x :: "'a::len word"
  by (simp add: take_bit_eq_mask mask_numeral)

lemma u8_high_bit: "((x :: u8) AND 0x80 = 0) = (unat x < 128)"
proof -
  have "x AND 0x80 = push_bit 7 (drop_bit 7 x)"
  proof (rule bit_word_eqI)
    fix n assume "n < LENGTH(8)"
    then have "n \<in> set [0..<8]" by simp
    moreover have "[0..<8] = [0, 1, 2, 3, 4, 5, 6, 7]" by code_simp
    ultimately consider "n = 0" | "n = 1" | "n = 2" | "n = 3" | "n = 4" | "n = 5" | "n = 6" | "n = 7"
      by auto
    then show "bit (x AND 0x80) n = bit (push_bit 7 (drop_bit 7 x)) n"
      by cases (auto simp: bit_simps)
  qed
  then have "unat (x AND 0x80) = unat x div 128 * 128"
    using unat_u8_lt [of x] by (simp add: unat_shl unat_shr)
  then show ?thesis
    by (simp add: word_unat_eq_iff [of "x AND 0x80"] div_eq_0_iff)
qed

lemma unat_and_7f: "unat (x AND 0x7f) = unat x mod 128" for x :: "'a::len word"
  using unat_take_bit [of 7 x] by (simp add: and_7f)

lemma unat_continuation: "unat ((ucast i AND 0x7f) OR 0x80 :: u8) = unat (i :: u64) mod 128 + 128"
proof -
  have "unat (ucast i AND 0x7f :: u8) = unat i mod 128"
    by (simp add: unat_and_7f unat_ucast_wrap mod_mod_cancel)
  then show ?thesis
    by (subst unat_or_disjoint [where n = 7]) simp_all
qed

lemma unat_last_byte: "i < 0x80 \<Longrightarrow> unat (ucast (i :: u64) :: u8) = unat i"
  by (simp add: unat_ucast_wrap word_less_nat_alt)

text \<open>The value a string of 7-bit digits spells, and the encoding as a function on numbers.\<close>

fun varint_nat :: "bytes \<Rightarrow> nat" where
  "varint_nat [] = 0"
| "varint_nat (b # bs) = unat b mod 128 + 128 * varint_nat bs"

lemma write_varint_nonempty [simp]: "write_varint i \<noteq> []"
  by (subst write_varint.simps) simp

lemma write_varint_big:
  "0x80 \<le> i \<Longrightarrow> write_varint i = ((ucast i AND 0x7f) OR 0x80) # write_varint (drop_bit 7 i)"
  by (subst write_varint.simps) simp

lemma write_varint_small: "\<not> 0x80 \<le> i \<Longrightarrow> write_varint i = [ucast i]"
  by (subst write_varint.simps) simp

lemma varint_nat_write: "varint_nat (write_varint i) = unat i"
proof (induction i rule: write_varint.induct)
  case (1 i)
  show ?case
  proof (cases "0x80 \<le> i")
    case True
    with 1 show ?thesis
      by (simp add: write_varint_big unat_continuation unat_shr)
  next
    case False
    then have "unat i < 128" by (simp add: word_le_nat_alt)
    with False show ?thesis
      by (simp add: write_varint_small unat_last_byte not_le)
  qed
qed

section \<open>One iteration of the reading loop\<close>

lemma accumulate_digit:
  fixes w :: u64
  assumes "unat w < 2 ^ shift" and "unat (byte :: u8) mod 128 * 2 ^ shift < 2 ^ 64"
  shows "unat (w OR push_bit shift (ucast (byte AND 0x7f))) = unat w + unat byte mod 128 * 2 ^ shift"
proof -
  have "unat (push_bit shift (ucast (byte AND 0x7f) :: u64)) = unat byte mod 128 * 2 ^ shift"
    using assms(2) by (simp add: unat_shl unat_and_7f)
  with assms(1) show ?thesis by (subst unat_or_disjoint [where n = shift]) simp_all
qed

text \<open>What the two range checks of the loop leave: the digit fits below \<open>2 ^ bits\<close>.\<close>

lemma digit_fits:
  assumes "shift < bits" and "bits \<le> 64"
    and "\<not> (shift + 7 \<ge> bits \<and> unat (byte :: u8) \<ge> 2 ^ (bits - shift))"
  shows "unat byte mod 128 * 2 ^ shift < 2 ^ bits"
    and "unat byte mod 128 * 2 ^ shift < 2 ^ 64"
    and "\<not> unat byte < 128 \<Longrightarrow> shift + 7 < bits"
proof -
  have e: "(2::nat) ^ bits = 2 ^ (bits - shift) * 2 ^ shift"
    using assms(1) by (simp flip: power_add)
  show c: "\<not> unat byte < 128 \<Longrightarrow> shift + 7 < bits"
  proof (rule ccontr)
    assume "\<not> unat byte < 128" "\<not> shift + 7 < bits"
    moreover from this have "(2::nat) ^ (bits - shift) \<le> 2 ^ 7" by (intro power_increasing) auto
    ultimately show False using assms(3) by simp
  qed
  show 1: "unat byte mod 128 * 2 ^ shift < 2 ^ bits"
  proof (cases "shift + 7 < bits")
    case True
    have "unat byte mod 128 * 2 ^ shift < 2 ^ 7 * 2 ^ shift" by simp
    also have "\<dots> \<le> 2 ^ bits" unfolding power_add [symmetric] using True by (intro power_increasing) auto
    finally show ?thesis .
  next
    case False
    with assms(3) have "unat byte < 2 ^ (bits - shift)" by simp
    then have "unat byte mod 128 < 2 ^ (bits - shift)"
      by (rule order.strict_trans1 [OF mod_less_eq_dividend])
    then show ?thesis by (simp add: e)
  qed
  also have "(2::nat) ^ bits \<le> 2 ^ 64" using assms(2) by (intro power_increasing) auto
  finally show "unat byte mod 128 * 2 ^ shift < 2 ^ 64" .
qed

lemma read_varint_loop_step:
  assumes "read_varint_loop bits shift r w (byte # bs) = (n, v, rest)" "0 \<le> n"
    "shift < bits" "bits \<le> 64" "unat w < 2 ^ shift"
  obtains w' where "unat w' = unat w + unat byte mod 128 * 2 ^ shift"
    "(if unat byte < 128 then (r + 1, w', bs)
      else read_varint_loop bits (shift + 7) (r + 1) w' bs) = (n, v, rest)"
    "unat w' < 2 ^ (shift + 7)" "\<not> (byte = 0 \<and> shift \<noteq> 0)"
    "unat byte mod 128 * 2 ^ shift < 2 ^ bits" "\<not> unat byte < 128 \<Longrightarrow> shift + 7 < bits"
proof -
  have ok: "\<not> (shift + 7 \<ge> bits \<and> unat byte \<ge> 2 ^ (bits - shift))" "\<not> (byte = 0 \<and> shift \<noteq> 0)"
    using assms(1,2) by (auto simp: EVARINT_OVERFLOW_def EVARINT_REPRESENT_def Let_def split: if_splits)
  define w' where "w' = w OR push_bit shift (ucast (byte AND 0x7f))"
  note fits = digit_fits [OF assms(3,4) ok(1)]
  have w': "unat w' = unat w + unat byte mod 128 * 2 ^ shift"
    unfolding w'_def by (rule accumulate_digit [OF assms(5) fits(2)])
  moreover have "(if unat byte < 128 then (r + 1, w', bs)
      else read_varint_loop bits (shift + 7) (r + 1) w' bs) = (n, v, rest)"
    using assms(1) ok by (auto simp: u8_high_bit w'_def Let_def split: if_splits)
  moreover have "unat w' < 2 ^ shift + 127 * 2 ^ shift"
    unfolding w' using assms(5) by (intro add_less_le_mono mult_right_mono) auto
  then have "unat w' < 2 ^ (shift + 7)" by (simp add: power_add)
  ultimately show ?thesis using that ok(2) fits(1,3) by blast
qed

section \<open>Reading inverts writing\<close>

lemma read_varint_loop_write:
  assumes "shift < bits" "bits \<le> 64" "unat i * 2 ^ shift < 2 ^ bits" "shift = 0 \<or> i \<noteq> 0"
    "unat w < 2 ^ shift"
  shows "read_varint_loop bits shift r w (write_varint i @ rest) =
     (r + int (length (write_varint i)), of_nat (unat w + unat i * 2 ^ shift), rest)"
  using assms
proof (induction i arbitrary: shift r w rule: write_varint.induct)
  case (1 i)
  show ?case
  proof (cases "0x80 \<le> i")
    case True
    then have i: "128 \<le> unat i" by (simp add: word_le_nat_alt)
    define byte :: u8 where "byte = (ucast i AND 0x7f) OR 0x80"
    have b: "unat byte = unat i mod 128 + 128" "byte \<noteq> 0" "\<not> unat byte < 128"
      using unat_continuation [of i] by (auto simp: byte_def)
    have "2 ^ (shift + 7) \<le> unat i * 2 ^ shift"
      using i by (simp add: power_add)
    also note \<open>unat i * 2 ^ shift < 2 ^ bits\<close>
    finally have lt: "shift + 7 < bits" by simp
    define w' where "w' = w OR push_bit shift (ucast (byte AND 0x7f))"
    have w': "unat w' = unat w + unat i mod 128 * 2 ^ shift"
      using accumulate_digit [OF 1(6), of byte] digit_fits(2) [of shift bits byte] lt 1(3) b
      by (simp add: w'_def)
    have split: "unat i * 2 ^ shift = unat i mod 128 * 2 ^ shift + unat (drop_bit 7 i) * 2 ^ (shift + 7)"
    proof -
      have "(m + d * 128) * 2 ^ shift = m * 2 ^ shift + d * 2 ^ (shift + 7)" for m d :: nat
        by (simp add: power_add algebra_simps)
      from this [of "unat i mod 128" "unat i div 128"] show ?thesis by (simp add: unat_shr)
    qed
    have "drop_bit 7 i \<noteq> 0"
      using i by (simp add: word_unat_eq_iff unat_shr div_eq_0_iff)
    moreover have "unat w' < 2 ^ (shift + 7)"
    proof -
      have "unat w' < 2 ^ shift + 127 * 2 ^ shift"
        unfolding w' using 1(6) by (intro add_less_le_mono mult_right_mono) auto
      then show ?thesis by (simp add: power_add)
    qed
    moreover have "unat (drop_bit 7 i) * 2 ^ (shift + 7) < 2 ^ bits"
      using split 1(4) by linarith
    ultimately have "read_varint_loop bits (shift + 7) (r + 1) w' (write_varint (drop_bit 7 i) @ rest) =
        (r + 1 + int (length (write_varint (drop_bit 7 i))),
         of_nat (unat w' + unat (drop_bit 7 i) * 2 ^ (shift + 7)), rest)"
      using 1(1) [OF True, of "shift + 7" w' "r + 1"] lt 1(3) by simp
    then show ?thesis
      using lt b True split w'
      by (simp add: write_varint_big Let_def u8_high_bit flip: byte_def w'_def)
  next
    case False
    then have i: "unat i < 128" by (simp add: word_le_nat_alt)
    have b: "unat (ucast i :: u8) = unat i"
      using False by (intro unat_last_byte) simp
    have fits: "\<not> (shift + 7 \<ge> bits \<and> unat (ucast i :: u8) \<ge> 2 ^ (bits - shift))"
    proof -
      have "(2::nat) ^ bits = 2 ^ (bits - shift) * 2 ^ shift"
        using 1(2) by (simp flip: power_add)
      with 1(4) show ?thesis by (simp add: b)
    qed
    have z: "\<not> ((ucast i :: u8) = 0 \<and> shift \<noteq> 0)"
      using 1(5) b by (auto simp: word_unat_eq_iff)
    have "unat (w OR push_bit shift (ucast (ucast i AND 0x7f :: u8))) = unat w + unat i * 2 ^ shift"
      using accumulate_digit [OF 1(6), of "ucast i"] digit_fits(2) [OF 1(2,3) fits] i by (simp add: b)
    then have "w OR push_bit shift (ucast (ucast i AND 0x7f :: u8)) = of_nat (unat w + unat i * 2 ^ shift)"
      by (metis unat_inv)
    moreover have "(ucast i :: u8) AND 0x80 = 0"
      using i by (simp add: u8_high_bit b)
    ultimately show ?thesis
      using False fits z by (auto simp: write_varint_small Let_def)
  qed
qed

theorem read_write_varint:
  "read_varint 64 (write_varint i @ rest) = (int (length (write_varint i)), i, rest)"
  using read_varint_loop_write [of 0 64 i 0 0 rest] unat_u64_lt [of i]
  by (simp add: read_varint_def unat_inv)

section \<open>Accepted encodings are canonical\<close>

lemma write_varint_of_digits:
  assumes "\<not> unat (byte :: u8) < 128" and "u \<noteq> 0"
    and "unat byte mod 128 + 128 * unat u < 2 ^ 64"
  shows "write_varint (of_nat (unat byte mod 128 + 128 * unat (u :: u64))) = byte # write_varint u"
proof -
  define i :: u64 where "i = of_nat (unat byte mod 128 + 128 * unat u)"
  have i: "unat i = unat byte mod 128 + 128 * unat u"
    unfolding i_def using assms(3) by (rule unat_of_nat_u64)
  have "0 < unat u" using assms(2) by (simp add: unat_gt_0)
  then have "0x80 \<le> i" by (simp add: word_le_nat_alt i)
  moreover have "(ucast i AND 0x7f) OR 0x80 = byte"
  proof (rule word_eqI_unat)
    have "unat byte mod 128 + 128 = unat byte"
      using assms(1) unat_u8_lt [of byte] by (simp add: mod_sub_once)
    then show "unat ((ucast i AND 0x7f) OR 0x80 :: u8) = unat byte"
      by (simp add: unat_continuation i)
  qed
  moreover have "drop_bit 7 i = u"
    by (rule word_eqI_unat) (simp add: unat_shr i)
  ultimately show ?thesis unfolding i_def [symmetric] by (simp add: write_varint_big)
qed

lemma read_varint_loop_canonical:
  assumes "read_varint_loop bits shift r w bs = (n, v, rest)" "0 \<le> n" "0 \<le> r"
    "shift < bits" "bits \<le> 64" "unat w < 2 ^ shift"
  shows "(\<exists>u. bs = write_varint u @ rest \<and> (shift = 0 \<or> u \<noteq> 0) \<and>
            unat v = unat w + unat u * 2 ^ shift \<and> n = r + int (length (write_varint u))) \<or>
         (rest = [] \<and> (\<forall>b \<in> set bs. 128 \<le> unat b) \<and> n = r + int (length bs))"
  using assms
proof (induction bs arbitrary: shift r w)
  case (Cons byte bs)
  from read_varint_loop_step [OF Cons.prems(1,2,4,5,6)]
  obtain w' where w': "unat w' = unat w + unat byte mod 128 * 2 ^ shift"
    and eq: "(if unat byte < 128 then (r + 1, w', bs)
      else read_varint_loop bits (shift + 7) (r + 1) w' bs) = (n, v, rest)"
    and w'_lt: "unat w' < 2 ^ (shift + 7)" and nz: "\<not> (byte = 0 \<and> shift \<noteq> 0)"
    and fits: "unat byte mod 128 * 2 ^ shift < 2 ^ bits" "\<not> unat byte < 128 \<Longrightarrow> shift + 7 < bits"
    by metis
  show ?case
  proof (cases "unat byte < 128")
    case True
    define u :: u64 where "u = ucast byte"
    have u: "unat u = unat byte" by (simp add: u_def)
    have "write_varint u = [byte]"
    proof -
      have "ucast u = byte" by (rule word_eqI_unat) (simp add: unat_ucast_wrap u unat_u8_lt)
      moreover have "\<not> 0x80 \<le> u" using True u by (simp add: word_le_nat_alt)
      ultimately show ?thesis by (simp add: write_varint_small)
    qed
    moreover have "shift = 0 \<or> u \<noteq> 0" using nz u by (auto simp: word_unat_eq_iff)
    ultimately show ?thesis
      using eq True w' u by (intro disjI1 exI [of _ u]) auto
  next
    case False
    then have lt: "shift + 7 < bits" by (rule fits(2))
    with w'_lt Cons.IH [of "shift + 7" "r + 1" w'] eq False lt Cons.prems
    consider (closed) u where "bs = write_varint u @ rest" "u \<noteq> 0"
        "unat v = unat w' + unat u * 2 ^ (shift + 7)" "n = r + 1 + int (length (write_varint u))"
      | (truncated) "rest = []" "\<forall>b \<in> set bs. 128 \<le> unat b" "n = r + 1 + int (length bs)"
      by auto
    then show ?thesis
    proof cases
      case (closed u)
      have v: "unat v = unat w + (unat byte mod 128 + 128 * unat u) * 2 ^ shift"
        using closed(3) w' by (simp add: power_add algebra_simps)
      have "(unat byte mod 128 + 128 * unat u) * 1 \<le> (unat byte mod 128 + 128 * unat u) * 2 ^ shift"
        by (intro mult_le_mono2) simp
      also have "\<dots> < 2 ^ 64" using v unat_u64_lt [of v] by simp
      finally have lt64: "unat byte mod 128 + 128 * unat u < 2 ^ 64" by simp
      define i :: u64 where "i = of_nat (unat byte mod 128 + 128 * unat u)"
      have i: "unat i = unat byte mod 128 + 128 * unat u"
        unfolding i_def using lt64 by (rule unat_of_nat_u64)
      have "write_varint i = byte # write_varint u"
        unfolding i_def by (rule write_varint_of_digits [OF False closed(2) lt64])
      moreover have "i \<noteq> 0"
        using closed(2) i by (auto simp: word_unat_eq_iff)
      ultimately show ?thesis
        using closed v i by (intro disjI1 exI [of _ i]) auto
    next
      case truncated
      with False show ?thesis by auto
    qed
  qed
qed simp

theorem read_varint_canonical:
  assumes "read_varint bits bs = (n, v, rest)" and "0 \<le> n" and "0 < bits" and "bits \<le> 64"
  shows "(bs = write_varint v @ rest \<and> n = int (length (write_varint v))) \<or>
         (rest = [] \<and> (\<forall>b \<in> set bs. 128 \<le> unat b) \<and> n = int (length bs))"
  using read_varint_loop_canonical [of bits 0 0 0 bs n v rest] assms
  by (auto simp: read_varint_def word_unat_eq_iff [symmetric])

lemma length_write_varint: "unat i < 128 ^ n \<Longrightarrow> 0 < n \<Longrightarrow> length (write_varint i) \<le> n"
proof (induction n arbitrary: i)
  case (Suc n)
  show ?case
  proof (cases "0x80 \<le> i")
    case True
    then have "128 \<le> unat i" by (simp add: word_le_nat_alt)
    then have "0 < n" using Suc.prems by (cases n) auto
    moreover have "unat (drop_bit 7 i) < 128 ^ n"
      using Suc.prems by (simp add: unat_shr less_mult_imp_div_less mult.commute)
    ultimately show ?thesis using Suc.IH True by (simp add: write_varint_big)
  qed (simp add: write_varint_small)
qed simp

theorem length_write_varint_le_10: "length (write_varint i) \<le> 10"
  using unat_u64_lt [of i] by (intro length_write_varint) simp_all

section \<open>Range of the value read\<close>

lemma read_varint_loop_range:
  assumes "read_varint_loop bits shift r w bs = (n, v, rest)" "0 \<le> n"
    "shift < bits" "bits \<le> 64" "unat w < 2 ^ shift"
  shows "unat v < 2 ^ bits"
  using assms
proof (induction bs arbitrary: shift r w)
  case Nil
  have "(2::nat) ^ shift \<le> 2 ^ bits" using Nil.prems(3) by (intro power_increasing) auto
  moreover have "unat v < 2 ^ shift" using Nil.prems by simp
  ultimately show ?case by linarith
next
  case (Cons byte bs)
  from read_varint_loop_step [OF Cons.prems]
  obtain w' where w': "unat w' = unat w + unat byte mod 128 * 2 ^ shift"
    and eq: "(if unat byte < 128 then (r + 1, w', bs)
      else read_varint_loop bits (shift + 7) (r + 1) w' bs) = (n, v, rest)"
    and w'_lt: "unat w' < 2 ^ (shift + 7)" and nz: "\<not> (byte = 0 \<and> shift \<noteq> 0)"
    and fits: "unat byte mod 128 * 2 ^ shift < 2 ^ bits" "\<not> unat byte < 128 \<Longrightarrow> shift + 7 < bits"
    by metis
  show ?case
  proof (cases "unat byte < 128")
    case True
    have e: "(2::nat) ^ bits = 2 ^ (bits - shift) * 2 ^ shift"
      using Cons.prems(3) by (simp flip: power_add)
    have "unat byte mod 128 + 1 \<le> 2 ^ (bits - shift)"
      using fits(1) unfolding e by simp
    then have "(unat byte mod 128 + 1) * 2 ^ shift \<le> 2 ^ bits"
      unfolding e by (rule mult_le_mono1)
    with eq True w' Cons.prems(5) show ?thesis by auto
  next
    case False
    with w'_lt Cons.IH [of "shift + 7" "r + 1" w'] eq fits(2) Cons.prems show ?thesis by simp
  qed
qed

theorem read_varint_range:
  assumes "read_varint bits bs = (n, v, rest)" and "0 \<le> n" and "0 < bits" and "bits \<le> 64"
  shows "unat v < 2 ^ bits"
  using read_varint_loop_range [of bits 0 0 0 bs n v rest] assms by (simp add: read_varint_def)

section \<open>Properties\<close>




end
