(* ===== verification/Base58.thy ===== *)
theory Base58
  imports Int_Util Varint Keccak
begin

text \<open>
  \<open>src/common/base58.cpp\<close>: the block-wise base-58 encoding of addresses, and the tagged,
  checksummed form \<open>encode_addr\<close> / \<open>decode_addr\<close>. Strings are byte lists.

  A block is encoded into the slice of the result that belongs to it; a write outside
  that slice is \<open>None\<close>, so the lemma that \<open>encode\<close> always returns \<open>Some\<close> says that no
  block writes out of bounds. A decoder that returns false is \<open>None\<close>.
\<close>

definition alphabet :: bytes where
  "alphabet = bytes_of ''123456789ABCDEFGHJKLMNPQRSTUVWXYZabcdefghijkmnopqrstuvwxyz''"

definition alphabet_size :: nat where
  "alphabet_size = length alphabet"

definition encoded_block_sizes :: "nat list" where
  "encoded_block_sizes = [0, 2, 3, 5, 6, 7, 9, 10, 11]"

definition full_block_size :: nat where
  "full_block_size = length encoded_block_sizes - 1"

definition full_encoded_block_size :: nat where
  "full_encoded_block_size = encoded_block_sizes ! full_block_size"

definition addr_checksum_size :: nat where
  "addr_checksum_size = 4"

text \<open>The constructor of \<open>reverse_alphabet\<close> and its call operator.\<close>

definition reverse_alphabet_data :: "int list" where
  "reverse_alphabet_data =
     fold (\<lambda>i m_data. m_data[nat (sint (alphabet ! i) - sint (alphabet ! 0)) := int i])
       [0..<alphabet_size]
       (replicate (nat (sint (alphabet ! (alphabet_size - 1)) - sint (alphabet ! 0) + 1)) (- 1))"

definition reverse_alphabet :: "u8 \<Rightarrow> int" where
  "reverse_alphabet letter =
     (let idx = sint letter - sint (alphabet ! 0)
      in if 0 \<le> idx \<and> idx < int (length reverse_alphabet_data)
         then reverse_alphabet_data ! nat idx else - 1)"

definition decoded_block_sizes_data :: "int list" where
  "decoded_block_sizes_data =
     fold (\<lambda>i m_data. m_data[encoded_block_sizes ! i := int i])
       [0..<full_block_size + 1]
       (replicate (encoded_block_sizes ! full_block_size + 1) (- 1))"

definition decoded_block_sizes :: "nat \<Rightarrow> int" where
  "decoded_block_sizes encoded_block_size = decoded_block_sizes_data ! encoded_block_size"

text \<open>The \<open>memcpy\<close> into, and out of, the last \<open>size\<close> bytes of a little-endian word.\<close>

definition uint_8be_to_64 :: "bytes \<Rightarrow> nat \<Rightarrow> u64" where
  "uint_8be_to_64 data sz = SWAP64 (load_le (replicate (8 - sz) 0 @ take sz data))"

definition uint_64_to_8be :: "u64 \<Rightarrow> nat \<Rightarrow> bytes" where
  "uint_64_to_8be num sz = take sz (drop (8 - sz) (store_le 8 (SWAP64 num)))"

function encode_block_loop :: "u64 \<Rightarrow> int \<Rightarrow> bytes \<Rightarrow> bytes option" where
  "encode_block_loop num i res =
     (if 0 < num
      then if 0 \<le> i \<and> i < int (length res)
           then encode_block_loop (num div of_nat alphabet_size) (i - 1)
                  (res[nat i := alphabet ! unat (num mod of_nat alphabet_size)])
           else None
      else Some res)"
  by pat_completeness auto
termination
proof (relation "measure (\<lambda>(num, i, res). unat num)")
  fix num :: u64 and i :: int and res :: bytes
  assume "0 < num"
  then have "0 < unat num" by (simp add: word_less_nat_alt)
  moreover have "unat (of_nat alphabet_size :: u64) = 58"
    by (simp add: alphabet_size_def alphabet_def)
  ultimately show "((num div of_nat alphabet_size, i - 1, res[nat i := alphabet ! unat (num mod of_nat alphabet_size)]),
      num, i, res) \<in> measure (\<lambda>(num, i, res). unat num)"
    by (simp add: unat_div)
qed simp

definition encode_block :: "bytes \<Rightarrow> nat \<Rightarrow> bytes \<Rightarrow> bytes option" where
  "encode_block block sz res =
     (let num = uint_8be_to_64 block sz;
          i = int (encoded_block_sizes ! sz) - 1
      in encode_block_loop num i res)"

text \<open>The loop of \<open>decode_block\<close> runs from the last character to the first.\<close>

fun decode_block_loop :: "bytes \<Rightarrow> u64 \<Rightarrow> u64 \<Rightarrow> u64 option" where
  "decode_block_loop [] res_num order = Some res_num"
| "decode_block_loop (c # cs) res_num order =
     (let digit = reverse_alphabet c in
      if digit < 0 then None
      else
        let (product_lo, product_hi) = mul128 order (of_int digit);
            tmp = res_num + product_lo
        in if tmp < res_num \<or> 0 \<noteq> product_hi then None
           else decode_block_loop cs tmp (order * of_nat alphabet_size))"

definition decode_block :: "bytes \<Rightarrow> nat \<Rightarrow> bytes option" where
  "decode_block block sz =
     (let res_size = decoded_block_sizes sz in
      if res_size \<le> 0 then None
      else case decode_block_loop (rev (take sz block)) 0 1 of
             None \<Rightarrow> None
           | Some res_num \<Rightarrow>
               if nat res_size < full_block_size \<and> push_bit (8 * nat res_size) 1 \<le> res_num then None
               else Some (uint_64_to_8be res_num (nat res_size)))"

text \<open>
  The two loops over blocks share their shape: \<open>count\<close> blocks of \<open>n\<close> bytes, then the
  remaining bytes if there are any.
\<close>

fun for_blocks :: "(bytes \<Rightarrow> bytes option) \<Rightarrow> nat \<Rightarrow> nat \<Rightarrow> bytes \<Rightarrow> bytes option" where
  "for_blocks f n 0 data = (if 0 < length data then f data else Some [])"
| "for_blocks f n (Suc count) data =
     (case f (take n data) of
        None \<Rightarrow> None
      | Some e \<Rightarrow> map_option (\<lambda>es. e @ es) (for_blocks f n count (drop n data)))"

definition encode :: "bytes \<Rightarrow> bytes option" where
  "encode data =
     (if data = [] then Some []
      else
        let full_block_count = length data div full_block_size
        in for_blocks
             (\<lambda>block. encode_block block (length block)
                (replicate (encoded_block_sizes ! length block) (alphabet ! 0)))
             full_block_size full_block_count data)"

definition decode :: "bytes \<Rightarrow> bytes option" where
  "decode enc =
     (if enc = [] then Some []
      else
        let full_block_count = length enc div full_encoded_block_size;
            last_block_size = length enc mod full_encoded_block_size;
            last_block_decoded_size = decoded_block_sizes last_block_size
        in if last_block_decoded_size < 0 then None
           else for_blocks (\<lambda>block. decode_block block (length block))
                  full_encoded_block_size full_block_count enc)"

definition encode_addr :: "u64 \<Rightarrow> bytes \<Rightarrow> bytes option" where
  "encode_addr tag data =
     (let buf = get_varint_data tag;
          buf = buf @ data;
          hash = cn_fast_hash buf;
          buf = buf @ take addr_checksum_size hash
      in encode buf)"

definition decode_addr :: "bytes \<Rightarrow> (u64 \<times> bytes) option" where
  "decode_addr addr =
     (case decode addr of
        None \<Rightarrow> None
      | Some addr_data \<Rightarrow>
          if length addr_data \<le> addr_checksum_size then None
          else
            let checksum = drop (length addr_data - addr_checksum_size) addr_data;
                addr_data = take (length addr_data - addr_checksum_size) addr_data;
                hash = cn_fast_hash addr_data;
                expected_checksum = take addr_checksum_size hash
            in if expected_checksum \<noteq> checksum then None
               else
                 let (rd, tag, rest) = read_varint 64 addr_data
                 in if rd \<le> 0 then None else Some (tag, drop (nat rd) addr_data))"

declare encode_block_loop.simps [simp del]

lemma alphabet_list [code]: "alphabet = [49, 50, 51, 52, 53, 54, 55, 56, 57,
   65, 66, 67, 68, 69, 70, 71, 72, 74, 75, 76, 77, 78, 80, 81, 82, 83, 84, 85, 86, 87, 88, 89, 90,
   97, 98, 99, 100, 101, 102, 103, 104, 105, 106, 107, 109, 110, 111, 112, 113, 114, 115, 116, 117, 118, 119, 120, 121, 122]"
  by (simp add: alphabet_def bytes_of_def)
lemma alphabet_size_58 [code]: "alphabet_size = 58"
  by (simp add: alphabet_size_def alphabet_list)
lemma upt_58: "[0..<58] = [0, 1, 2, 3, 4, 5, 6, 7, 8, 9, 10, 11, 12, 13, 14, 15, 16, 17, 18, 19, 20, 21, 22, 23, 24, 25, 26, 27, 28, 29, 30, 31, 32, 33, 34, 35, 36, 37, 38, 39, 40, 41, 42, 43, 44, 45, 46, 47, 48, 49, 50, 51, 52, 53, 54, 55, 56, 57]"
  by code_simp
lemma replicate_74: "replicate 74 (x::int) = [x, x, x, x, x, x, x, x, x, x, x, x, x, x, x, x, x, x, x, x, x, x, x, x, x, x, x, x, x, x, x, x, x, x, x, x, x, x, x, x, x, x, x, x, x, x, x, x, x, x, x, x, x, x, x, x, x, x, x, x, x, x, x, x, x, x, x, x, x, x, x, x, x, x]"
  by (simp add: numeral_eq_Suc)

lemma reverse_alphabet_list: "reverse_alphabet_data = [0, 1, 2, 3, 4, 5, 6, 7, 8, - 1, - 1, - 1, - 1, - 1, - 1, - 1, 9, 10, 11,
  12, 13, 14, 15, 16, - 1, 17, 18, 19, 20, 21, - 1, 22, 23, 24, 25, 26, 27,
  28, 29, 30, 31, 32, - 1, - 1, - 1, - 1, - 1, - 1, 33, 34, 35, 36, 37, 38,
  39, 40, 41, 42, 43, - 1, 44, 45, 46, 47, 48, 49, 50, 51, 52, 53, 54, 55,
  56, 57]"
  unfolding reverse_alphabet_data_def alphabet_size_58 upt_58 alphabet_list
  by (simp add: replicate_74)

lemma upt_74: "[0..<74] = [0, 1, 2, 3, 4, 5, 6, 7, 8, 9, 10, 11, 12, 13, 14, 15, 16, 17, 18, 19, 20, 21, 22, 23, 24, 25, 26, 27, 28, 29, 30, 31, 32, 33, 34, 35, 36, 37, 38, 39, 40, 41, 42, 43, 44, 45, 46, 47, 48, 49, 50, 51, 52, 53, 54, 55, 56, 57, 58, 59, 60, 61, 62, 63, 64, 65, 66, 67, 68, 69, 70, 71, 72, 73]"
  by code_simp

lemma reverse_alphabet_nth: "d < 58 \<Longrightarrow> reverse_alphabet (alphabet ! d) = int d"
proof -
  assume "d < 58"
  then have "d \<in> set [0..<58]" by simp
  then show ?thesis
    unfolding upt_58 list.set insert_iff empty_iff
    by (elim disjE; simp add: reverse_alphabet_def reverse_alphabet_list alphabet_list)
qed

lemma reverse_alphabet_inverse:
  assumes "0 \<le> reverse_alphabet c"
  shows "reverse_alphabet c < 58" and "alphabet ! nat (reverse_alphabet c) = c"
proof -
  define k where "k = nat (sint c - 49)"
  have a0: "sint (alphabet ! 0) = 49" by (simp add: alphabet_list)
  have idx: "0 \<le> sint c - 49" "sint c - 49 < 74"
    using assms by (auto simp: reverse_alphabet_def a0 reverse_alphabet_list split: if_splits)
  have c: "c = word_of_int (int k + 49)"
    using idx(1) by (simp add: k_def)
  have r: "reverse_alphabet c = reverse_alphabet_data ! k"
    using idx by (simp add: reverse_alphabet_def a0 reverse_alphabet_list k_def)
  have "k < 74" using idx by (simp add: k_def nat_less_iff)
  then have "k \<in> set [0..<74]" by simp
  then have "0 \<le> reverse_alphabet_data ! k \<longrightarrow>
      reverse_alphabet_data ! k < 58 \<and> alphabet ! nat (reverse_alphabet_data ! k) = word_of_int (int k + 49)"
    unfolding upt_74 list.set insert_iff empty_iff reverse_alphabet_list alphabet_list
    by (elim disjE; simp)
  then show "reverse_alphabet c < 58" and "alphabet ! nat (reverse_alphabet c) = c"
    using assms unfolding c [symmetric] r by simp_all
qed

section \<open>Big-endian numbers\<close>

definition be_nat :: "bytes \<Rightarrow> nat" where
  "be_nat bs = le_nat (rev bs)"

lemma be_nat_bound: "be_nat bs < 256 ^ length bs"
  using le_nat_bound [of "rev bs"] by (simp add: be_nat_def)

lemma le_nat_append_zeros: "le_nat (bs @ replicate k 0) = le_nat bs"
proof (induction bs)
  case Nil
  show ?case by (induction k) simp_all
qed simp

lemma bit_load_le:
  assumes "8 * length bs \<le> LENGTH('a)" and "n < 8 * length bs"
  shows "bit (load_le bs :: 'a::len word) n = bit (bs ! (n div 8)) (n mod 8)"
proof -
  have i: "n div 8 < length bs" using assms(2) by (simp add: less_mult_imp_div_less mult.commute)
  then have "bs ! (n div 8) = ucast (drop_bit (8 * (n div 8)) (load_le bs :: 'a word))"
    using store_load_le [OF assms(1) refl] nth_store_le by metis
  moreover have "8 * (n div 8) + n mod 8 = n" by simp
  ultimately show ?thesis by (simp add: bit_simps)
qed

lemma SWAP64_load_le:
  assumes "length bs = 8"
  shows "SWAP64 (load_le bs) = load_le (rev bs)"
proof (rule bit_word_eqI)
  fix n assume "n < LENGTH(64)"
  then have n: "n < 64" by simp
  define k where "k = 8 * (7 - n div 8) + n mod 8"
  have "n div 8 < 8" using n by (simp add: less_mult_imp_div_less)
  then have k: "k < 64" "k div 8 = 7 - n div 8" "k mod 8 = n mod 8" by (simp_all add: k_def)
  have "bit (SWAP64 (load_le bs)) n = bit (bs ! (7 - n div 8)) (n mod 8)"
    using n k assms by (simp add: bit_SWAP64 bit_load_le flip: k_def)
  also have "bs ! (7 - n div 8) = rev bs ! (n div 8)"
    using assms \<open>n div 8 < 8\<close> by (simp add: rev_nth)
  also have "bit (rev bs ! (n div 8)) (n mod 8) = bit (load_le (rev bs) :: u64) n"
    using n assms by (simp add: bit_load_le)
  finally show "bit (SWAP64 (load_le bs)) n = bit (load_le (rev bs) :: u64) n" .
qed

lemma unat_uint_8be_to_64:
  assumes "length data = sz" and "sz \<le> 8"
  shows "unat (uint_8be_to_64 data sz) = be_nat data"
  using assms
  by (simp add: uint_8be_to_64_def SWAP64_load_le unat_load_le be_nat_def le_nat_append_zeros)

lemma uint_64_to_8be_store:
  assumes "sz \<le> 8"
  shows "uint_64_to_8be num sz = rev (store_le sz num)"
proof -
  have "SWAP64 num = load_le (rev (store_le 8 num))"
    using SWAP64_load_le [of "store_le 8 num"] by (simp add: load_store_le)
  then have "store_le 8 (SWAP64 num) = rev (store_le 8 num)"
    by (simp add: store_load_le)
  moreover have "take sz (store_le 8 num) = store_le sz num"
    using assms by (simp add: store_le_def take_map)
  ultimately show ?thesis
    using assms by (simp add: uint_64_to_8be_def rev_take [symmetric] take_rev drop_rev)
qed

lemma uint_64_to_8be_inverse:
  assumes "length bs \<le> 8"
  shows "uint_64_to_8be (of_nat (be_nat bs)) (length bs) = bs"
proof -
  have "be_nat bs < 2 ^ (8 * length bs)"
    using be_nat_bound [of bs] by (simp add: pow_256)
  also have "\<dots> \<le> 2 ^ 64" using assms by (intro power_increasing) auto
  finally have "(of_nat (be_nat bs) :: u64) = load_le (rev bs)"
    using assms by (intro word_eqI_unat) (simp add: unat_load_le be_nat_def unat_of_nat_u64)
  then show ?thesis
    using assms by (simp add: uint_64_to_8be_store store_load_le)
qed

lemma be_nat_uint_64_to_8be:
  assumes "sz \<le> 8" and "unat num < 256 ^ sz"
  shows "be_nat (uint_64_to_8be num sz) = unat num"
  using assms by (simp add: uint_64_to_8be_store be_nat_def le_nat_store_le)

section \<open>Base-58 digits\<close>

fun digits58 :: "nat \<Rightarrow> nat \<Rightarrow> nat list" where
  "digits58 0 n = []"
| "digits58 (Suc k) n = digits58 k (n div 58) @ [n mod 58]"

text \<open>The value of a digit string, least significant digit first.\<close>

fun val58 :: "nat list \<Rightarrow> nat" where
  "val58 [] = 0"
| "val58 (d # ds) = d + 58 * val58 ds"

lemma length_digits58 [simp]: "length (digits58 k n) = k"
  by (induction k arbitrary: n) simp_all

lemma digits58_lt: "d \<in> set (digits58 k n) \<Longrightarrow> d < 58"
  by (induction k arbitrary: n) auto

lemma digits58_zero: "digits58 k 0 = replicate k 0"
  by (induction k) (simp_all add: replicate_append_same)

lemma val58_digits58: "val58 (rev (digits58 k n)) = n mod 58 ^ k"
  by (induction k arbitrary: n) (simp_all add: mod_mult2_eq)

lemma digits58_val58:
  "\<forall>d \<in> set ds. d < 58 \<Longrightarrow> digits58 (length ds) (val58 (rev ds)) = ds"
proof (induction ds rule: rev_induct)
  case (snoc d ds)
  then show ?case by simp
qed simp

lemma val58_bound: "\<forall>d \<in> set ds. d < 58 \<Longrightarrow> val58 ds < 58 ^ length ds"
proof (induction ds)
  case (Cons d ds)
  then have "d < 58" "val58 ds + 1 \<le> 58 ^ length ds" by auto
  then have "58 * (val58 ds + 1) \<le> 58 * 58 ^ length ds" by (intro mult_le_mono2)
  with \<open>d < 58\<close> show ?case by simp
qed simp

lemma unat_58 [simp]: "unat (of_nat alphabet_size :: u64) = 58"
  by (simp add: alphabet_size_58)

lemma alphabet_0: "alphabet ! 0 = 49"
  by (simp add: alphabet_list)

lemma replicate_snoc: "replicate (Suc k) x = replicate k x @ [x]"
  by (simp add: replicate_append_same)

lemma encode_block_loop_digits:
  assumes "unat num < 58 ^ k"
  shows "encode_block_loop num (int k - 1) (replicate k (alphabet ! 0) @ ts) =
     Some (map (\<lambda>d. alphabet ! d) (digits58 k (unat num)) @ ts)"
  using assms
proof (induction k arbitrary: num ts)
  case 0
  then show ?case by (subst encode_block_loop.simps) (simp add: word_less_nat_alt)
next
  case (Suc k)
  show ?case
  proof (cases "0 < num")
    case True
    have "unat (num div of_nat alphabet_size) < 58 ^ k"
      using Suc.prems by (simp add: unat_div less_mult_imp_div_less mult.commute)
    moreover have "(replicate (Suc k) (alphabet ! 0) @ ts)[k := x] = replicate k (alphabet ! 0) @ x # ts" for x
      by (simp add: list_update_append replicate_snoc del: replicate_Suc)
    ultimately show ?thesis
      using Suc.IH [of "num div of_nat alphabet_size" "alphabet ! (unat num mod 58) # ts"] True
      by (subst encode_block_loop.simps) (simp add: unat_div unat_mod del: replicate_Suc)
  next
    case False
    then have "num = 0" by (simp add: word_gt_0)
    then show ?thesis
      by (subst encode_block_loop.simps) (simp add: digits58_zero del: replicate_Suc digits58.simps)
  qed
qed

lemma unat_58_pow:
  assumes "j \<le> 10"
  shows "unat (58 ^ j :: u64) = 58 ^ j"
proof -
  have "(58::nat) ^ j \<le> 58 ^ 10" using assms by (intro power_increasing) auto
  then have "unat (of_nat (58 ^ j) :: u64) = 58 ^ j" by (intro unat_of_nat_u64) simp
  then show ?thesis by simp
qed

text \<open>One step of the loop: the checks of the code reject exactly the sums of \<open>2 ^ 64\<close> and more.\<close>

lemma decode_step_overflow:
  fixes acc order digit :: u64
  assumes "mul128 order digit = (lo, hi)"
  shows "(acc + lo < acc \<or> 0 \<noteq> hi) \<longleftrightarrow> 2 ^ 64 \<le> unat acc + unat order * unat digit"
    and "unat acc + unat order * unat digit < 2 ^ 64 \<Longrightarrow>
         unat (acc + lo) = unat acc + unat order * unat digit"
proof -
  have p: "unat hi * 2 ^ 64 + unat lo = unat order * unat digit"
    using mul128_correct [of order digit] by (simp add: assms)
  show "unat acc + unat order * unat digit < 2 ^ 64 \<Longrightarrow>
         unat (acc + lo) = unat acc + unat order * unat digit"
  proof -
    assume a: "unat acc + unat order * unat digit < 2 ^ 64"
    with p have "unat hi * 2 ^ 64 < 1 * 2 ^ 64" by linarith
    then have "unat hi = 0" by simp
    with p a show ?thesis by (simp add: unat_add_wrap)
  qed
  show "(acc + lo < acc \<or> 0 \<noteq> hi) \<longleftrightarrow> 2 ^ 64 \<le> unat acc + unat order * unat digit"
  proof (cases "hi = 0")
    case True
    with p have "unat lo = unat order * unat digit" by simp
    moreover have "acc + lo < acc \<longleftrightarrow> 2 ^ 64 \<le> unat acc + unat lo"
      using add_carry [of acc lo] by auto
    ultimately show ?thesis using True by simp
  next
    case False
    then have "1 \<le> unat hi" by (simp add: unat_gt_0 Suc_le_eq)
    then have "1 * 2 ^ 64 \<le> unat hi * 2 ^ 64" by (rule mult_le_mono1)
    with p False show ?thesis by auto
  qed
qed

lemma decode_block_loop_value:
  assumes "j + length cs \<le> 11" and "order = 58 ^ j"
  shows "decode_block_loop cs acc order =
     (if (\<forall>c \<in> set cs. 0 \<le> reverse_alphabet c) \<and>
         unat acc + 58 ^ j * val58 (map (nat \<circ> reverse_alphabet) cs) < 2 ^ 64
      then Some (of_nat (unat acc + 58 ^ j * val58 (map (nat \<circ> reverse_alphabet) cs)))
      else None)"
  using assms
proof (induction cs arbitrary: j acc order)
  case Nil
  then show ?case by (simp add: unat_bounds unat_inv)
next
  case (Cons c cs)
  show ?case
  proof (cases "0 \<le> reverse_alphabet c")
    case True
    define d where "d = nat (reverse_alphabet c)"
    have d: "d < 58" using reverse_alphabet_inverse(1) [OF True] by (simp add: d_def)
    have du: "unat (of_int (reverse_alphabet c) :: u64) = d"
    proof -
      have "(of_int (reverse_alphabet c) :: u64) = of_nat d" using True by (simp add: d_def)
      then show ?thesis using d by (simp add: unat_of_nat_u64)
    qed
    have ord: "unat order = 58 ^ j" using Cons.prems by (simp add: unat_58_pow)
    obtain lo hi where m: "mul128 order (of_int (reverse_alphabet c)) = (lo, hi)" by force
    note step = decode_step_overflow [OF m, of acc, unfolded du ord]
    define V where "V = val58 (map (nat \<circ> reverse_alphabet) cs)"
    have sum: "unat acc + 58 ^ j * (d + 58 * V) = unat acc + 58 ^ j * d + 58 ^ Suc j * V"
      by (simp add: algebra_simps)
    have val: "val58 (map (nat \<circ> reverse_alphabet) (c # cs)) = d + 58 * V"
      by (simp add: d_def V_def)
    show ?thesis
    proof (cases "unat acc + 58 ^ j * d < 2 ^ 64")
      case True
      then have "decode_block_loop (c # cs) acc order =
          decode_block_loop cs (acc + lo) (order * of_nat alphabet_size)"
        using step(1) \<open>0 \<le> reverse_alphabet c\<close> by (auto simp: m)
      also have "\<dots> = (if (\<forall>c \<in> set cs. 0 \<le> reverse_alphabet c) \<and>
          unat (acc + lo) + 58 ^ Suc j * V < 2 ^ 64
          then Some (of_nat (unat (acc + lo) + 58 ^ Suc j * V)) else None)"
        unfolding V_def using Cons.prems
        by (intro Cons.IH) (auto simp: alphabet_size_58)
      finally show ?thesis
        unfolding val sum step(2) [OF True] using \<open>0 \<le> reverse_alphabet c\<close> by simp
    next
      case False
      then have "decode_block_loop (c # cs) acc order = None"
        using step(1) \<open>0 \<le> reverse_alphabet c\<close> by (auto simp: m)
      moreover have "\<not> unat acc + 58 ^ j * (d + 58 * V) < 2 ^ 64"
        using False unfolding sum by linarith
      ultimately show ?thesis by (simp only: val) simp
    qed
  next
    case False
    then show ?thesis by auto
  qed
qed

section \<open>Blocks\<close>

lemma decoded_block_sizes_list [code]:
  "decoded_block_sizes_data = [0, -1, 1, 2, -1, 3, 4, 5, -1, 6, 7, 8]"
  by (simp add: decoded_block_sizes_data_def encoded_block_sizes_def full_block_size_def
      upt_conv_Cons numeral_eq_Suc del: upt_Suc)

lemma block_sizes [simp]: "full_block_size = 8" "full_encoded_block_size = 11"
  by (simp_all add: full_block_size_def full_encoded_block_size_def encoded_block_sizes_def)

lemma encoded_block_sizes_fit:
  assumes "0 < n" "n \<le> 8"
  shows "256 ^ n \<le> (58::nat) ^ (encoded_block_sizes ! n)"
    and "decoded_block_sizes (encoded_block_sizes ! n) = int n"
    and "encoded_block_sizes ! n \<le> 11" "0 < encoded_block_sizes ! n"
proof -
  have "n = 1 \<or> n = 2 \<or> n = 3 \<or> n = 4 \<or> n = 5 \<or> n = 6 \<or> n = 7 \<or> n = 8" using assms by auto
  then show "256 ^ n \<le> (58::nat) ^ (encoded_block_sizes ! n)"
    "decoded_block_sizes (encoded_block_sizes ! n) = int n"
    "encoded_block_sizes ! n \<le> 11" "0 < encoded_block_sizes ! n"
    by (elim disjE; simp add: encoded_block_sizes_def decoded_block_sizes_def decoded_block_sizes_list)+
qed

lemma le_11_cases:
  "m \<le> (11::nat) \<Longrightarrow> m = 0 \<or> m = 1 \<or> m = 2 \<or> m = 3 \<or> m = 4 \<or> m = 5 \<or> m = 6 \<or> m = 7 \<or>
     m = 8 \<or> m = 9 \<or> m = 10 \<or> m = 11"
  by arith

lemma decoded_block_sizes_inverse:
  assumes "m \<le> 11" and "0 < decoded_block_sizes m"
  shows "nat (decoded_block_sizes m) \<le> 8"
    and "encoded_block_sizes ! nat (decoded_block_sizes m) = m"
  using le_11_cases [OF assms(1)] assms(2)
  by (elim disjE; simp add: decoded_block_sizes_def decoded_block_sizes_list encoded_block_sizes_def)+

text \<open>Encoding one block into a result that holds the zero digit, as \<open>encode\<close> does.\<close>

definition encode_one :: "bytes \<Rightarrow> bytes option" where
  "encode_one block = encode_block block (length block)
     (replicate (encoded_block_sizes ! length block) (alphabet ! 0))"

lemma encode_one_digits:
  assumes "0 < length b" "length b \<le> 8"
  shows "encode_one b =
    Some (map (\<lambda>d. alphabet ! d) (digits58 (encoded_block_sizes ! length b) (be_nat b)))"
proof -
  have "be_nat b < 58 ^ (encoded_block_sizes ! length b)"
    using be_nat_bound [of b] encoded_block_sizes_fit(1) [OF assms] by linarith
  then show ?thesis
    using encode_block_loop_digits [of "uint_8be_to_64 b (length b)" "encoded_block_sizes ! length b" "[]"] assms
    by (simp add: encode_one_def encode_block_def unat_uint_8be_to_64)
qed

lemma decode_block_value:
  assumes "length e = m" "m \<le> 11" "0 < decoded_block_sizes m"
  defines "n \<equiv> nat (decoded_block_sizes m)"
  defines "v \<equiv> val58 (map (nat \<circ> reverse_alphabet) (rev e))"
  shows "decode_block e m = (if (\<forall>c \<in> set e. 0 \<le> reverse_alphabet c) \<and> v < 256 ^ n
      then Some (uint_64_to_8be (of_nat v) n) else None)"
proof -
  have n: "n \<le> 8" using decoded_block_sizes_inverse assms by simp
  have le: "(256::nat) ^ n \<le> 2 ^ 64" using power_increasing [of n 8 "256::nat"] n by simp
  have loop: "decode_block_loop (rev e) 0 1 =
      (if (\<forall>c \<in> set e. 0 \<le> reverse_alphabet c) \<and> v < 2 ^ 64 then Some (of_nat v) else None)"
    using decode_block_loop_value [of 0 "rev e" 1 0] assms by (simp add: v_def)
  have guard: "(n < full_block_size \<and> push_bit (8 * n) 1 \<le> (of_nat v :: u64)) \<longleftrightarrow> 256 ^ n \<le> v"
    if "v < 2 ^ 64"
  proof (cases "n = 8")
    case True
    with that show ?thesis by simp
  next
    case False
    have "unat (push_bit (8 * n) 1 :: u64) = 256 ^ n"
      using False n power_strict_increasing [of "8 * n" 64 "2::nat"]
      by (subst unat_shl) (simp add: pow_256)
    then show ?thesis
      using False n that by (simp add: word_le_nat_alt unat_of_nat_u64)
  qed
  show ?thesis
    using assms(1,3) loop guard le
    by (auto simp: decode_block_def Let_def n_def [symmetric] split: option.splits)
qed

theorem decode_encode_block:
  assumes "0 < length b" "length b \<le> 8" and "encode_one b = Some e"
  shows "length e = encoded_block_sizes ! length b" "decode_block e (length e) = Some b"
proof -
  show len: "length e = encoded_block_sizes ! length b"
    using assms(3) encode_one_digits [OF assms(1,2)] by auto
  define k where "k = encoded_block_sizes ! length b"
  have e: "e = map (\<lambda>d. alphabet ! d) (digits58 k (be_nat b))"
    using assms(3) encode_one_digits [OF assms(1,2)] by (simp add: k_def)
  have inv: "reverse_alphabet (alphabet ! d) = int d" if "d \<in> set (digits58 k (be_nat b))" for d
    using digits58_lt [OF that] by (rule reverse_alphabet_nth)
  have "map (nat \<circ> reverse_alphabet) (rev e) = rev (digits58 k (be_nat b))"
    unfolding e rev_map map_map by (rule map_idI) (simp add: inv)
  then have "val58 (map (nat \<circ> reverse_alphabet) (rev e)) = be_nat b mod 58 ^ k"
    by (simp only: val58_digits58)
  also have "\<dots> = be_nat b"
    using be_nat_bound [of b] encoded_block_sizes_fit(1) [OF assms(1,2)] by (simp add: k_def)
  finally have val: "val58 (map (nat \<circ> reverse_alphabet) (rev e)) = be_nat b" .
  have "\<forall>c \<in> set e. 0 \<le> reverse_alphabet c" by (auto simp: e inv)
  then show "decode_block e (length e) = Some b"
    using decode_block_value [of e "length e"] encoded_block_sizes_fit [OF assms(1,2)] assms(1,2)
      be_nat_bound [of b] uint_64_to_8be_inverse [OF assms(2)] len
    by (simp add: val)
qed

theorem encode_decode_block:
  assumes "length e \<le> 11" and "decode_block e (length e) = Some b"
  shows "0 < length b" "length b \<le> 8" "length e = encoded_block_sizes ! length b"
    "encode_one b = Some e"
proof -
  define n where "n = nat (decoded_block_sizes (length e))"
  define ds where "ds = map (nat \<circ> reverse_alphabet) e"
  have pos: "0 < decoded_block_sizes (length e)"
    using assms(2) by (auto simp: decode_block_def Let_def split: if_splits)
  note dec = decode_block_value [OF refl assms(1) pos, folded n_def]
  have valid: "\<forall>c \<in> set e. 0 \<le> reverse_alphabet c" and v: "val58 (rev ds) < 256 ^ n"
    and b: "b = uint_64_to_8be (of_nat (val58 (rev ds))) n"
    using dec assms(2) by (auto simp: ds_def rev_map split: if_splits)
  have n: "0 < n" "n \<le> 8" "length e = encoded_block_sizes ! n"
    using decoded_block_sizes_inverse [OF assms(1) pos] pos by (auto simp: n_def)
  then show len: "0 < length b" "length b \<le> 8" "length e = encoded_block_sizes ! length b"
    by (simp_all add: b uint_64_to_8be_store)
  have "(256::nat) ^ n \<le> 2 ^ 64" using power_increasing [of n 8 "256::nat"] n by simp
  then have "unat (of_nat (val58 (rev ds)) :: u64) = val58 (rev ds)"
    using v by (simp add: unat_of_nat_u64)
  then have "be_nat b = val58 (rev ds)"
    using v n by (simp add: b be_nat_uint_64_to_8be)
  moreover have "digits58 (length ds) (val58 (rev ds)) = ds"
    using valid reverse_alphabet_inverse(1) by (intro digits58_val58) (force simp: ds_def)
  moreover have "map (\<lambda>d. alphabet ! d) ds = e"
    unfolding ds_def map_map using valid reverse_alphabet_inverse(2) by (intro map_idI) auto
  ultimately show "encode_one b = Some e"
    using encode_one_digits [OF len(1,2)] len(3) by (simp add: ds_def)
qed

section \<open>Strings of blocks\<close>

text \<open>
  What a pair of block routines must promise for the loops over whole strings to invert each other:
  \<open>g\<close> inverts \<open>f\<close> on the blocks of one to \<open>n\<close> bytes, and full blocks correspond to full blocks.
\<close>

locale block_inverse =
  fixes f g :: "bytes \<Rightarrow> bytes option" and n m :: nat
  assumes n_pos: "0 < n" and m_pos: "0 < m"
    and inverse: "0 < length b \<Longrightarrow> length b \<le> n \<Longrightarrow> f b = Some e \<Longrightarrow> g e = Some b"
    and sizes: "0 < length b \<Longrightarrow> length b \<le> n \<Longrightarrow> f b = Some e \<Longrightarrow>
      0 < length e \<and> length e \<le> m \<and> (length e = m \<longleftrightarrow> length b = n)"
begin

lemma for_blocks_inverse:
  assumes "for_blocks f n (length d div n) d = Some s"
  shows "for_blocks g m (length s div m) s = Some d"
  using assms
proof (induction "length d div n" arbitrary: d s)
  case 0
  then have "length d < n" using n_pos by (simp add: div_eq_0_iff)
  show ?case
  proof (cases "d = []")
    case False
    then have "f d = Some s" using 0 by simp
    then have "g s = Some d" "length s < m" "0 < length s"
      using inverse [of d s] sizes [of d s] False \<open>length d < n\<close> by auto
    then show ?thesis by simp
  qed (use 0 in simp)
next
  case (Suc k)
  have len: "n \<le> length d" using Suc.hyps(2) n_pos by (metis div_less not_le old.nat.distinct(2))
  then have k: "k = length (drop n d) div n"
    using Suc.hyps(2) n_pos by (simp add: le_div_geq)
  obtain e es where e: "f (take n d) = Some e" and es: "for_blocks f n k (drop n d) = Some es"
    and s: "s = e @ es"
    using Suc.prems by (auto simp flip: Suc.hyps(2) split: option.splits)
  have "g e = Some (take n d)" "length e = m"
    using inverse [of "take n d" e] sizes [of "take n d" e] e len n_pos by auto
  moreover have "for_blocks g m (length es div m) es = Some (drop n d)"
    using Suc.hyps(1) [OF k] es k by simp
  moreover have "length s div m = Suc (length es div m)"
    using m_pos by (simp add: s \<open>length e = m\<close> div_add_self1)
  ultimately show ?case by (simp add: s)
qed

end

text \<open>The routine that encodes is total as well.\<close>

locale block_encoder = block_inverse +
  assumes total: "0 < length b \<Longrightarrow> length b \<le> n \<Longrightarrow> \<exists>e. f b = Some e"
begin

lemma for_blocks_total: "\<exists>s. for_blocks f n (length d div n) d = Some s"
proof (induction "length d div n" arbitrary: d)
  case 0
  then have "length d < n" using n_pos by (simp add: div_eq_0_iff)
  then show ?case using total [of d] by (cases "d = []") auto
next
  case (Suc k)
  have len: "n \<le> length d" using Suc.hyps(2) n_pos by (metis div_less not_le old.nat.distinct(2))
  then have "k = length (drop n d) div n"
    using Suc.hyps(2) n_pos by (simp add: le_div_geq)
  then obtain es where "for_blocks f n k (drop n d) = Some es" using Suc.hyps(1) by blast
  moreover obtain e where "f (take n d) = Some e" using total [of "take n d"] len n_pos by auto
  ultimately show ?case by (simp flip: Suc.hyps(2))
qed

end

lemma encoded_block_sizes_full:
  assumes "0 < n" "n \<le> 8"
  shows "encoded_block_sizes ! n = 11 \<longleftrightarrow> n = 8"
proof -
  have "n \<le> 11" using assms by simp
  from le_11_cases [OF this] show ?thesis
    using assms by (elim disjE; simp add: encoded_block_sizes_def)
qed

interpretation b58_enc: block_encoder encode_one "\<lambda>e. decode_block e (length e)" 8 11
proof
  fix b e :: bytes
  assume b: "0 < length b" "length b \<le> 8"
  show "\<exists>e. encode_one b = Some e" using encode_one_digits [OF b] by simp
  assume e: "encode_one b = Some e"
  show "decode_block e (length e) = Some b" using decode_encode_block(2) [OF b e] .
  show "0 < length e \<and> length e \<le> 11 \<and> (length e = 11 \<longleftrightarrow> length b = 8)"
    using decode_encode_block(1) [OF b e] encoded_block_sizes_fit [OF b] encoded_block_sizes_full [OF b]
    by simp
qed simp_all

interpretation b58_dec: block_inverse "\<lambda>e. decode_block e (length e)" encode_one 11 8
proof
  fix b e :: bytes
  assume e: "0 < length b" "length b \<le> 11" "decode_block b (length b) = Some e"
  note inv = encode_decode_block [OF e(2,3)]
  show "encode_one e = Some b" by (rule inv)
  show "0 < length e \<and> length e \<le> 8 \<and> (length e = 8 \<longleftrightarrow> length b = 11)"
    using inv encoded_block_sizes_full by simp
qed simp_all

lemma for_blocks_last:
  assumes "for_blocks f n (length d div n) d = Some s" "0 < n"
  shows "length d mod n = 0 \<or> (\<exists>b e. length b = length d mod n \<and> f b = Some e)"
  using assms(1)
proof (induction "length d div n" arbitrary: d s)
  case 0
  then have "length d < n" using assms(2) by (simp add: div_eq_0_iff)
  then show ?case using 0 by (cases "d = []") auto
next
  case (Suc k)
  have len: "n \<le> length d" using Suc.hyps(2) assms(2) by (metis div_less not_le old.nat.distinct(2))
  then have k: "k = length (drop n d) div n"
    using Suc.hyps(2) assms(2) by (simp add: le_div_geq)
  obtain es where "for_blocks f n k (drop n d) = Some es"
    using Suc.prems by (auto simp flip: Suc.hyps(2) split: option.splits)
  then show ?case using Suc.hyps(1) [OF k] k len by (simp add: le_mod_geq)
qed

lemma encode_for_blocks: "encode d = for_blocks encode_one 8 (length d div 8) d"
  by (simp add: encode_def encode_one_def [abs_def])

lemma decode_for_blocks:
  "decode s = for_blocks (\<lambda>e. decode_block e (length e)) 11 (length s div 11) s"
proof (cases "decoded_block_sizes (length s mod 11) < 0")
  case True
  have "for_blocks (\<lambda>e. decode_block e (length e)) 11 (length s div 11) s \<noteq> Some d" for d
  proof
    assume "for_blocks (\<lambda>e. decode_block e (length e)) 11 (length s div 11) s = Some d"
    from for_blocks_last [OF this] True show False
      by (auto simp: decode_block_def decoded_block_sizes_def decoded_block_sizes_list)
  qed
  with True show ?thesis
    by (auto simp: decode_def decoded_block_sizes_def decoded_block_sizes_list intro: sym
        dest: option.collapse [THEN sym])
qed (simp add: decode_def)

theorem encode_total: "\<exists>s. encode d = Some s"
  unfolding encode_for_blocks by (rule b58_enc.for_blocks_total)

theorem decode_encode:
  assumes "encode d = Some s" shows "decode s = Some d"
  using b58_enc.for_blocks_inverse assms by (simp add: encode_for_blocks decode_for_blocks)

theorem encode_decode:
  assumes "decode s = Some d" shows "encode d = Some s"
  using b58_dec.for_blocks_inverse assms by (simp add: encode_for_blocks decode_for_blocks)

section \<open>Addresses\<close>

lemma length_write_varint_pos: "0 < length (write_varint i)"
  by (subst write_varint.simps) simp

lemma decode_addr_checked:
  assumes "decode s = Some (body @ take addr_checksum_size (cn_fast_hash body))" "body \<noteq> []"
  shows "decode_addr s =
    (let (rd, tag, rest) = read_varint 64 body
     in if rd \<le> 0 then None else Some (tag, drop (nat rd) body))"
  using assms by (simp add: decode_addr_def addr_checksum_size_def)

theorem decode_encode_addr:
  assumes "encode_addr tag data = Some s"
  shows "decode_addr s = Some (tag, data)"
proof -
  have "decode s = Some ((write_varint tag @ data) @ take addr_checksum_size (cn_fast_hash (write_varint tag @ data)))"
    using assms by (intro decode_encode) (simp add: encode_addr_def Let_def get_varint_data_def)
  from decode_addr_checked [OF this] show ?thesis
    using length_write_varint_pos [of tag] by (simp add: read_write_varint)
qed

text \<open>
  The converse: an accepted string is the encoding of what is returned, unless the payload is a
  truncated variable-length integer, which \<open>read_varint\<close> accepts.
\<close>

theorem encode_decode_addr:
  assumes "decode_addr s = Some (tag, data)"
  shows "encode_addr tag data = Some s \<or>
    (data = [] \<and> (\<exists>body. decode s = Some (body @ take addr_checksum_size (cn_fast_hash body)) \<and>
       (\<forall>b \<in> set body. 128 \<le> unat b)))"
proof -
  obtain ad where ad: "decode s = Some ad" "addr_checksum_size < length ad"
    using assms by (auto simp: decode_addr_def split: option.splits if_splits)
  define body where "body = take (length ad - addr_checksum_size) ad"
  have body: "body @ take addr_checksum_size (cn_fast_hash body) = ad"
    using assms ad by (auto simp: decode_addr_def body_def Let_def split: if_splits)
  have "body \<noteq> []" using ad by (auto simp: body_def)
  obtain rd rest where r: "read_varint 64 body = (rd, tag, rest)" "0 < rd" "data = drop (nat rd) body"
    using assms decode_addr_checked [of s body] ad body \<open>body \<noteq> []\<close>
    by (auto split: prod.splits if_splits)
  from read_varint_canonical [OF r(1)] r(2)
  consider "body = write_varint tag @ rest" "rd = int (length (write_varint tag))"
    | "\<forall>b \<in> set body. 128 \<le> unat b" "rd = int (length body)" by auto
  then show ?thesis
  proof cases
    case 1
    then have "encode_addr tag data = encode ad"
      using r(3) body by (simp add: encode_addr_def get_varint_data_def Let_def)
    then show ?thesis using encode_decode [OF ad(1)] by simp
  next
    case 2
    then show ?thesis using ad body r(3) by auto
  qed
qed

section \<open>Properties\<close>

text \<open>C1: encoding never fails (no digit is written outside its block) and decoding the result
  gives the data back; conversely whatever decodes is the encoding of what it decodes to, so
  every byte string has exactly one accepted spelling.\<close>

theorem base58_bijection:
  "(\<exists>s. encode d = Some s) \<and> (decode s = Some d \<longleftrightarrow> encode d = Some s)"
  using encode_total decode_encode encode_decode by blast

text \<open>C2: decoding an encoded address returns the tag and the payload it was made from, and
  encoding an address never fails.\<close>

theorem base58_addr_roundtrip:
  "\<exists>s. encode_addr tag data = Some s \<and> decode_addr s = Some (tag, data)"
proof -
  obtain s where "encode_addr tag data = Some s"
    using encode_total by (auto simp: encode_addr_def Let_def)
  with decode_encode_addr show ?thesis by blast
qed

end
