(* ===== verification/Difficulty.thy ===== *)
theory Difficulty
  imports Int_Util
begin

text \<open>
  The proof-of-work arithmetic of \<open>cryptonote_basic/difficulty.cpp\<close>: the test that a hash
  meets a difficulty, on 64 bit words with hand-written carries and on wide integers, and the
  difficulty adjustment by the trimmed window (first version) and by the damped window with the
  median of the last solve times (second version). The third version, which computes in floating
  point, is in \<open>Difficulty_LWMA\<close>. \<open>difficulty_type\<close> is a 128 bit word; the wider
  unsigned integers of the multiprecision library are words of their width. An \<open>assert\<close> that
  fails is \<open>None\<close>.
\<close>

type_synonym u256 = "256 word"
type_synonym u512 = "512 word"
type_synonym difficulty_type = u128

section \<open>Checking a hash\<close>

text \<open>The portable \<open>mul\<close>; the result is the pair \<open>(low, high)\<close>.\<close>

definition mul_portable :: "u64 \<Rightarrow> u64 \<Rightarrow> u64 \<times> u64" where
  "mul_portable a b =
     (let aLow = a AND 0xFFFFFFFF;
          aHigh = drop_bit 32 a;
          bLow = b AND 0xFFFFFFFF;
          bHigh = drop_bit 32 b;
          res = aLow * bLow;
          lowRes1 = res AND 0xFFFFFFFF;
          carry = drop_bit 32 res;
          res = aHigh * bLow + carry;
          highResHigh1 = drop_bit 32 res;
          highResLow1 = res AND 0xFFFFFFFF;
          res = aLow * bHigh;
          lowRes2 = res AND 0xFFFFFFFF;
          carry = drop_bit 32 res;
          res = aHigh * bHigh + carry;
          highResHigh2 = drop_bit 32 res;
          highResLow2 = res AND 0xFFFFFFFF;
          r = highResLow1 + lowRes2;
          carry = drop_bit 32 r;
          low = push_bit 32 r OR lowRes1;
          r = highResHigh1 + highResLow2 + carry;
          d3 = r AND 0xFFFFFFFF;
          carry = drop_bit 32 r;
          r = highResHigh2 + carry;
          high = d3 OR push_bit 32 r
      in (low, high))"

text \<open>The version used on x86-64.\<close>

definition mul :: "u64 \<Rightarrow> u64 \<Rightarrow> u64 \<times> u64" where
  "mul a b = mul128 a b"

definition cadd :: "u64 \<Rightarrow> u64 \<Rightarrow> bool" where
  "cadd a b \<longleftrightarrow> a + b < a"

definition cadc :: "u64 \<Rightarrow> u64 \<Rightarrow> bool \<Rightarrow> bool" where
  "cadc a b c \<longleftrightarrow> a + b < a \<or> (c \<and> a + b = - 1)"

definition check_hash_64 :: "hash \<Rightarrow> u64 \<Rightarrow> bool" where
  "check_hash_64 hash difficulty =
     (let (top, high) = mul (word64_at hash 3) difficulty
      in if high \<noteq> 0 then False
         else
           let (low, cur) = mul (word64_at hash 0) difficulty;
               (low, high) = mul (word64_at hash 1) difficulty;
               carry = cadd cur low;
               cur = high;
               (low, high) = mul (word64_at hash 2) difficulty;
               carry = cadc cur low carry;
               carry = cadc high top carry
           in \<not> carry)"

definition max64bit :: difficulty_type where
  "max64bit = 2 ^ 64 - 1"

definition max128bit :: u256 where
  "max128bit = 2 ^ 128 - 1"

definition max256bit :: u512 where
  "max256bit = 2 ^ 256 - 1"

text \<open>With \<open>FORCE_FULL_128_BITS\<close> defined, as the source defines it.\<close>

definition check_hash_128 :: "hash \<Rightarrow> difficulty_type \<Rightarrow> bool" where
  "check_hash_128 hash difficulty =
     (let hashVal = fold (\<lambda>i hashVal. push_bit 64 hashVal OR ucast (word64_at hash (3 - i)))
                      [0..<4] (0 :: u512)
      in hashVal * ucast difficulty \<le> max256bit)"

definition check_hash :: "hash \<Rightarrow> difficulty_type \<Rightarrow> bool" where
  "check_hash hash difficulty =
     (if difficulty \<le> max64bit then check_hash_64 hash (ucast difficulty)
      else check_hash_128 hash difficulty)"

section \<open>The trimmed window\<close>

definition DIFFICULTY_TARGET :: u64 where
  "DIFFICULTY_TARGET = 240"

definition DIFFICULTY_WINDOW :: nat where
  "DIFFICULTY_WINDOW = 720"

definition DIFFICULTY_CUT :: nat where
  "DIFFICULTY_CUT = 60"

definition next_difficulty_64 :: "u64 list \<Rightarrow> u64 list \<Rightarrow> u64 \<Rightarrow> u64 option" where
  "next_difficulty_64 timestamps cumulative_difficulties target_seconds =
     (let (timestamps, cumulative_difficulties) =
            (if DIFFICULTY_WINDOW < length timestamps
             then (resize DIFFICULTY_WINDOW 0 timestamps, resize DIFFICULTY_WINDOW 0 cumulative_difficulties)
             else (timestamps, cumulative_difficulties));
          len = length timestamps
      in if len \<noteq> length cumulative_difficulties then None
         else if len \<le> 1 then Some 1
         else
           let timestamps = sort timestamps;
               (cut_begin, cut_end) =
                 (if len \<le> DIFFICULTY_WINDOW - 2 * DIFFICULTY_CUT then (0, len)
                  else
                    let cut_begin = (len - (DIFFICULTY_WINDOW - 2 * DIFFICULTY_CUT) + 1) div 2
                    in (cut_begin, cut_begin + (DIFFICULTY_WINDOW - 2 * DIFFICULTY_CUT)))
           in if \<not> (cut_begin + 2 \<le> cut_end \<and> cut_end \<le> len) then None
              else
                let time_span = timestamps ! (cut_end - 1) - timestamps ! cut_begin;
                    time_span = (if time_span = 0 then 1 else time_span);
                    total_work = cumulative_difficulties ! (cut_end - 1) - cumulative_difficulties ! cut_begin
                in if \<not> 0 < total_work then None
                   else
                     let (low, high) = mul total_work target_seconds
                     in if high \<noteq> 0 \<or> low + time_span - 1 < low then Some 0
                        else Some ((low + time_span - 1) div time_span))"

definition next_difficulty :: "u64 list \<Rightarrow> difficulty_type list \<Rightarrow> u64 \<Rightarrow> difficulty_type option" where
  "next_difficulty timestamps cumulative_difficulties target_seconds =
     (let (timestamps, cumulative_difficulties) =
            (if DIFFICULTY_WINDOW < length timestamps
             then (resize DIFFICULTY_WINDOW 0 timestamps, resize DIFFICULTY_WINDOW 0 cumulative_difficulties)
             else (timestamps, cumulative_difficulties));
          len = length timestamps
      in if len \<noteq> length cumulative_difficulties then None
         else if len \<le> 1 then Some 1
         else
           let timestamps = sort timestamps;
               (cut_begin, cut_end) =
                 (if len \<le> DIFFICULTY_WINDOW - 2 * DIFFICULTY_CUT then (0, len)
                  else
                    let cut_begin = (len - (DIFFICULTY_WINDOW - 2 * DIFFICULTY_CUT) + 1) div 2
                    in (cut_begin, cut_begin + (DIFFICULTY_WINDOW - 2 * DIFFICULTY_CUT)))
           in if \<not> (cut_begin + 2 \<le> cut_end \<and> cut_end \<le> len) then None
              else
                let time_span = timestamps ! (cut_end - 1) - timestamps ! cut_begin;
                    time_span = (if time_span = 0 then 1 else time_span);
                    total_work = cumulative_difficulties ! (cut_end - 1) - cumulative_difficulties ! cut_begin
                in if \<not> 0 < total_work then None
                   else
                     let res = (ucast total_work * ucast target_seconds + ucast time_span - 1) div (ucast time_span :: u256)
                     in if max128bit < res then Some 0 else Some (ucast res))"

section \<open>The damped window\<close>

definition DIFFICULTY_WINDOW_V2 :: nat where
  "DIFFICULTY_WINDOW_V2 = 17"

definition DIFFICULTY_CUT_V2 :: nat where
  "DIFFICULTY_CUT_V2 = 6"

definition DIFFICULTY_BLOCKS_COUNT_V2 :: nat where
  "DIFFICULTY_BLOCKS_COUNT_V2 = DIFFICULTY_WINDOW_V2 + DIFFICULTY_CUT_V2 * 2"

definition MAX_AVERAGE_TIMESPAN :: u64 where
  "MAX_AVERAGE_TIMESPAN = DIFFICULTY_TARGET * 6"

definition MIN_AVERAGE_TIMESPAN :: u64 where
  "MIN_AVERAGE_TIMESPAN = DIFFICULTY_TARGET div 24"

text \<open>\<open>epee::misc_utils::median\<close> at 64 bit unsigned integers.\<close>

definition median :: "u64 list \<Rightarrow> u64" where
  "median v =
     (if v = [] then 0
      else if length v = 1 then v ! 0
      else
        let n = length v div 2;
            v = sort v
        in if length v mod 2 = 1 then v ! n else (v ! (n - 1) + v ! n) div 2)"

text \<open>The computation of the adjusted time span, which both versions share word for word.\<close>

definition adjusted_timespan :: "u64 list \<Rightarrow> nat \<Rightarrow> nat \<Rightarrow> u64" where
  "adjusted_timespan timestamps cut_begin cut_end =
     (let len = length timestamps;
          total_timespan = timestamps ! (cut_end - 1) - timestamps ! cut_begin;
          total_timespan = (if total_timespan = 0 then 1 else total_timespan);
          timespan_median =
            (if 0 < cut_begin \<and> cut_begin * 2 + 3 \<le> len then
               let time_spans = map (\<lambda>i. let time_span = timestamps ! (i + 1) - timestamps ! i
                                          in if time_span = 0 then 1 else time_span)
                                  [len - cut_begin * 2 - 3..<len - 1]
               in median time_spans
             else 0);
          timespan_length = of_nat (len - cut_begin * 2 - 1);
          total_timespan_median =
            (if 0 < timespan_median then timespan_median * timespan_length
             else total_timespan * 7 div 10);
          adjusted_total_timespan = (total_timespan * 8 + total_timespan_median * 3) div 10;
          adjusted_total_timespan =
            (if MAX_AVERAGE_TIMESPAN * timespan_length < adjusted_total_timespan
             then MAX_AVERAGE_TIMESPAN * timespan_length else adjusted_total_timespan)
      in if adjusted_total_timespan < MIN_AVERAGE_TIMESPAN * timespan_length
         then MIN_AVERAGE_TIMESPAN * timespan_length else adjusted_total_timespan)"

definition next_difficulty_v2_64 :: "u64 list \<Rightarrow> u64 list \<Rightarrow> u64 \<Rightarrow> u64 option" where
  "next_difficulty_v2_64 timestamps cumulative_difficulties target_seconds =
     (let (timestamps, cumulative_difficulties) =
            (if DIFFICULTY_BLOCKS_COUNT_V2 < length timestamps
             then (resize DIFFICULTY_BLOCKS_COUNT_V2 0 timestamps,
                   resize DIFFICULTY_BLOCKS_COUNT_V2 0 cumulative_difficulties)
             else (timestamps, cumulative_difficulties));
          len = length timestamps
      in if len \<noteq> length cumulative_difficulties then None
         else if len \<le> 1 then Some 1
         else
           let timestamps = sort timestamps;
               (cut_begin, cut_end) =
                 (if len \<le> DIFFICULTY_BLOCKS_COUNT_V2 - 2 * DIFFICULTY_CUT_V2 then (0, len)
                  else
                    let cut_begin = (len - (DIFFICULTY_BLOCKS_COUNT_V2 - 2 * DIFFICULTY_CUT_V2) + 1) div 2
                    in (cut_begin, cut_begin + (DIFFICULTY_BLOCKS_COUNT_V2 - 2 * DIFFICULTY_CUT_V2)))
           in if \<not> (cut_begin + 2 \<le> cut_end \<and> cut_end \<le> len) then None
              else
                let adjusted_total_timespan = adjusted_timespan timestamps cut_begin cut_end;
                    total_work = cumulative_difficulties ! (cut_end - 1) - cumulative_difficulties ! cut_begin
                in if \<not> 0 < total_work then None
                   else
                     let (low, high) = mul total_work target_seconds
                     in if high \<noteq> 0 then Some 0
                        else
                          let next_diff = (low + adjusted_total_timespan - 1) div adjusted_total_timespan
                          in Some (if next_diff < 1 then 1 else next_diff))"

definition next_difficulty_v2 :: "u64 list \<Rightarrow> difficulty_type list \<Rightarrow> u64 \<Rightarrow> difficulty_type option" where
  "next_difficulty_v2 timestamps cumulative_difficulties target_seconds =
     (let (timestamps, cumulative_difficulties) =
            (if DIFFICULTY_BLOCKS_COUNT_V2 < length timestamps
             then (resize DIFFICULTY_BLOCKS_COUNT_V2 0 timestamps,
                   resize DIFFICULTY_BLOCKS_COUNT_V2 0 cumulative_difficulties)
             else (timestamps, cumulative_difficulties));
          len = length timestamps
      in if len \<noteq> length cumulative_difficulties then None
         else if len \<le> 1 then Some 1
         else
           let timestamps = sort timestamps;
               (cut_begin, cut_end) =
                 (if len \<le> DIFFICULTY_BLOCKS_COUNT_V2 - 2 * DIFFICULTY_CUT_V2 then (0, len)
                  else
                    let cut_begin = (len - (DIFFICULTY_BLOCKS_COUNT_V2 - 2 * DIFFICULTY_CUT_V2) + 1) div 2
                    in (cut_begin, cut_begin + (DIFFICULTY_BLOCKS_COUNT_V2 - 2 * DIFFICULTY_CUT_V2)))
           in if \<not> (cut_begin + 2 \<le> cut_end \<and> cut_end \<le> len) then None
              else
                let adjusted_total_timespan = adjusted_timespan timestamps cut_begin cut_end;
                    total_work = cumulative_difficulties ! (cut_end - 1) - cumulative_difficulties ! cut_begin
                in if \<not> 0 < total_work then None
                   else
                     let res = (ucast total_work * ucast target_seconds + ucast adjusted_total_timespan - 1)
                               div (ucast adjusted_total_timespan :: u256)
                     in if max128bit < res then Some 0 else Some (ucast res))"

section \<open>Printing a difficulty\<close>

text \<open>The digits in the order the loop pushes them, least significant first.\<close>

function hex_loop :: "difficulty_type \<Rightarrow> string" where
  "hex_loop v =
     (if 0 < v then ''0123456789abcdef'' ! unat (v AND 0xf) # hex_loop (drop_bit 4 v) else [])"
  by auto
termination
proof (relation "measure unat")
  fix v :: difficulty_type
  assume "0 < v"
  then have "0 < unat v" by (simp add: word_less_nat_alt)
  then show "(drop_bit 4 v, v) \<in> measure unat" by (simp add: unat_shr)
qed simp

declare hex_loop.simps [simp del]

definition hex :: "difficulty_type \<Rightarrow> string" where
  "hex v =
     (let s = hex_loop v;
          s = (if s = [] then s @ ''0'' else s)
      in ''0x'' @ rev s)"

section \<open>The two multiplications agree\<close>

lemma and_dword: "unat (w AND 0xFFFFFFFF :: u64) = unat w mod 2 ^ 32"
  using unat_and_mask [of w 32] by (simp add: mask_eq_exp_minus_1)

lemma nat_split_2_64:
  assumes "l < (2::nat) ^ 64" "l' < 2 ^ 64" "h * 2 ^ 64 + l = h' * 2 ^ 64 + l'"
  shows "h = h'" "l = l'"
proof -
  have "(h * 2 ^ 64 + l) div 2 ^ 64 = h" "(h' * 2 ^ 64 + l') div 2 ^ 64 = h'"
    using assms(1,2) by simp_all
  with assms(3) show "h = h'" by simp
  with assms(3) show "l = l'" by simp
qed

lemma product_limbs:
  fixes B :: nat
  assumes "al * bl = c1 * B + x1" "ah * bl + c1 = q2 * B + y2" "al * bh = c3 * B + x3"
    "ah * bh + c3 = q4 * B + y4" "y2 + x3 = q5 * B + y5" "q2 + y4 + q5 = q6 * B + y6"
  shows "(ah * B + al) * (bh * B + bl) = ((q4 + q6) * B + y6) * (B * B) + (y5 * B + x1)"
proof -
  have "(ah * B + al) * (bh * B + bl) = ah * bh * (B * B) + (ah * bl + al * bh) * B + al * bl"
    by (simp add: algebra_simps)
  also have "\<dots> = ah * bh * (B * B) + (ah * bl + c1) * B + al * bh * B + x1"
    by (simp only: assms(1)) (simp add: algebra_simps)
  also have "\<dots> = (ah * bh + c3 + q2) * (B * B) + (y2 + x3) * B + x1"
    by (simp only: assms(2,3)) (simp add: algebra_simps)
  also have "\<dots> = q4 * B * (B * B) + (q2 + y4 + q5) * (B * B) + y5 * B + x1"
    by (simp only: assms(4,5)) (simp add: algebra_simps)
  also have "\<dots> = ((q4 + q6) * B + y6) * (B * B) + (y5 * B + x1)"
    by (simp only: assms(6)) (simp add: algebra_simps)
  finally show ?thesis .
qed

lemma dword_mult_add:
  assumes "unat x < 2 ^ 32" "unat y < 2 ^ 32" "unat z < 2 ^ 32"
  shows "unat (x * y + z :: u64) = unat x * unat y + unat z"
proof -
  have "unat x * unat y \<le> (2 ^ 32 - 1) * (2 ^ 32 - 1)"
    using assms(1,2) by (intro mult_le_mono) auto
  then show ?thesis using assms by (simp add: unat_arith_simps)
qed

lemma unat_or_dwords:
  assumes "unat h < 2 ^ 32" "unat l < 2 ^ 32"
  shows "unat (push_bit 32 h OR l :: u64) = unat h * 2 ^ 32 + unat l"
    and "unat (l OR push_bit 32 h :: u64) = unat h * 2 ^ 32 + unat l"
proof -
  have sh: "unat (push_bit 32 h) = unat h * 2 ^ 32" using assms(1) by (subst unat_shl) simp
  show "unat (push_bit 32 h OR l :: u64) = unat h * 2 ^ 32 + unat l"
    using assms(2) by (subst unat_or_disjoint' [of 32]) (simp_all add: sh)
  then show "unat (l OR push_bit 32 h :: u64) = unat h * 2 ^ 32 + unat l"
    by (simp add: or.commute)
qed

lemma push_bit_dword: "push_bit 32 w = push_bit 32 (w AND 0xFFFFFFFF :: u64)"
proof -
  have "w AND 0xFFFFFFFF = take_bit 32 w" by (simp add: take_bit_eq_mask mask_eq_exp_minus_1)
  then show ?thesis by (auto intro!: bit_word_eqI simp: bit_simps)
qed

lemma dword_div: "unat (drop_bit 32 w :: u64) = unat w div 2 ^ 32" "unat (drop_bit 32 w :: u64) < 2 ^ 32"
  using unat_u64_lt [of w] by (simp_all add: unat_shr less_mult_imp_div_less)

lemma mul_portable_correct:
  "unat (snd (mul_portable a b)) * 2 ^ 64 + unat (fst (mul_portable a b)) = unat a * unat b"
proof -
  define m :: u64 where "m = 0xFFFFFFFF"
  define aL aH bL bH where "aL = a AND m" and "aH = drop_bit 32 a" and "bL = b AND m" and "bH = drop_bit 32 b"
  define w1 where "w1 = aL * bL"
  define w2 where "w2 = aH * bL + drop_bit 32 w1"
  define w3 where "w3 = aL * bH"
  define w4 where "w4 = aH * bH + drop_bit 32 w3"
  define w5 where "w5 = (w2 AND m) + (w3 AND m)"
  define w6 where "w6 = drop_bit 32 w2 + (w4 AND m) + drop_bit 32 w5"
  define w7 where "w7 = drop_bit 32 w4 + drop_bit 32 w6"
  have mul: "mul_portable a b = (push_bit 32 (w5 AND m) OR (w1 AND m), (w6 AND m) OR push_bit 32 w7)"
    unfolding mul_portable_def Let_def m_def [symmetric] aL_def [symmetric] aH_def [symmetric]
      bL_def [symmetric] bH_def [symmetric] w1_def [symmetric] w2_def [symmetric] w3_def [symmetric]
      w4_def [symmetric] w5_def [symmetric] w6_def [symmetric] w7_def [symmetric]
    by (simp only: push_bit_dword [of w5] m_def)
  have mask: "unat (w AND m) = unat w mod 2 ^ 32" "unat (w AND m) < 2 ^ 32" for w
    by (simp_all add: m_def and_dword)
  note small = mask(2) dword_div(2)
  have small': "unat aL < 2 ^ 32" "unat aH < 2 ^ 32" "unat bL < 2 ^ 32" "unat bH < 2 ^ 32"
    by (simp_all only: aL_def aH_def bL_def bH_def small)
  have split: "unat w = unat (drop_bit 32 w) * 2 ^ 32 + unat (w AND m)" for w :: u64
    by (simp add: dword_div(1) mask(1))
  have e1: "unat aL * unat bL = unat (drop_bit 32 w1) * 2 ^ 32 + unat (w1 AND m)"
    using split [of w1] small' by (simp add: w1_def)
  have e2: "unat aH * unat bL + unat (drop_bit 32 w1) = unat (drop_bit 32 w2) * 2 ^ 32 + unat (w2 AND m)"
    using split [of w2] dword_mult_add [OF small'(2,3) small(2) [of w1]] by (simp only: w2_def)
  have e3: "unat aL * unat bH = unat (drop_bit 32 w3) * 2 ^ 32 + unat (w3 AND m)"
    using split [of w3] small' by (simp add: w3_def)
  have e4: "unat aH * unat bH + unat (drop_bit 32 w3) = unat (drop_bit 32 w4) * 2 ^ 32 + unat (w4 AND m)"
    using split [of w4] dword_mult_add [OF small'(2,4) small(2) [of w3]] by (simp only: w4_def)
  have u5: "unat w5 = unat (w2 AND m) + unat (w3 AND m)"
    using small [of w2] small [of w3] unfolding w5_def by (subst unat_add_wrap) simp
  have u6: "unat w6 = unat (drop_bit 32 w2) + unat (w4 AND m) + unat (drop_bit 32 w5)"
    using small [of w2] small [of w4] small [of w5] unfolding w6_def by (simp add: unat_add_wrap)
  have u7: "unat w7 = unat (drop_bit 32 w4) + unat (drop_bit 32 w6)"
    using small [of w4] small [of w6] unfolding w7_def by (subst unat_add_wrap) simp
  have prod: "unat a * unat b = ((unat w7 * 2 ^ 32 + unat (w6 AND m)) * (2 ^ 32 * 2 ^ 32) +
      (unat (w5 AND m) * 2 ^ 32 + unat (w1 AND m)))"
    unfolding u7 split [of a] split [of b] aL_def [symmetric] aH_def [symmetric] bL_def [symmetric] bH_def [symmetric]
    by (rule product_limbs [OF e1 e2 e3 e4 split [of w5, unfolded u5] split [of w6, unfolded u6]])
  have "unat w7 * 2 ^ 96 \<le> unat a * unat b" unfolding prod by simp
  also have "\<dots> < 2 ^ 64 * 2 ^ 64" by (intro mult_strict_mono) (simp_all add: unat_bounds)
  finally have "unat w7 < 2 ^ 32" by simp
  with prod show ?thesis
    unfolding mul fst_conv snd_conv by (simp only: unat_or_dwords small) simp
qed

lemma mul_portable_mul: "mul_portable a b = mul a b"
proof -
  have "unat (snd (mul_portable a b)) = unat (snd (mul a b)) \<and>
      unat (fst (mul_portable a b)) = unat (fst (mul a b))"
    using nat_split_2_64 [of "unat (fst (mul_portable a b))" "unat (fst (mul a b))"
        "unat (snd (mul_portable a b))" "unat (snd (mul a b))"]
      mul_portable_correct [of a b] mul128_correct [of a b] unat_u64_lt
    by (simp add: mul_def)
  then show ?thesis by (simp add: prod_eq_iff word_unat_eq_iff)
qed

section \<open>Checking a hash\<close>

lemma limb_less:
  assumes "u < 2 * (B::nat)"
  shows "u + B * Y < B * Z \<longleftrightarrow> of_bool (B \<le> u) + Y < Z"
proof -
  define k where "k = (of_bool (B \<le> u) :: nat)"
  define r where "r = u - B * k"
  have r: "u = r + B * k" "r < B" using assms by (auto simp: r_def k_def)
  have "u + B * Y = r + B * (k + Y)" using r by (simp add: algebra_simps)
  then have "u + B * Y < B * Z \<longleftrightarrow> r + B * (k + Y) < B * Z" by simp
  also have "\<dots> \<longleftrightarrow> k + Y < Z"
  proof
    assume "r + B * (k + Y) < B * Z"
    then have "B * (k + Y) < B * Z" by linarith
    then show "k + Y < Z" by simp
  next
    assume "k + Y < Z"
    then have "B * Suc (k + Y) \<le> B * Z" by (intro mult_le_mono2) simp
    with r(2) show "r + B * (k + Y) < B * Z" by simp
  qed
  finally show ?thesis by (simp add: k_def)
qed

lemma cadd_carry: "cadd a b \<longleftrightarrow> 2 ^ 64 \<le> unat a + unat b"
  by (simp add: cadd_def add_carry)

lemma cadc_carry: "cadc a b c \<longleftrightarrow> 2 ^ 64 \<le> unat a + unat b + of_bool c"
proof (cases "2 ^ 64 \<le> unat a + unat b")
  case True
  then show ?thesis by (simp add: cadc_def add_carry)
next
  case False
  then have "unat (a + b) = unat a + unat b" by (simp add: unat_add_wrap)
  then have "a + b = - 1 \<longleftrightarrow> unat a + unat b = 2 ^ 64 - 1"
    by (simp add: word_unat_eq_iff unat_minus_one_u64)
  then show ?thesis using False by (auto simp: cadc_def add_carry)
qed

lemma le_nat_words:
  assumes "length h = 32"
  shows "le_nat h = unat (word64_at h 0) + 2 ^ 64 * (unat (word64_at h 1) +
    2 ^ 64 * (unat (word64_at h 2) + 2 ^ 64 * unat (word64_at h 3)))"
proof -
  have at: "le_nat (take 8 (drop (8 * i) h)) = unat (word64_at h i)" for i
    by (simp add: word64_at_def unat_load_le)
  have "h = take 8 (drop (8 * 0) h) @ take 8 (drop (8 * 1) h) @ take 8 (drop (8 * 2) h) @ take 8 (drop (8 * 3) h)"
    using assms append_take_drop_id [of 8 h] append_take_drop_id [of 8 "drop 8 h"]
      append_take_drop_id [of 8 "drop 16 h"] by simp
  then have "le_nat h = le_nat (take 8 (drop (8 * 0) h) @ take 8 (drop (8 * 1) h) @
      take 8 (drop (8 * 2) h) @ take 8 (drop (8 * 3) h))" by simp
  also have "\<dots> = le_nat (take 8 (drop (8 * 0) h)) + 256 ^ 8 * (le_nat (take 8 (drop (8 * 1) h)) +
      256 ^ 8 * (le_nat (take 8 (drop (8 * 2) h)) + 256 ^ 8 * le_nat (take 8 (drop (8 * 3) h))))"
    unfolding le_nat_append using assms by simp
  finally show ?thesis unfolding at by simp
qed

lemma mul_parts:
  obtains lo hi where "mul x y = (lo, hi)" "unat x * unat y = unat lo + 2 ^ 64 * unat hi"
proof -
  obtain lo hi where m: "mul x y = (lo, hi)" by force
  with mul128_correct [of x y] have "unat x * unat y = unat lo + 2 ^ 64 * unat hi"
    by (simp add: mul_def)
  with m that show ?thesis by blast
qed

lemma check_hash_64_spec:
  assumes "length h = 32"
  shows "check_hash_64 h d \<longleftrightarrow> le_nat h * unat d < 2 ^ 256"
proof -
  obtain l0 h0 where m0: "mul (word64_at h 0) d = (l0, h0)" "unat (word64_at h 0) * unat d = unat l0 + 2 ^ 64 * unat h0"
    by (rule mul_parts)
  obtain l1 h1 where m1: "mul (word64_at h 1) d = (l1, h1)" "unat (word64_at h 1) * unat d = unat l1 + 2 ^ 64 * unat h1"
    by (rule mul_parts)
  obtain l2 h2 where m2: "mul (word64_at h 2) d = (l2, h2)" "unat (word64_at h 2) * unat d = unat l2 + 2 ^ 64 * unat h2"
    by (rule mul_parts)
  obtain l3 h3 where m3: "mul (word64_at h 3) d = (l3, h3)" "unat (word64_at h 3) * unat d = unat l3 + 2 ^ 64 * unat h3"
    by (rule mul_parts)
  define B :: nat where "B = 2 ^ 64"
  have lt: "unat (w :: u64) < B" for w using unat_u64_lt [of w] by (simp add: B_def)
  have two: "unat (v :: u64) + unat (w :: u64) + of_bool c < 2 * B" for v w c
    using lt [of v] lt [of w] by (cases c) auto
  have sum: "le_nat h * unat d = unat l0 + B * ((unat h0 + unat l1) + B * ((unat h1 + unat l2) +
      B * ((unat h2 + unat l3) + B * unat h3)))"
  proof -
    have "le_nat h * unat d = unat (word64_at h 0) * unat d + B * (unat (word64_at h 1) * unat d +
        B * (unat (word64_at h 2) * unat d + B * (unat (word64_at h 3) * unat d)))"
      unfolding le_nat_words [OF assms] B_def by (simp only: distrib_right mult.assoc)
    then show ?thesis
      unfolding m0(2) m1(2) m2(2) m3(2) B_def [symmetric] by (simp only: distrib_left add.assoc)
  qed
  define c1 where "c1 \<longleftrightarrow> B \<le> unat h0 + unat l1"
  define c2 where "c2 \<longleftrightarrow> B \<le> unat h1 + unat l2 + of_bool c1"
  define c3 where "c3 \<longleftrightarrow> B \<le> unat h2 + unat l3 + of_bool c2"
  have "le_nat h * unat d < B * (B * (B * B)) \<longleftrightarrow>
     (unat h0 + unat l1) + B * ((unat h1 + unat l2) + B * ((unat h2 + unat l3) + B * unat h3)) < B * (B * B)"
    unfolding sum using limb_less [of "unat l0" B] lt [of l0] by simp
  also have "\<dots> \<longleftrightarrow> (unat h1 + unat l2 + of_bool c1) + B * ((unat h2 + unat l3) + B * unat h3) < B * B"
    using two [of h0 l1 False] by (subst limb_less) (simp_all add: c1_def ac_simps)
  also have "\<dots> \<longleftrightarrow> (unat h2 + unat l3 + of_bool c2) + B * unat h3 < B * 1"
    using two [of h1 l2 c1] by (subst limb_less) (simp_all add: c2_def ac_simps)
  also have "\<dots> \<longleftrightarrow> of_bool c3 + unat h3 < 1"
    using limb_less [of "unat h2 + unat l3 + of_bool c2" B _ 1] two [of h2 l3 c2] by (simp add: c3_def)
  also have "\<dots> \<longleftrightarrow> h3 = 0 \<and> \<not> c3" by (auto simp: unat_eq_0)
  also have "\<dots> \<longleftrightarrow> check_hash_64 h d"
    unfolding check_hash_64_def m0(1) m1(1) m2(1) m3(1) Let_def prod.case cadd_carry cadc_carry
      B_def [symmetric] c1_def [symmetric] c2_def [symmetric] c3_def [symmetric] by simp
  finally show ?thesis by (simp add: B_def)
qed


lemma unat_ucast_wide [simp]:
  "unat (ucast (c :: u64) :: u256) = unat c"
  "unat (ucast (c :: u64) :: u512) = unat c"
  "unat (ucast (e :: u128) :: u256) = unat e"
  "unat (ucast (e :: u128) :: u512) = unat e"
  by (simp_all add: unat_ucast_up)

lemma unat_append_word:
  assumes "unat (acc :: u512) < 2 ^ 192"
  shows "unat (push_bit 64 acc OR ucast (w :: u64)) = unat acc * 2 ^ 64 + unat w"
proof -
  have sh: "unat (push_bit 64 acc) = unat acc * 2 ^ 64" using assms by (subst unat_shl) simp
  then show ?thesis
    using unat_u64_lt [of w] by (subst unat_or_disjoint' [of 64]) (simp_all add: sh)
qed

lemma unat_hashVal:
  assumes "length h = 32"
  shows "unat (fold (\<lambda>i hashVal. push_bit 64 hashVal OR ucast (word64_at h (3 - i))) [0..<4] (0 :: u512)) = le_nat h"
proof -
  define a1 :: u512 where "a1 = push_bit 64 0 OR ucast (word64_at h 3)"
  define a2 :: u512 where "a2 = push_bit 64 a1 OR ucast (word64_at h 2)"
  define a3 :: u512 where "a3 = push_bit 64 a2 OR ucast (word64_at h 1)"
  define a4 :: u512 where "a4 = push_bit 64 a3 OR ucast (word64_at h 0)"
  note lt = unat_u64_lt [of "word64_at h _"]
  have 1: "unat a1 = unat (word64_at h 3)" by (simp add: a1_def)
  have 2: "unat a2 = unat a1 * 2 ^ 64 + unat (word64_at h 2)"
    unfolding a2_def using lt [of 3] by (intro unat_append_word) (simp add: 1)
  have 3: "unat a3 = unat a2 * 2 ^ 64 + unat (word64_at h 1)"
    unfolding a3_def using lt [of 3] lt [of 2] by (intro unat_append_word) (simp add: 1 2)
  have 4: "unat a4 = unat a3 * 2 ^ 64 + unat (word64_at h 0)"
    unfolding a4_def using lt [of 3] lt [of 2] lt [of 1] by (intro unat_append_word) (simp add: 1 2 3)
  have "fold (\<lambda>i hashVal. push_bit 64 hashVal OR ucast (word64_at h (3 - i))) [0..<4] (0 :: u512) = a4"
    by (simp add: a4_def a3_def a2_def a1_def upt_conv_Cons)
  then show ?thesis by (simp add: 4 3 2 1 le_nat_words [OF assms] algebra_simps)
qed

lemma check_hash_128_spec:
  assumes "length h = 32"
  shows "check_hash_128 h d \<longleftrightarrow> le_nat h * unat d < 2 ^ 256"
proof -
  have "le_nat h * unat d < 2 ^ 256 * 2 ^ 128"
    using le_nat_bound [of h] assms unat_u128_lt [of d] by (intro mult_strict_mono) simp_all
  then have "unat (fold (\<lambda>i hashVal. push_bit 64 hashVal OR ucast (word64_at h (3 - i))) [0..<4] (0 :: u512) * ucast d) =
      le_nat h * unat d"
    unfolding unat_mult_wrap unat_hashVal [OF assms] by simp
  moreover have "unat max256bit = 2 ^ 256 - 1" by (simp add: max256bit_def)
  ultimately show ?thesis by (auto simp: check_hash_128_def Let_def word_le_nat_alt)
qed

lemma check_hash_spec:
  assumes "length h = 32"
  shows "check_hash h d \<longleftrightarrow> le_nat h * unat d < 2 ^ 256"
proof (cases "d \<le> max64bit")
  case True
  then have "unat d < 2 ^ 64" by (simp add: word_le_nat_alt max64bit_def)
  then have "unat (ucast d :: u64) = unat d" by (simp add: unat_ucast_wrap)
  with True show ?thesis by (simp add: check_hash_def check_hash_64_spec [OF assms])
qed (simp add: check_hash_def check_hash_128_spec [OF assms])

section \<open>The window that is kept\<close>

definition trim :: "nat \<Rightarrow> nat \<Rightarrow> nat \<Rightarrow> nat \<times> nat" where
  "trim w c len =
     (if len \<le> w - 2 * c then (0, len)
      else let b = (len - (w - 2 * c) + 1) div 2 in (b, b + (w - 2 * c)))"

lemma trim_bounds:
  assumes "2 * c + 3 \<le> w" "2 \<le> len" "trim w c len = (b, e)"
  shows "b + 2 \<le> e" "e \<le> len" "2 * b + 1 < len"
proof -
  define m where "m = w - 2 * c"
  have m: "3 \<le> m" using assms by (simp add: m_def)
  consider "len \<le> m" "b = 0" "e = len" | "m < len" "b = (len - m + 1) div 2" "e = b + m"
    using assms(3) by (auto simp: trim_def m_def Let_def split: if_splits)
  then show "b + 2 \<le> e" "e \<le> len" "2 * b + 1 < len"
    using m assms(2) by (cases; linarith)+
qed

definition ceil_div :: "nat \<Rightarrow> nat \<Rightarrow> nat" where
  "ceil_div a b = (a + b - 1) div b"

lemma sorted_sub_unat:
  fixes xs :: "'a::len word list"
  assumes "sorted xs" "i \<le> j" "j < length xs"
  shows "unat (xs ! j - xs ! i) = unat (xs ! j) - unat (xs ! i)"
  using sorted_nth_mono [OF assms] by (simp add: unat_sub)

lemma strict_sub_unat:
  fixes xs :: "'a::len word list"
  assumes "sorted_wrt (<) xs" "i < j" "j < length xs"
  shows "unat (xs ! j - xs ! i) = unat (xs ! j) - unat (xs ! i)" "unat (xs ! i) < unat (xs ! j)"
  using sorted_wrt_nth_less [OF assms] by (simp_all add: unat_sub less_imp_le flip: word_less_nat_alt)

lemma resize_window:
  assumes "length ts = length cds"
  shows "(if w < length ts then (resize w d ts, resize w d' cds) else (ts, cds)) = (take w ts, take w cds)"
  using assms by (simp add: resize_shorten)

text \<open>The quotient computed in 256 bits is the rounded-up quotient of the naturals.\<close>

lemma wide_quotient:
  fixes work :: u128 and t span :: u64
  assumes "0 < unat span"
  shows "unat ((ucast work * ucast t + ucast span - 1) div (ucast span :: u256)) =
    ceil_div (unat work * unat t) (unat span)"
proof -
  have "unat work * unat t < 2 ^ 128 * 2 ^ 64"
    by (intro mult_strict_mono) (simp_all add: unat_bounds)
  then have lt: "unat work * unat t + unat span < 2 ^ 256" using unat_u64_lt [of span] by simp
  then have 1: "unat (ucast work * ucast t + ucast span :: u256) = unat work * unat t + unat span"
    by (simp add: unat_add_wrap unat_mult_wrap)
  then have "unat (ucast work * ucast t + ucast span - 1 :: u256) = unat work * unat t + unat span - 1"
    using assms by (subst unat_sub) (simp_all add: word_le_nat_alt)
  then show ?thesis by (simp add: ceil_div_def unat_div)
qed

lemma wide_result:
  fixes r :: u256
  shows "(if max128bit < r then Some 0 else Some (ucast r :: u128)) =
    Some (if unat r < 2 ^ 128 then of_nat (unat r) else 0)"
proof -
  have "unat max128bit = 2 ^ 128 - 1" by (simp add: max128bit_def)
  moreover have "(ucast r :: u128) = of_nat (unat r)" by (simp add: of_nat_unat)
  ultimately show ?thesis by (auto simp: word_less_nat_alt)
qed

lemma trim_pair:
  "(if len \<le> w - 2 * c then (0, len)
    else let b = (len - (w - 2 * c) + 1) div 2 in (b, b + (w - 2 * c))) = trim w c len"
  by (simp add: trim_def)

definition span_of :: "u64 list \<Rightarrow> nat \<Rightarrow> nat \<Rightarrow> nat" where
  "span_of ts b e = max 1 (unat (sort ts ! (e - 1)) - unat (sort ts ! b))"

lemma span_word:
  assumes "b < e" "e \<le> length ts"
  shows "unat (let s = sort ts ! (e - 1) - sort ts ! b in if s = 0 then 1 else s) = span_of ts b e"
proof -
  define s where "s = sort ts ! (e - 1) - sort ts ! b"
  have "unat s = unat (sort ts ! (e - 1)) - unat (sort ts ! b)"
    unfolding s_def using assms by (intro sorted_sub_unat) auto
  moreover have "s = 0 \<or> 0 < unat s" by (simp add: unat_gt_0)
  ultimately show ?thesis
    unfolding span_of_def s_def [symmetric] by (auto simp: Let_def)
qed

lemma window_index:
  assumes "2 * c + 3 \<le> w" "length ts = length cds" "2 \<le> length ts" "trim w c (min w (length ts)) = (b, e)"
  shows "b + 2 \<le> e" "e \<le> min w (length ts)" "b < e - 1" "e - 1 < length cds" "e - 1 < w" "b < w"
    "e - 1 < length ts" "b < e" "2 * b + 1 < min w (length ts)"
    "\<not> min (length ts) w \<le> 1"
proof -
  have "2 \<le> min w (length ts)" using assms by auto
  note trim_bounds [OF assms(1) this assms(4)]
  then show "b + 2 \<le> e" "e \<le> min w (length ts)" "b < e - 1" "e - 1 < length cds" "e - 1 < w" "b < w"
    "e - 1 < length ts" "b < e" "2 * b + 1 < min w (length ts)"
    "\<not> min (length ts) w \<le> 1"
    using assms(2) by auto
qed

lemma window_work:
  fixes cds :: "'a::len word list"
  assumes w: "2 * c + 3 \<le> w" "length ts = length cds" "2 \<le> length ts" "trim w c (min w (length ts)) = (b, e)"
    and cds: "sorted_wrt (<) cds"
  shows "unat (take w cds ! (e - 1) - take w cds ! b) = unat (cds ! (e - 1)) - unat (cds ! b)"
    and "unat (cds ! b) < unat (cds ! (e - 1))" "0 < take w cds ! (e - 1) - take w cds ! b"
proof -
  note idx = window_index [OF w]
  have t: "take w cds ! (e - 1) = cds ! (e - 1)" "take w cds ! b = cds ! b" using idx by simp_all
  note strict_sub_unat [OF cds idx(3,4)]
  then show "unat (take w cds ! (e - 1) - take w cds ! b) = unat (cds ! (e - 1)) - unat (cds ! b)"
    "unat (cds ! b) < unat (cds ! (e - 1))" "0 < take w cds ! (e - 1) - take w cds ! b"
    unfolding t by (simp_all add: word_less_nat_alt)
qed

lemmas window_consts = DIFFICULTY_WINDOW_def DIFFICULTY_CUT_def
  DIFFICULTY_BLOCKS_COUNT_V2_def DIFFICULTY_WINDOW_V2_def DIFFICULTY_CUT_V2_def

lemma next_difficulty_value:
  assumes len: "length ts = length cds" "2 \<le> length ts" and be: "trim 720 60 (min 720 (length ts)) = (b, e)"
    and cds: "sorted_wrt (<) cds"
  shows "next_difficulty ts cds T =
    Some (let q = ceil_div ((unat (cds ! (e - 1)) - unat (cds ! b)) * unat T) (span_of (take 720 ts) b e)
          in if q < 2 ^ 128 then of_nat q else 0)"
proof -
  note idx = window_index [OF _ len be] and work = window_work [OF _ len be cds]
  define s where "s = (let s = sort (take 720 ts) ! (e - 1) - sort (take 720 ts) ! b in if s = 0 then 1 else s)"
  have s: "unat s = span_of (take 720 ts) b e" unfolding s_def using idx by (intro span_word) auto
  have s0: "0 < unat s" unfolding s by (simp add: span_of_def)
  define wk where "wk = take 720 cds ! (e - 1) - take 720 cds ! b"
  have "next_difficulty ts cds T = (let res = (ucast wk * ucast T + ucast s - 1) div (ucast s :: u256)
      in if max128bit < res then Some 0 else Some (ucast res))"
    unfolding next_difficulty_def resize_window [OF len(1)] trim_pair s_def wk_def
    using len(1) idx(1,2,10) work(3) be
    by (simp only: Let_def prod.case) (simp add: window_consts min.commute)
  then show ?thesis
    using work(1) by (simp add: wide_result wide_quotient [OF s0, unfolded s] Let_def wk_def)
qed

lemma narrow_sum:
  fixes low s :: u64
  assumes "0 < unat s"
  shows "low + s - 1 < low \<longleftrightarrow> 2 ^ 64 \<le> unat low + unat s - 1"
    and "unat low + unat s - 1 < 2 ^ 64 \<Longrightarrow> unat (low + s - 1) = unat low + unat s - 1"
proof -
  define t where "t = s - 1"
  have t: "unat t = unat s - 1" "low + s - 1 = low + t"
    using assms unfolding t_def by (subst unat_sub) (simp_all add: word_le_nat_alt)
  show "low + s - 1 < low \<longleftrightarrow> 2 ^ 64 \<le> unat low + unat s - 1"
    "unat low + unat s - 1 < 2 ^ 64 \<Longrightarrow> unat (low + s - 1) = unat low + unat s - 1"
    unfolding t(2) using assms by (simp_all add: add_carry unat_add_wrap t(1))
qed

lemma next_difficulty_64_value:
  assumes len: "length ts = length cds" "2 \<le> length ts" and be: "trim 720 60 (min 720 (length ts)) = (b, e)"
    and cds: "sorted_wrt (<) cds"
  shows "next_difficulty_64 ts cds T =
    Some (let n = (unat (cds ! (e - 1)) - unat (cds ! b)) * unat T; s = span_of (take 720 ts) b e
          in if n + s - 1 < 2 ^ 64 then of_nat (ceil_div n s) else 0)"
proof -
  note idx = window_index [OF _ len be] and work = window_work [OF _ len be cds]
  define s where "s = (let s = sort (take 720 ts) ! (e - 1) - sort (take 720 ts) ! b in if s = 0 then 1 else s)"
  have s: "unat s = span_of (take 720 ts) b e" unfolding s_def using idx by (intro span_word) auto
  have s0: "0 < unat s" unfolding s by (simp add: span_of_def)
  define wk where "wk = take 720 cds ! (e - 1) - take 720 cds ! b"
  have wk: "unat wk = unat (cds ! (e - 1)) - unat (cds ! b)" using work(1) by (simp add: wk_def)
  obtain lo hi where m: "mul wk T = (lo, hi)" "unat wk * unat T = unat lo + 2 ^ 64 * unat hi"
    by (rule mul_parts)
  have "next_difficulty_64 ts cds T = (if hi \<noteq> 0 \<or> lo + s - 1 < lo then Some 0 else Some ((lo + s - 1) div s))"
    unfolding next_difficulty_64_def resize_window [OF len(1)] trim_pair
    using len(1) idx(1,2,10) work(3) be m(1)
    by (simp only: Let_def prod.case) (simp add: window_consts min.commute wk_def s_def Let_def)
  moreover have hi: "2 ^ 64 \<le> unat wk * unat T" if "hi \<noteq> 0"
  proof -
    have "1 \<le> unat hi" using that by (simp add: unat_gt_0 Suc_le_eq)
    then have "2 ^ 64 * 1 \<le> 2 ^ 64 * unat hi" by (rule mult_le_mono2)
    then show ?thesis using m(2) by simp
  qed
  have "hi \<noteq> 0 \<or> lo + s - 1 < lo \<longleftrightarrow> \<not> unat wk * unat T + unat s - 1 < 2 ^ 64"
    using narrow_sum(1) [OF s0, of lo] m(2) hi s0 by (cases "hi = 0") auto
  moreover have "(lo + s - 1) div s = of_nat (ceil_div (unat wk * unat T) (unat s))"
    if "unat wk * unat T + unat s - 1 < 2 ^ 64"
  proof -
    have "hi = 0" using hi that s0 by (cases "hi = 0") auto
    then have "unat (lo + s - 1) = unat wk * unat T + unat s - 1"
      using narrow_sum(2) [OF s0, of lo] m(2) that by simp
    then have "unat ((lo + s - 1) div s) = ceil_div (unat wk * unat T) (unat s)"
      by (simp add: unat_div ceil_div_def)
    then show ?thesis by (metis unat_inv)
  qed
  ultimately show ?thesis by (simp add: Let_def wk s)
qed

lemma ceil_div_le_sum: "0 < b \<Longrightarrow> ceil_div a b \<le> a + b - 1"
  by (simp add: ceil_div_def)

lemma next_difficulty_agree:
  assumes len: "length ts = length cds" "2 \<le> length ts" and cds: "sorted_wrt (<) cds"
    and r: "next_difficulty_64 ts cds T = Some r" "r \<noteq> 0"
  shows "next_difficulty ts (map ucast cds) T = Some (ucast r)"
proof -
  obtain b e where be: "trim 720 60 (min 720 (length ts)) = (b, e)" by force
  note idx = window_index [OF _ len be]
  define n where "n = (unat (cds ! (e - 1)) - unat (cds ! b)) * unat T"
  define s where "s = span_of (take 720 ts) b e"
  have s: "0 < s" by (simp add: s_def span_of_def)
  have n: "n + s - 1 < 2 ^ 64" and rn: "r = of_nat (ceil_div n s)"
    using next_difficulty_64_value [OF len be cds, of T] r
    by (auto simp: n_def s_def Let_def split: if_splits)
  have q: "ceil_div n s < 2 ^ 64" using ceil_div_le_sum [OF s, of n] n by linarith
  then have "unat r = ceil_div n s" unfolding rn by (rule unat_of_nat_u64)
  then have ur: "(ucast r :: u128) = of_nat (ceil_div n s)" by (metis of_nat_unat)
  have "sorted_wrt (<) (map ucast cds :: u128 list)"
    using cds by (auto simp: sorted_wrt_map word_less_nat_alt elim: sorted_wrt_mono_rel [rotated])
  from next_difficulty_value [OF _ len(2) be this, of T] show ?thesis
    using len(1) idx q ur by (simp add: n_def s_def Let_def)
qed

section \<open>The damped window\<close>

lemma adjusted_timespan_bounds:
  assumes "2 * b + 1 < length ts" "length ts \<le> 29"
  defines "L \<equiv> length ts - 2 * b - 1"
  shows "10 * L \<le> unat (adjusted_timespan ts b e)" "unat (adjusted_timespan ts b e) \<le> 1440 * L"
proof -
  have L: "1 \<le> L" "L \<le> 28" using assms by auto
  define l :: u64 where "l = of_nat (length ts - b * 2 - 1)"
  have ul: "unat l = L" unfolding l_def L_def mult.commute [of b 2]
    using L by (intro unat_of_nat_u64) (simp add: L_def)
  have mx: "unat (MAX_AVERAGE_TIMESPAN * l) = 1440 * L" and mn: "unat (MIN_AVERAGE_TIMESPAN * l) = 10 * L"
    using L by (simp_all add: MAX_AVERAGE_TIMESPAN_def MIN_AVERAGE_TIMESPAN_def DIFFICULTY_TARGET_def
        unat_mult_wrap ul)
  obtain a where "adjusted_timespan ts b e =
      (let a = (if MAX_AVERAGE_TIMESPAN * l < a then MAX_AVERAGE_TIMESPAN * l else a)
       in if a < MIN_AVERAGE_TIMESPAN * l then MIN_AVERAGE_TIMESPAN * l else a)"
    unfolding adjusted_timespan_def l_def [symmetric] Let_def by blast
  then show "10 * L \<le> unat (adjusted_timespan ts b e)" "unat (adjusted_timespan ts b e) \<le> 1440 * L"
    using mx mn L by (auto simp: Let_def word_less_nat_alt)
qed

lemma next_difficulty_v2_value:
  assumes len: "length ts = length cds" "2 \<le> length ts" and be: "trim 29 6 (min 29 (length ts)) = (b, e)"
    and cds: "sorted_wrt (<) cds"
  shows "next_difficulty_v2 ts cds T =
    Some (let q = ceil_div ((unat (cds ! (e - 1)) - unat (cds ! b)) * unat T)
                    (unat (adjusted_timespan (sort (take 29 ts)) b e))
          in if q < 2 ^ 128 then of_nat q else 0)"
proof -
  note idx = window_index [OF _ len be] and work = window_work [OF _ len be cds]
  define s where "s = adjusted_timespan (sort (take 29 ts)) b e"
  have "10 * (min 29 (length ts) - 2 * b - 1) \<le> unat s"
    using adjusted_timespan_bounds(1) [of b "sort (take 29 ts)" e] idx(9)
    by (simp add: min.commute s_def)
  then have s0: "0 < unat s" using idx(9) by linarith
  define wk where "wk = take 29 cds ! (e - 1) - take 29 cds ! b"
  have "next_difficulty_v2 ts cds T = (let res = (ucast wk * ucast T + ucast s - 1) div (ucast s :: u256)
      in if max128bit < res then Some 0 else Some (ucast res))"
    unfolding next_difficulty_v2_def resize_window [OF len(1)] trim_pair s_def wk_def
    using len(1) idx(1,2,10) work(3) be
    by (simp only: Let_def prod.case) (simp add: window_consts min.commute)
  then show ?thesis
    using work(1) by (simp add: wide_result wide_quotient [OF s0, unfolded s_def] Let_def wk_def s_def)
qed

lemma ceil_div_Suc: "0 < a \<Longrightarrow> 0 < b \<Longrightarrow> ceil_div a b = (a - 1) div b + 1"
  by (metis ceil_div_def Nat.add_diff_assoc2 One_nat_def Suc_leI div_add_self2 add.commute gr_implies_not0)

lemma ceil_div_anti: "0 < b \<Longrightarrow> b \<le> c \<Longrightarrow> ceil_div a c \<le> ceil_div a b"
proof (cases "a = 0")
  case False
  assume "0 < b" "b \<le> c"
  then have "(a - 1) div c \<le> (a - 1) div b" by (intro div_le_mono2) auto
  with False \<open>0 < b\<close> \<open>b \<le> c\<close> show ?thesis by (simp add: ceil_div_Suc)
qed (simp add: ceil_div_def)

lemma next_difficulty_v2_bounds:
  fixes T :: u64
  assumes len: "length ts = length cds" "2 \<le> length ts" and be: "trim 29 6 (min 29 (length ts)) = (b, e)"
    and cds: "sorted_wrt (<) cds"
  defines "L \<equiv> min 29 (length ts) - 2 * b - 1"
  defines "n \<equiv> (unat (cds ! (e - 1)) - unat (cds ! b)) * unat T"
  assumes fit: "ceil_div n (10 * L) < 2 ^ 128"
  shows "\<exists>r. next_difficulty_v2 ts cds T = Some r \<and>
     ceil_div n (1440 * L) \<le> unat r \<and> unat r \<le> ceil_div n (10 * L)"
proof -
  note idx = window_index [OF _ len be]
  define a where "a = unat (adjusted_timespan (sort (take 29 ts)) b e)"
  have a: "10 * L \<le> a" "a \<le> 1440 * L" and L: "0 < L"
    using adjusted_timespan_bounds [of b "sort (take 29 ts)" e] idx(9)
    by (simp_all add: a_def L_def min.commute)
  have lo: "ceil_div n (1440 * L) \<le> ceil_div n a" and hi: "ceil_div n a \<le> ceil_div n (10 * L)"
    using a L by (auto intro!: ceil_div_anti)
  with fit have q: "ceil_div n a < 2 ^ 128" by simp
  then have "unat (of_nat (ceil_div n a) :: u128) = ceil_div n a" by (intro unat_of_nat_eq) simp
  with next_difficulty_v2_value [OF len be cds, of T] q lo hi show ?thesis
    by (simp add: n_def a_def Let_def)
qed

lemma le_nat_zeros: "le_nat (replicate k 0) = 0"
  by (induction k) simp_all

section \<open>Printing\<close>

text \<open>The value of a string of hexadecimal digits, and of one digit: its place in the digit list.\<close>

definition hex_digit :: "char \<Rightarrow> nat" where
  "hex_digit c = length (takeWhile (\<lambda>d. d \<noteq> c) ''0123456789abcdef'')"

definition hex_value :: "string \<Rightarrow> nat" where
  "hex_value ds = foldl (\<lambda>acc c. 16 * acc + hex_digit c) 0 ds"

lemma hex_digit_nth:
  assumes "n < 16"
  shows "hex_digit (''0123456789abcdef'' ! n) = n"
    and "0 < n \<Longrightarrow> ''0123456789abcdef'' ! n \<noteq> CHR ''0''"
proof -
  have "list_all (\<lambda>k. hex_digit (''0123456789abcdef'' ! k) = k \<and> (0 < k \<longrightarrow> ''0123456789abcdef'' ! k \<noteq> CHR ''0''))
      [0..<16]" by code_simp
  then show "hex_digit (''0123456789abcdef'' ! n) = n" "0 < n \<Longrightarrow> ''0123456789abcdef'' ! n \<noteq> CHR ''0''"
    using assms by (auto simp: list_all_iff)
qed

lemma and_0xf: "unat (v AND 0xf :: u128) = unat v mod 16"
  using unat_and_mask [of v 4] by (simp add: mask_eq_exp_minus_1)

lemma hex_loop_value: "hex_value (rev (hex_loop v)) = unat v"
proof (induction v rule: hex_loop.induct)
  case (1 v)
  show ?case
  proof (cases "0 < v")
    case True
    with 1 have "hex_value (rev (hex_loop (drop_bit 4 v))) = unat v div 16" by (simp add: unat_shr)
    with True show ?thesis
      by (subst hex_loop.simps) (simp add: hex_value_def hex_digit_nth and_0xf)
  next
    case False
    then show ?thesis by (subst hex_loop.simps) (simp add: hex_value_def word_gt_0)
  qed
qed

lemma hex_loop_leading: "0 < v \<Longrightarrow> hex_loop v \<noteq> [] \<and> last (hex_loop v) \<noteq> CHR ''0''"
proof (induction v rule: hex_loop.induct)
  case (1 v)
  show ?case
  proof (cases "0 < drop_bit 4 v")
    case True
    with 1 show ?thesis by (subst (1 2) hex_loop.simps) simp
  next
    case False
    then have "unat v div 16 = 0" using unat_shr [of 4 v] by (simp add: word_gt_0)
    then have "0 < unat v" "unat v < 16" using 1(2) by (simp_all add: word_less_nat_alt div_eq_0_iff)
    moreover have "hex_loop (drop_bit 4 v) = []" using False by (subst hex_loop.simps) simp
    ultimately show ?thesis
      using 1(2) hex_digit_nth(2) [of "unat v"] by (subst (1 2) hex_loop.simps) (simp add: and_0xf)
  qed
qed

lemma hex_spec:
  "\<exists>ds. hex v = ''0x'' @ ds \<and> hex_value ds = unat v \<and> ds \<noteq> [] \<and> (hd ds = CHR ''0'' \<longleftrightarrow> v = 0)"
proof (cases "0 < v")
  case True
  then show ?thesis
    using hex_loop_value [of v] hex_loop_leading [OF True]
    by (auto simp: hex_def hd_rev word_gt_0)
next
  case False
  then have "v = 0" "hex_loop v = []" by (simp_all add: word_gt_0 hex_loop.simps)
  then show ?thesis by (simp add: hex_def hex_value_def hex_digit_def)
qed

text \<open>Unlike \<open>next_difficulty_64\<close>, the second version does not check the rounding-up sum for overflow.\<close>

lemma next_difficulty_v2_64_wraps:
  "next_difficulty_v2_64 [0, 10] [0, 2 ^ 64 - 1] 1 = Some 1 \<and>
   next_difficulty_v2 [0, 10] [0, 2 ^ 64 - 1] 1 = Some 1844674407370955162"
  by code_simp

section \<open>Properties\<close>

text \<open>C8: a hash meets a difficulty exactly when the 256 bit little-endian number it spells times the
  difficulty stays below \<open>2 ^ 256\<close>, whichever of the two routines the difficulty selects.\<close>

theorem check_hash_exact:
  assumes "length h = 32"
  shows "check_hash h d \<longleftrightarrow> le_nat h * unat d < 2 ^ 256"
  by (rule check_hash_spec [OF assms])

theorem check_hash_exact_witness:
  "length (replicate 30 0 @ [0, 1 :: u8]) = 32 \<and>
   check_hash (replicate 30 0 @ [0, 1]) 255 \<and> \<not> check_hash (replicate 30 0 @ [0, 1]) 256"
proof -
  have "le_nat (replicate 30 0 @ [0, 1]) = 2 ^ 248" by (simp add: le_nat_append le_nat_zeros)
  then show ?thesis
    using check_hash_exact [of "replicate 30 0 @ [0, 1]" 255] check_hash_exact [of "replicate 30 0 @ [0, 1]" 256]
    by simp
qed

text \<open>the multiplication used off x86-64 and the one used on it compute the same two words.\<close>

theorem mul_portable_agrees: "mul_portable a b = mul a b"
  by (rule mul_portable_mul)

text \<open>C9: on a window of at least two blocks with strictly increasing cumulative difficulties no
  assertion fails and the new difficulty is the work of the trimmed window times the target,
  divided by the (at least one second long) time span of the sorted, trimmed timestamps, rounded
  up; it is 0 when that does not fit 128 bits.\<close>

theorem next_difficulty_exact:
  assumes "length ts = length cds" "2 \<le> length ts"
    and "trim 720 60 (min 720 (length ts)) = (b, e)" and "sorted_wrt (<) cds"
  shows "next_difficulty ts cds T =
    Some (let q = ceil_div ((unat (cds ! (e - 1)) - unat (cds ! b)) * unat T) (span_of (take 720 ts) b e)
          in if q < 2 ^ 128 then of_nat q else 0)"
  by (rule next_difficulty_value [OF assms])

theorem next_difficulty_exact_witness:
  "next_difficulty [100, 350, 300] [1000, 3000, 5001] 240 = Some (of_nat (ceil_div (4001 * 240) 250))"
proof -
  have t: "trim 720 60 (min 720 (length [100, 350, 300 :: u64])) = (0, 3)" by (simp add: trim_def)
  have s: "span_of [100, 350, 300] 0 3 = 250" by (simp add: span_of_def)
  show ?thesis
    using next_difficulty_exact [OF _ _ t, of "[1000, 3000, 5001]" 240]
    by (simp add: s ceil_div_def)
qed

text \<open>C10: when the 64 bit version yields a difficulty (it answers 0 on overflow), the 128 bit version
  yields the same one.\<close>

theorem next_difficulty_64_agrees:
  assumes "length ts = length cds" "2 \<le> length ts" and "sorted_wrt (<) cds"
    and "next_difficulty_64 ts cds T = Some r" "r \<noteq> 0"
  shows "next_difficulty ts (map ucast cds) T = Some (ucast r)"
  by (rule next_difficulty_agree [OF assms])

theorem next_difficulty_64_agrees_witness:
  "next_difficulty_64 [100, 350, 300] [1000, 3000, 5001] 240 = Some 3841 \<and>
   next_difficulty [100, 350, 300] [1000, 3000, 5001] 240 = Some 3841"
proof -
  have "next_difficulty_64 [100, 350, 300] [1000, 3000, 5001] 240 = Some 3841" by code_simp
  with next_difficulty_64_agrees [of "[100, 350, 300]" "[1000, 3000, 5001]" 240 3841] show ?thesis by simp
qed

text \<open>C11: whatever the timestamps, the second version keeps the new difficulty between the one for an
  average block time of 24 minutes and the one for 10 seconds over the blocks it measures.\<close>

theorem next_difficulty_v2_damped:
  assumes "length ts = length cds" "2 \<le> length ts" and "trim 29 6 (min 29 (length ts)) = (b, e)"
    and "sorted_wrt (<) cds"
    and "L = min 29 (length ts) - 2 * b - 1"
    and "n = (unat (cds ! (e - 1)) - unat (cds ! b)) * unat T"
    and "ceil_div n (10 * L) < 2 ^ 128"
  shows "\<exists>r. next_difficulty_v2 ts cds T = Some r \<and>
     ceil_div n (1440 * L) \<le> unat r \<and> unat r \<le> ceil_div n (10 * L)"
  using next_difficulty_v2_bounds [OF assms(1-4), of T] assms(5-7) by simp

theorem next_difficulty_v2_damped_witness:
  "\<exists>r. next_difficulty_v2 [100, 350, 300] [1000, 3000, 5001] 240 = Some r \<and>
     ceil_div 960240 2880 \<le> unat r \<and> unat r \<le> ceil_div 960240 20"
proof -
  have t: "trim 29 6 (min 29 (length [100, 350, 300 :: u64])) = (0, 3)" by (simp add: trim_def)
  show ?thesis
    using next_difficulty_v2_damped [OF _ _ t, of "[1000, 3000, 5001]" 2 960240 240]
    by (simp add: ceil_div_def)
qed

text \<open>the hexadecimal form of a difficulty spells its value, without leading zeros except for
  zero itself.\<close>

theorem hex_faithful:
  "\<exists>ds. hex v = ''0x'' @ ds \<and> hex_value ds = unat v \<and> ds \<noteq> [] \<and> (hd ds = CHR ''0'' \<longleftrightarrow> v = 0)"
  by (rule hex_spec)

end
