(* ===== verification/Binary64.thy ===== *)
theory Binary64
  imports Complex_Main Prelude
begin

text \<open>
  The C type \<open>double\<close> on the platforms the program supports: IEEE binary64 arithmetic,
  rounding to nearest with ties to even after every operation. A finite value is the rational it
  denotes; the sign of zero is not kept, which no result below depends on. The block reward and
  the third difficulty adjustment compute with it.
\<close>

datatype f64 = Fin rat | PInf | NInf | NaN

text \<open>The exponent of the leading bit of a positive rational.\<close>

fun ilog2 :: "nat \<Rightarrow> nat" where
  "ilog2 n = (if n \<le> 1 then 0 else Suc (ilog2 (n div 2)))"

declare ilog2.simps [simp del]

definition rat_log2 :: "rat \<Rightarrow> int" where
  "rat_log2 x =
     (let (a, b) = quotient_of x;
          k = int (ilog2 (nat a)) - int (ilog2 (nat b))
      in if 2 powi k \<le> x then k else k - 1)"

definition round_even :: "rat \<Rightarrow> int" where
  "round_even q =
     (let n = \<lfloor>q\<rfloor>; d = q - of_int n
      in if d < 1 / 2 then n else if 1 / 2 < d then n + 1 else if even n then n else n + 1)"

text \<open>The spacing of the binary64 numbers around \<open>x\<close>, down to the subnormal spacing.\<close>

definition ulp :: "rat \<Rightarrow> rat" where
  "ulp x = 2 powi (max (rat_log2 \<bar>x\<bar> - 52) (- 1074))"

definition rnd :: "rat \<Rightarrow> rat" where
  "rnd x = (if x = 0 then 0 else of_int (round_even (x / ulp x)) * ulp x)"

definition to_f64 :: "rat \<Rightarrow> f64" where
  "to_f64 x =
     (let r = rnd x
      in if 2 ^ 1024 \<le> r then PInf else if r \<le> - (2 ^ 1024) then NInf else Fin r)"

fun fadd :: "f64 \<Rightarrow> f64 \<Rightarrow> f64" where
  "fadd (Fin x) (Fin y) = to_f64 (x + y)"
| "fadd NaN _ = NaN"
| "fadd _ NaN = NaN"
| "fadd PInf NInf = NaN"
| "fadd NInf PInf = NaN"
| "fadd PInf _ = PInf"
| "fadd _ PInf = PInf"
| "fadd NInf _ = NInf"
| "fadd _ NInf = NInf"

definition inf_of :: "rat \<Rightarrow> f64" where
  "inf_of s = (if 0 < s then PInf else if s < 0 then NInf else NaN)"

definition sign_of :: "f64 \<Rightarrow> rat" where
  "sign_of x = (case x of Fin r \<Rightarrow> sgn r | PInf \<Rightarrow> 1 | NInf \<Rightarrow> - 1 | NaN \<Rightarrow> 0)"

definition fmul :: "f64 \<Rightarrow> f64 \<Rightarrow> f64" where
  "fmul x y =
     (case (x, y) of
        (Fin a, Fin b) \<Rightarrow> to_f64 (a * b)
      | (NaN, _) \<Rightarrow> NaN
      | (_, NaN) \<Rightarrow> NaN
      | _ \<Rightarrow> inf_of (sign_of x * sign_of y))"

definition fdiv :: "f64 \<Rightarrow> f64 \<Rightarrow> f64" where
  "fdiv x y =
     (case (x, y) of
        (Fin a, Fin b) \<Rightarrow> if b = 0 then inf_of a else to_f64 (a / b)
      | (NaN, _) \<Rightarrow> NaN
      | (_, NaN) \<Rightarrow> NaN
      | (Fin a, _) \<Rightarrow> Fin 0
      | (_, Fin b) \<Rightarrow> inf_of (sign_of x * (if b = 0 then 1 else sgn b))
      | _ \<Rightarrow> NaN)"

text \<open>
  The conversion to an integer type drops the fraction; a value whose integral part the type
  cannot hold, an infinity and a NaN have no defined result.
\<close>

definition trunc :: "rat \<Rightarrow> int" where
  "trunc x = (if 0 \<le> x then \<lfloor>x\<rfloor> else \<lceil>x\<rceil>)"

definition f64_to_u64 :: "f64 \<Rightarrow> u64 option" where
  "f64_to_u64 x =
     (case x of Fin r \<Rightarrow> if 0 \<le> trunc r \<and> trunc r < 2 ^ 64 then Some (of_int (trunc r)) else None | _ \<Rightarrow> None)"

definition u64_to_f64 :: "u64 \<Rightarrow> f64" where
  "u64_to_f64 w = to_f64 (of_nat (unat w))"

definition s64_to_f64 :: "int \<Rightarrow> f64" where
  "s64_to_f64 i = to_f64 (of_int i)"

section \<open>The leading exponent\<close>

lemma ilog2_bounds: "0 < n \<Longrightarrow> 2 ^ ilog2 n \<le> n \<and> n < 2 ^ Suc (ilog2 n)"
proof (induction n rule: ilog2.induct)
  case (1 n)
  show ?case
  proof (cases "n \<le> 1")
    case True
    with 1(2) have "n = 1" by simp
    then show ?thesis by (simp add: ilog2.simps)
  next
    case False
    then have "0 < n div 2" by (simp add: div_greater_zero_iff)
    with 1(1) [OF False] have "2 ^ ilog2 (n div 2) \<le> n div 2" "n div 2 < 2 ^ Suc (ilog2 (n div 2))" by auto
    then have "2 * 2 ^ ilog2 (n div 2) \<le> n" "n < 2 * 2 ^ Suc (ilog2 (n div 2))" by linarith+
    with False show ?thesis by (subst (1 2) ilog2.simps) simp
  qed
qed

lemma ilog2_bounds_rat:
  assumes "0 < n"
  shows "(2::rat) ^ ilog2 n \<le> of_nat n" "of_nat n < (2::rat) * 2 ^ ilog2 n"
proof -
  have "(of_nat (2 ^ ilog2 n) :: rat) \<le> of_nat n" "(of_nat n :: rat) < of_nat (2 ^ Suc (ilog2 n))"
    using ilog2_bounds [OF assms] by (simp_all only: of_nat_le_iff of_nat_less_iff)
  then show "(2::rat) ^ ilog2 n \<le> of_nat n" "of_nat n < (2::rat) * 2 ^ ilog2 n" by simp_all
qed

lemma powi_add_one: "(2::rat) powi (k + 1) = 2 * 2 powi k"
  by (simp add: power_int_add)

lemma powi_less_cancel:
  assumes "(2::rat) powi a < 2 powi b"
  shows "a < b"
proof (rule ccontr)
  assume "\<not> a < b"
  then have "(2::rat) powi b \<le> 2 powi a" by (intro power_int_increasing) auto
  with assms show False by simp
qed

lemma rat_log2_bounds:
  assumes "0 < x"
  shows "2 powi rat_log2 x \<le> x" "x < 2 powi (rat_log2 x + 1)"
proof -
  obtain a b where q: "quotient_of x = (a, b)" by force
  have x: "x = of_int a / of_int b" and b: "0 < b"
    using quotient_of_div [OF q] quotient_of_denom_pos [OF q] by simp_all
  with assms have a: "0 < a" by (simp add: zero_less_divide_iff)
  define i j where "i = ilog2 (nat a)" and "j = ilog2 (nat b)"
  have ai: "(2::rat) ^ i \<le> of_int a" "of_int a < (2::rat) * 2 ^ i"
    using ilog2_bounds_rat [of "nat a"] a by (simp_all add: i_def)
  have bj: "(2::rat) ^ j \<le> of_int b" "of_int b < (2::rat) * 2 ^ j"
    using ilog2_bounds_rat [of "nat b"] b by (simp_all add: j_def)
  define k where "k = int i - int j"
  have pk: "(2::rat) powi k = 2 ^ i / 2 ^ j" by (simp add: k_def power_int_diff)
  have "x < 2 * 2 ^ i / 2 ^ j"
    unfolding x using ai bj a b by (intro frac_less) auto
  then have hi: "x < 2 powi (k + 1)" by (simp add: powi_add_one pk)
  have "2 ^ i / (2 * 2 ^ j) < x"
    unfolding x using ai bj a b by (intro frac_less2) auto
  then have lo: "2 powi (k - 1) < x" by (simp add: power_int_diff pk)
  have l: "rat_log2 x = (if 2 powi k \<le> x then k else k - 1)"
    by (simp add: rat_log2_def q k_def i_def j_def Let_def)
  show "2 powi rat_log2 x \<le> x" using lo by (simp add: l)
  show "x < 2 powi (rat_log2 x + 1)" using hi by (simp add: l)
qed

lemma rat_log2_unique:
  assumes "2 powi e \<le> x" "x < 2 powi (e + 1)"
  shows "rat_log2 x = e"
proof -
  have "0 < x" using assms(1) by (meson less_le_trans zero_less_power_int zero_less_numeral)
  note b = rat_log2_bounds [OF this]
  have "rat_log2 x < e + 1" using assms(2) b(1) by (intro powi_less_cancel) linarith
  moreover have "e < rat_log2 x + 1" using assms(1) b(2) by (intro powi_less_cancel) linarith
  ultimately show ?thesis by simp
qed

section \<open>Rounding\<close>

lemma round_even_error: "\<bar>of_int (round_even q) - q\<bar> \<le> 1 / 2"
proof -
  have "of_int \<lfloor>q\<rfloor> \<le> q" "q < of_int \<lfloor>q\<rfloor> + 1" by linarith+
  then show ?thesis by (simp add: round_even_def Let_def abs_le_iff)
qed

lemma round_even_unique:
  assumes "\<bar>of_int n - q\<bar> < 1 / 2 \<or> (\<bar>of_int n - q\<bar> = 1 / 2 \<and> even n)"
  shows "round_even q = n"
proof -
  consider "\<bar>of_int n - q\<bar> < 1 / 2" | "q = of_int n + 1 / 2" "even n" | "q = of_int n - 1 / 2" "even n"
    using assms by (auto simp: abs_if split: if_splits)
  then show ?thesis
  proof cases
    case 1
    then have "\<bar>of_int (round_even q) - of_int n :: rat\<bar> < 1"
      using round_even_error [of q] by linarith
    then have "\<bar>round_even q - n\<bar> < 1" by (metis of_int_abs of_int_diff of_int_less_1_iff)
    then show ?thesis by simp
  next
    case 2
    then have "\<lfloor>q\<rfloor> = n" by (simp add: floor_eq_iff)
    with 2 show ?thesis by (simp add: round_even_def)
  next
    case 3
    then have "\<lfloor>q\<rfloor> = n - 1" by (simp add: floor_eq_iff)
    with 3 show ?thesis by (simp add: round_even_def)
  qed
qed

lemma ulp_pos: "0 < ulp x"
  by (simp add: ulp_def)

lemma rnd_error_ulp: "\<bar>rnd x - x\<bar> \<le> ulp x / 2"
proof (cases "x = 0")
  case True
  then show ?thesis using ulp_pos [of 0] by (simp add: rnd_def)
next
  case False
  have "rnd x - x = (of_int (round_even (x / ulp x)) - x / ulp x) * ulp x"
    using False ulp_pos [of x] by (simp add: rnd_def left_diff_distrib)
  then have "\<bar>rnd x - x\<bar> = \<bar>of_int (round_even (x / ulp x)) - x / ulp x\<bar> * ulp x"
    using ulp_pos [of x] by (simp add: abs_mult)
  also have "\<dots> \<le> 1 / 2 * ulp x"
    using round_even_error [of "x / ulp x"] ulp_pos [of x] by (intro mult_right_mono) auto
  finally show ?thesis by simp
qed

text \<open>For normal numbers the relative error is at most \<open>2 ^ -53\<close>.\<close>

lemma rnd_error:
  assumes "2 powi (- 1022) \<le> \<bar>x\<bar>"
  shows "\<bar>rnd x - x\<bar> \<le> \<bar>x\<bar> / 2 ^ 53"
proof -
  have "0 < \<bar>x\<bar>" using assms by (meson less_le_trans zero_less_power_int zero_less_numeral)
  note b = rat_log2_bounds [OF this]
  have "(2::rat) powi (- 1022) < 2 powi (rat_log2 \<bar>x\<bar> + 1)" using assms b(2) by linarith
  then have "- 1022 < rat_log2 \<bar>x\<bar> + 1" by (rule powi_less_cancel)
  then have "ulp x = 2 powi (rat_log2 \<bar>x\<bar> - 52)" by (simp add: ulp_def)
  also have "\<dots> = 2 powi rat_log2 \<bar>x\<bar> / 2 ^ 52" by (simp add: power_int_diff)
  also have "\<dots> \<le> \<bar>x\<bar> / 2 ^ 52" using b(1) by (intro divide_right_mono) auto
  finally show ?thesis using rnd_error_ulp [of x] by simp
qed

text \<open>Evaluation: the integer nearest to the scaled value is the rounded significand.\<close>

lemma rnd_eval:
  assumes "k \<le> 1074" "2 ^ 52 \<le> x * 2 ^ k" "x * 2 ^ k < 2 ^ 53"
    and n: "\<bar>of_int n - x * 2 ^ k\<bar> < 1 / 2 \<or> (\<bar>of_int n - x * 2 ^ k\<bar> = 1 / 2 \<and> even n)"
  shows "rnd x = of_int n / 2 ^ k"
proof -
  have p: "(2::rat) powi (52 - int k) = 2 ^ 52 / 2 ^ k" by (simp add: power_int_diff)
  have "2 powi (52 - int k) \<le> x" "x < 2 powi (52 - int k + 1)"
    unfolding powi_add_one p using assms(2,3) by (simp_all add: field_simps)
  then have l: "rat_log2 x = 52 - int k" by (rule rat_log2_unique)
  have "0 < x * 2 ^ k" using assms(2) by (rule less_le_trans [rotated]) simp
  then have "0 < x" by (simp add: zero_less_mult_iff)
  then have "ulp x = 2 powi (- int k)" using l assms(1) by (simp add: ulp_def)
  then have u: "ulp x = 1 / 2 ^ k" by (simp add: power_int_minus divide_inverse)
  have "round_even (x * 2 ^ k) = n" using n by (rule round_even_unique)
  then show ?thesis using \<open>0 < x\<close> by (simp add: rnd_def u)
qed

lemma rnd_eval_large:
  assumes "2 ^ 52 \<le> x / 2 ^ k" "x / 2 ^ k < 2 ^ 53"
    and n: "\<bar>of_int n - x / 2 ^ k\<bar> < 1 / 2 \<or> (\<bar>of_int n - x / 2 ^ k\<bar> = 1 / 2 \<and> even n)"
  shows "rnd x = of_int n * 2 ^ k"
proof -
  have p: "(2::rat) powi (52 + int k) = 2 ^ 52 * 2 ^ k" by (simp add: power_int_add)
  have "2 powi (52 + int k) \<le> x" "x < 2 powi (52 + int k + 1)"
    unfolding powi_add_one p using assms(1,2) by (simp_all add: field_simps)
  then have l: "rat_log2 x = 52 + int k" by (rule rat_log2_unique)
  have "0 < x / 2 ^ k" using assms(1) by (rule less_le_trans [rotated]) simp
  then have "0 < x" by (simp add: zero_less_divide_iff)
  then have u: "ulp x = 2 ^ k" using l by (simp add: ulp_def)
  have "round_even (x / 2 ^ k) = n" using n by (rule round_even_unique)
  then show ?thesis using \<open>0 < x\<close> by (simp add: rnd_def u)
qed

lemma to_f64_finite:
  assumes "rnd x = r" "\<bar>r\<bar> < 2 ^ 1024"
  shows "to_f64 x = Fin r"
  using assms by (auto simp: to_f64_def Let_def abs_less_iff)

lemma significand_bound:
  fixes y :: rat
  assumes "2 ^ 52 \<le> y" "y < 2 ^ 53"
    and "\<bar>of_int n - y\<bar> < 1 / 2 \<or> (\<bar>of_int n - y\<bar> = 1 / 2 \<and> even n)"
  shows "\<bar>of_int n :: rat\<bar> < 2 ^ 54"
proof -
  have e: "(2::rat) ^ 54 = 4 * 2 ^ 52" "(2::rat) ^ 53 = 2 * 2 ^ 52" by simp_all
  have "\<bar>of_int n - y\<bar> \<le> 1 / 2" using assms(3) by auto
  then have "of_int n \<le> y + 1 / 2" "y - 1 / 2 \<le> of_int n" by linarith+
  then show ?thesis using assms(1,2) one_le_power [of "2::rat" 52] unfolding abs_less_iff e by linarith
qed

lemma to_f64_eval:
  assumes "k \<le> 1074" "2 ^ 52 \<le> x * 2 ^ k" "x * 2 ^ k < 2 ^ 53"
    and "\<bar>of_int n - x * 2 ^ k\<bar> < 1 / 2 \<or> (\<bar>of_int n - x * 2 ^ k\<bar> = 1 / 2 \<and> even n)"
  shows "to_f64 x = Fin (of_int n / 2 ^ k)"
proof (rule to_f64_finite)
  show "rnd x = of_int n / 2 ^ k" using assms by (rule rnd_eval)
  have "\<bar>of_int n :: rat\<bar> < 2 ^ 54" using assms(2-4) by (rule significand_bound)
  also have "\<dots> \<le> 2 ^ 1024" by (rule power_increasing) simp_all
  finally have n: "\<bar>of_int n :: rat\<bar> < 2 ^ 1024" .
  have "\<bar>of_int n / 2 ^ k\<bar> = \<bar>of_int n :: rat\<bar> / 2 ^ k" by simp
  also have "\<dots> \<le> \<bar>of_int n\<bar> / 1" by (rule divide_left_mono) simp_all
  finally show "\<bar>of_int n / 2 ^ k :: rat\<bar> < 2 ^ 1024" using n by (metis div_by_1 le_less_trans)
qed

lemma to_f64_eval_large:
  assumes "k \<le> 900" "2 ^ 52 \<le> x / 2 ^ k" "x / 2 ^ k < 2 ^ 53"
    and "\<bar>of_int n - x / 2 ^ k\<bar> < 1 / 2 \<or> (\<bar>of_int n - x / 2 ^ k\<bar> = 1 / 2 \<and> even n)"
  shows "to_f64 x = Fin (of_int n * 2 ^ k)"
proof (rule to_f64_finite)
  show "rnd x = of_int n * 2 ^ k" using assms(2-4) by (rule rnd_eval_large)
  have "\<bar>of_int n :: rat\<bar> < 2 ^ 54" using assms(2-4) by (rule significand_bound)
  then have "\<bar>of_int n :: rat\<bar> * 2 ^ k < 2 ^ 54 * 2 ^ k" by simp
  also have "\<dots> \<le> 2 ^ 1024" unfolding power_add [symmetric] using assms(1) by (intro power_increasing) auto
  finally show "\<bar>of_int n * 2 ^ k :: rat\<bar> < 2 ^ 1024" by (simp add: abs_mult)
qed

end
