(* ===== verification/Block_Reward.thy ===== *)
theory Block_Reward
  imports Binary64 Int_Util
begin

text \<open>
  The miner's reward: \<open>get_block_reward\<close> of \<open>cryptonote_basic/cryptonote_basic_impl.cpp\<close>, with
  its emission curve, computed in \<open>double\<close>, and the penalty for blocks heavier than the median.
\<close>

definition MONEY_SUPPLY :: u64 where
  "MONEY_SUPPLY = 88888888000000000"

definition EMISSION_SPEED_FACTOR :: nat where
  "EMISSION_SPEED_FACTOR = 19"

definition FINAL_SUBSIDY :: u64 where
  "FINAL_SUBSIDY = 4000000000"

definition GENESIS_BLOCK_REWARD :: u64 where
  "GENESIS_BLOCK_REWARD = 8800000000000000"

definition CRYPTONOTE_BLOCK_GRANTED_FULL_REWARD_ZONE :: u64 where
  "CRYPTONOTE_BLOCK_GRANTED_FULL_REWARD_ZONE = 240 * 1024"

definition BLOCK_SIZE_GROWTH_FAVORED_ZONE :: u64 where
  "BLOCK_SIZE_GROWTH_FAVORED_ZONE = CRYPTONOTE_BLOCK_GRANTED_FULL_REWARD_ZONE * 4"

text \<open>
  The two heights are constant expressions over \<open>double\<close>: every intermediate value is an
  integer or a multiple of 1/16 far below \<open>2 ^ 53\<close>, so no rounding happens, and the cast drops a
  fraction of zero.
\<close>

definition COIN_EMISSION_HEIGHT_INTERVAL :: u64 where
  "COIN_EMISSION_HEIGHT_INTERVAL = of_int (trunc (6 * (30.4375 * 24 * 3600) / 240))"

definition PEAK_COIN_EMISSION_HEIGHT :: u64 where
  "PEAK_COIN_EMISSION_HEIGHT = of_int (trunc ((12 * 30.4375 * 24 * 3600) / 240 * 4))"

datatype reward_error = Block_too_big | Assertion_failed | Undefined_conversion

definition get_min_block_weight :: "u8 \<Rightarrow> u64" where
  "get_min_block_weight version = CRYPTONOTE_BLOCK_GRANTED_FULL_REWARD_ZONE"

definition emission_pct :: "u64 \<Rightarrow> f64" where
  "emission_pct interval_num =
     fadd (to_f64 0.1888)
       (fmul (u64_to_f64 interval_num)
          (fadd (to_f64 0.023) (fmul (u64_to_f64 interval_num) (to_f64 0.0032))))"

text \<open>The base reward, before the penalty: the first half of the function.\<close>

definition compute_base_reward :: "u64 \<Rightarrow> u64 \<Rightarrow> u64 option" where
  "compute_base_reward already_generated_coins height =
     (let round_factor = 10000000 in
      map_option
        (\<lambda>base_reward.
           let base_reward =
                 (if base_reward < FINAL_SUBSIDY then
                    if already_generated_coins < MONEY_SUPPLY then FINAL_SUBSIDY else FINAL_SUBSIDY div 2
                  else base_reward)
           in base_reward div round_factor * round_factor)
        (if 0 < height then
           if height < PEAK_COIN_EMISSION_HEIGHT + COIN_EMISSION_HEIGHT_INTERVAL then
             let interval_num = height div COIN_EMISSION_HEIGHT_INTERVAL;
                 money_supply_pct = emission_pct interval_num
             in map_option (drop_bit EMISSION_SPEED_FACTOR)
                  (f64_to_u64 (fmul (u64_to_f64 MONEY_SUPPLY) money_supply_pct))
           else Some (drop_bit EMISSION_SPEED_FACTOR (MONEY_SUPPLY - already_generated_coins))
         else Some GENESIS_BLOCK_REWARD))"

definition get_block_reward :: "u64 \<Rightarrow> u64 \<Rightarrow> u64 \<Rightarrow> u64 \<Rightarrow> reward_error + u64" where
  "get_block_reward median_weight current_block_weight already_generated_coins height =
     (case compute_base_reward already_generated_coins height of
        None \<Rightarrow> Inl Undefined_conversion
      | Some base_reward \<Rightarrow>
          let median_weight =
                (if median_weight < CRYPTONOTE_BLOCK_GRANTED_FULL_REWARD_ZONE
                 then CRYPTONOTE_BLOCK_GRANTED_FULL_REWARD_ZONE else median_weight)
          in if 2 * median_weight < current_block_weight then Inl Block_too_big
             else if current_block_weight \<le>
                     (if median_weight < BLOCK_SIZE_GROWTH_FAVORED_ZONE
                      then median_weight * 110 div 100 else median_weight)
             then Inr base_reward
             else
               let multiplicand = 2 * median_weight - current_block_weight;
                   multiplicand = multiplicand * current_block_weight;
                   (product_lo, product_hi) = mul128 base_reward multiplicand;
                   (reward_hi, reward_lo, _, _) = div128_64 product_hi product_lo median_weight;
                   (reward_hi, reward_lo, _, _) = div128_64 reward_hi reward_lo median_weight
               in if reward_hi \<noteq> 0 then Inl Assertion_failed
                  else if \<not> reward_lo < base_reward then Inl Assertion_failed
                  else Inr reward_lo)"

text \<open>
  The coins generated so far after a block, as \<open>Blockchain::handle_block_to_main_chain\<close> and
  \<open>handle_alternative_block\<close> update them.
\<close>

definition add_generated_coins :: "u64 \<Rightarrow> u64 \<Rightarrow> u64" where
  "add_generated_coins already_generated_coins base_reward =
     (if base_reward < MONEY_SUPPLY - already_generated_coins
      then already_generated_coins + base_reward else MONEY_SUPPLY)"

section \<open>The emission curve\<close>

lemma to_f64_zero: "to_f64 0 = Fin 0"
  by (simp add: to_f64_def rnd_def)

definition emission :: "u64 \<Rightarrow> u64 option" where
  "emission i = map_option (drop_bit EMISSION_SPEED_FACTOR)
     (f64_to_u64 (fmul (u64_to_f64 MONEY_SUPPLY) (emission_pct i)))"

lemmas to_f64_num = to_f64_eval [where n = "numeral m" for m, unfolded of_int_numeral]
lemmas to_f64_num_large = to_f64_eval_large [where n = "numeral m" for m, unfolded of_int_numeral]

lemma f64_pct:
  "to_f64 0.1888 = Fin (6802236877180397 / 2 ^ 55)"
  "to_f64 0.023 = Fin (6629298651489370 / 2 ^ 58)"
  "to_f64 0.0032 = Fin (7378697629483821 / 2 ^ 61)"
  by ((rule to_f64_num; simp), (rule to_f64_num; simp), (rule to_f64_num; simp))

lemma f64_money_supply: "u64_to_f64 MONEY_SUPPLY = Fin 88888888000000000"
  unfolding u64_to_f64_def MONEY_SUPPLY_def
  by (rule trans [OF to_f64_eval_large [where n = 5555555500000000 and k = 4]]) simp_all

lemma unat_of_int_u64:
  assumes "0 \<le> n" "n < 2 ^ 64"
  shows "unat (of_int n :: u64) = nat n"
proof -
  have "(of_int n :: u64) = of_nat (nat n)" using assms(1) by simp
  moreover have "nat n < 2 ^ 64" using assms by (simp add: nat_less_iff)
  ultimately show ?thesis by (simp only: unat_of_nat_u64)
qed

text \<open>
  One interval of the curve: the roundings of the five operations, in order, and the truncation.
\<close>

lemma emission_steps:
  assumes "to_f64 (of_nat (unat i)) = Fin x" and "to_f64 (x * (7378697629483821 / 2 ^ 61)) = Fin a"
    and "to_f64 (6629298651489370 / 2 ^ 58 + a) = Fin b" and "to_f64 (x * b) = Fin c"
    and "to_f64 (6802236877180397 / 2 ^ 55 + c) = Fin p"
    and "to_f64 (88888888000000000 * p) = Fin (numeral m * 2 ^ k)"
    and "numeral m * 2 ^ k < (2::int) ^ 64" and "r = of_int ((numeral m * 2 ^ k) div 2 ^ 19)"
  shows "emission i = Some r"
proof -
  have "emission_pct i = Fin p"
    unfolding emission_pct_def u64_to_f64_def fmul_def f64_pct
    by (simp only: assms f64.case prod.case fadd.simps)
  then have e: "fmul (u64_to_f64 MONEY_SUPPLY) (emission_pct i) = Fin (numeral m * 2 ^ k)"
    by (simp only: f64_money_supply fmul_def f64.case prod.case assms(6))
  define n :: int where "n = numeral m * 2 ^ k"
  have n: "0 \<le> n" "n < 2 ^ 64" "(numeral m * 2 ^ k :: rat) = of_int n"
    using assms(7) by (simp_all add: n_def)
  have "f64_to_u64 (Fin (of_int n)) = Some (of_int n)" using n by (simp add: f64_to_u64_def trunc_def)
  moreover have "drop_bit 19 (of_int n :: u64) = of_int (n div 2 ^ 19)"
  proof (rule word_eqI_unat)
    have "unat (of_int n :: u64) = nat n" using n(1,2) by (intro unat_of_int_u64)
    moreover have "unat (of_int (n div 2 ^ 19) :: u64) = nat (n div 2 ^ 19)"
    proof (rule unat_of_int_u64)
      have "n div 2 ^ 19 \<le> n div 1" using n(1) by (intro zdiv_mono2) simp_all
      then show "n div 2 ^ 19 < 2 ^ 64" using n(2) by simp
    qed (use n(1) in simp)
    ultimately show "unat (drop_bit 19 (of_int n :: u64)) = unat (of_int (n div 2 ^ 19) :: u64)"
      using n(1) by (simp add: unat_shr nat_div_distrib)
  qed
  ultimately show ?thesis
    using assms(8) by (simp add: emission_def e n(3) EMISSION_SPEED_FACTOR_def n_def [symmetric])
qed

lemma emission_0: "emission 0 = Some 32009548291"
proof -
  have "to_f64 (of_nat (unat (0 :: u64))) = Fin 0" by (simp add: to_f64_zero)
  moreover have "to_f64 (0 * (7378697629483821 / 2 ^ 61)) = Fin 0" by (simp add: to_f64_zero)
  moreover have "to_f64 (6629298651489370 / 2 ^ 58 + 0) = Fin (6629298651489370 / 2 ^ 58)"
    by (rule to_f64_num) simp_all
  moreover have "to_f64 (0 * (6629298651489370 / 2 ^ 58)) = Fin 0" by (simp add: to_f64_zero)
  moreover have "to_f64 (6802236877180397 / 2 ^ 55 + 0) = Fin (6802236877180397 / 2 ^ 55)"
    by (rule to_f64_num) simp_all
  moreover have "to_f64 (88888888000000000 * (6802236877180397 / 2 ^ 55)) = Fin (8391111027200000 * 2 ^ 1)"
    by (rule to_f64_num_large) simp_all
  ultimately show ?thesis by (rule emission_steps) simp_all
qed

lemma emission_1: "emission 1 = Some 36451551284"
proof -
  have "to_f64 (of_nat (unat (1 :: u64))) = Fin 1"
    by (rule trans [OF to_f64_eval [where n = 4503599627370496 and k = 52]]) simp_all
  moreover have "to_f64 (1 * (7378697629483821 / 2 ^ 61)) = Fin (7378697629483821 / 2 ^ 61)"
    by (rule to_f64_num) simp_all
  moreover have "to_f64 (6629298651489370 / 2 ^ 58 + 7378697629483821 / 2 ^ 61) = Fin (7551635855174848 / 2 ^ 58)"
    by (rule to_f64_num) simp_all
  moreover have "to_f64 (1 * (7551635855174848 / 2 ^ 58)) = Fin (7551635855174848 / 2 ^ 58)"
    by (rule to_f64_num) simp_all
  moreover have "to_f64 (6802236877180397 / 2 ^ 55 + 7551635855174848 / 2 ^ 58) = Fin (7746191359077253 / 2 ^ 55)"
    by (rule to_f64_num) simp_all
  moreover have "to_f64 (88888888000000000 * (7746191359077253 / 2 ^ 55)) = Fin (4777777730000000 * 2 ^ 2)"
    by (rule to_f64_num_large) simp_all
  ultimately show ?thesis by (rule emission_steps) simp_all
qed

lemma emission_2: "emission 2 = Some 41978623712"
proof -
  have "to_f64 (of_nat (unat (2 :: u64))) = Fin 2"
    by (rule trans [OF to_f64_eval [where n = 4503599627370496 and k = 51]]) simp_all
  moreover have "to_f64 (2 * (7378697629483821 / 2 ^ 61)) = Fin (7378697629483821 / 2 ^ 60)"
    by (rule to_f64_num) simp_all
  moreover have "to_f64 (6629298651489370 / 2 ^ 58 + 7378697629483821 / 2 ^ 60) = Fin (8473973058860325 / 2 ^ 58)"
    by (rule to_f64_num) simp_all
  moreover have "to_f64 (2 * (8473973058860325 / 2 ^ 58)) = Fin (8473973058860325 / 2 ^ 57)"
    by (rule to_f64_num) simp_all
  moreover have "to_f64 (6802236877180397 / 2 ^ 55 + 8473973058860325 / 2 ^ 57) = Fin (8920730141895478 / 2 ^ 55)"
    by (rule to_f64_num) simp_all
  moreover have "to_f64 (88888888000000000 * (8920730141895478 / 2 ^ 55)) = Fin (5502222167200000 * 2 ^ 2)"
    by (rule to_f64_num_large) simp_all
  ultimately show ?thesis by (rule emission_steps) simp_all
qed

lemma emission_3: "emission 3 = Some 48590765573"
proof -
  have "to_f64 (of_nat (unat (3 :: u64))) = Fin 3"
    by (rule trans [OF to_f64_eval [where n = 6755399441055744 and k = 51]]) simp_all
  moreover have "to_f64 (3 * (7378697629483821 / 2 ^ 61)) = Fin (5534023222112866 / 2 ^ 59)"
    by (rule to_f64_num) simp_all
  moreover have "to_f64 (6629298651489370 / 2 ^ 58 + 5534023222112866 / 2 ^ 59) = Fin (4698155131272902 / 2 ^ 57)"
    by (rule to_f64_num) simp_all
  moreover have "to_f64 (3 * (4698155131272902 / 2 ^ 57)) = Fin (7047232696909353 / 2 ^ 56)"
    by (rule to_f64_num) simp_all
  moreover have "to_f64 (6802236877180397 / 2 ^ 55 + 7047232696909353 / 2 ^ 56) = Fin (5162926612817537 / 2 ^ 54)"
    by (rule to_f64_num) simp_all
  moreover have "to_f64 (88888888000000000 * (5162926612817537 / 2 ^ 54)) = Fin (6368888825200000 * 2 ^ 2)"
    by (rule to_f64_num_large) simp_all
  ultimately show ?thesis by (rule emission_steps) simp_all
qed

lemma emission_4: "emission 4 = Some 56287976867"
proof -
  have "to_f64 (of_nat (unat (4 :: u64))) = Fin 4"
    by (rule trans [OF to_f64_eval [where n = 4503599627370496 and k = 50]]) simp_all
  moreover have "to_f64 (4 * (7378697629483821 / 2 ^ 61)) = Fin (7378697629483821 / 2 ^ 59)"
    by (rule to_f64_num) simp_all
  moreover have "to_f64 (6629298651489370 / 2 ^ 58 + 7378697629483821 / 2 ^ 59) = Fin (5159323733115640 / 2 ^ 57)"
    by (rule to_f64_num) simp_all
  moreover have "to_f64 (4 * (5159323733115640 / 2 ^ 57)) = Fin (5159323733115640 / 2 ^ 55)"
    by (rule to_f64_num) simp_all
  moreover have "to_f64 (6802236877180397 / 2 ^ 55 + 5159323733115640 / 2 ^ 55) = Fin (5980780305148018 / 2 ^ 54)"
    by (rule to_f64_num) simp_all
  moreover have "to_f64 (88888888000000000 * (5980780305148018 / 2 ^ 54)) = Fin (7377777703999999 * 2 ^ 2)"
    by (rule to_f64_num_large) simp_all
  ultimately show ?thesis by (rule emission_steps) simp_all
qed

lemma emission_5: "emission 5 = Some 65070257595"
proof -
  have "to_f64 (of_nat (unat (5 :: u64))) = Fin 5"
    by (rule trans [OF to_f64_eval [where n = 5629499534213120 and k = 50]]) simp_all
  moreover have "to_f64 (5 * (7378697629483821 / 2 ^ 61)) = Fin (4611686018427388 / 2 ^ 58)"
    by (rule to_f64_num) simp_all
  moreover have "to_f64 (6629298651489370 / 2 ^ 58 + 4611686018427388 / 2 ^ 58) = Fin (5620492334958379 / 2 ^ 57)"
    by (rule to_f64_num) simp_all
  moreover have "to_f64 (5 * (5620492334958379 / 2 ^ 57)) = Fin (7025615418697974 / 2 ^ 55)"
    by (rule to_f64_num) simp_all
  moreover have "to_f64 (6802236877180397 / 2 ^ 55 + 7025615418697974 / 2 ^ 55) = Fin (6913926147939186 / 2 ^ 54)"
    by (rule to_f64_num) simp_all
  moreover have "to_f64 (88888888000000000 * (6913926147939186 / 2 ^ 54)) = Fin (8528888803600001 * 2 ^ 2)"
    by (rule to_f64_num_large) simp_all
  ultimately show ?thesis by (rule emission_steps) simp_all
qed

lemma emission_6: "emission 6 = Some 74937607757"
proof -
  have "to_f64 (of_nat (unat (6 :: u64))) = Fin 6"
    by (rule trans [OF to_f64_eval [where n = 6755399441055744 and k = 50]]) simp_all
  moreover have "to_f64 (6 * (7378697629483821 / 2 ^ 61)) = Fin (5534023222112866 / 2 ^ 58)"
    by (rule to_f64_num) simp_all
  moreover have "to_f64 (6629298651489370 / 2 ^ 58 + 5534023222112866 / 2 ^ 58) = Fin (6081660936801118 / 2 ^ 57)"
    by (rule to_f64_num) simp_all
  moreover have "to_f64 (6 * (6081660936801118 / 2 ^ 57)) = Fin (4561245702600838 / 2 ^ 54)"
    by (rule to_f64_num) simp_all
  moreover have "to_f64 (6802236877180397 / 2 ^ 55 + 4561245702600838 / 2 ^ 54) = Fin (7962364141191036 / 2 ^ 54)"
    by (rule to_f64_num) simp_all
  moreover have "to_f64 (88888888000000000 * (7962364141191036 / 2 ^ 54)) = Fin (4911111061999999 * 2 ^ 3)"
    by (rule to_f64_num_large) simp_all
  ultimately show ?thesis by (rule emission_steps) simp_all
qed

lemma emission_7: "emission 7 = Some 85890027352"
proof -
  have "to_f64 (of_nat (unat (7 :: u64))) = Fin 7"
    by (rule trans [OF to_f64_eval [where n = 7881299347898368 and k = 50]]) simp_all
  moreover have "to_f64 (7 * (7378697629483821 / 2 ^ 61)) = Fin (6456360425798343 / 2 ^ 58)"
    by (rule to_f64_num) simp_all
  moreover have "to_f64 (6629298651489370 / 2 ^ 58 + 6456360425798343 / 2 ^ 58) = Fin (6542829538643856 / 2 ^ 57)"
    by (rule to_f64_num) simp_all
  moreover have "to_f64 (7 * (6542829538643856 / 2 ^ 57)) = Fin (5724975846313374 / 2 ^ 54)"
    by (rule to_f64_num) simp_all
  moreover have "to_f64 (6802236877180397 / 2 ^ 55 + 5724975846313374 / 2 ^ 54) = Fin (4563047142451786 / 2 ^ 53)"
    by (rule to_f64_num) simp_all
  moreover have "to_f64 (88888888000000000 * (4563047142451786 / 2 ^ 53)) = Fin (5628888832599999 * 2 ^ 3)"
    by (rule to_f64_num_large) simp_all
  ultimately show ?thesis by (rule emission_steps) simp_all
qed

lemma emission_8: "emission 8 = Some 97927516381"
proof -
  have "to_f64 (of_nat (unat (8 :: u64))) = Fin 8"
    by (rule trans [OF to_f64_eval [where n = 4503599627370496 and k = 49]]) simp_all
  moreover have "to_f64 (8 * (7378697629483821 / 2 ^ 61)) = Fin (7378697629483821 / 2 ^ 58)"
    by (rule to_f64_num) simp_all
  moreover have "to_f64 (6629298651489370 / 2 ^ 58 + 7378697629483821 / 2 ^ 58) = Fin (7003998140486596 / 2 ^ 57)"
    by (rule to_f64_num) simp_all
  moreover have "to_f64 (8 * (7003998140486596 / 2 ^ 57)) = Fin (7003998140486596 / 2 ^ 54)"
    by (rule to_f64_num) simp_all
  moreover have "to_f64 (6802236877180397 / 2 ^ 55 + 7003998140486596 / 2 ^ 54) = Fin (5202558289538397 / 2 ^ 53)"
    by (rule to_f64_num) simp_all
  moreover have "to_f64 (88888888000000000 * (5202558289538397 / 2 ^ 53)) = Fin (6417777713600000 * 2 ^ 3)"
    by (rule to_f64_num_large) simp_all
  ultimately show ?thesis by (rule emission_steps) simp_all
qed

section \<open>The base reward\<close>

lemma emission_heights:
  "COIN_EMISSION_HEIGHT_INTERVAL = 65745" "PEAK_COIN_EMISSION_HEIGHT = 525960"
  by (simp_all add: COIN_EMISSION_HEIGHT_INTERVAL_def PEAK_COIN_EMISSION_HEIGHT_def trunc_def)

definition reward_table :: "nat list" where
  "reward_table = [32000000000, 36450000000, 41970000000, 48590000000, 56280000000,
     65070000000, 74930000000, 85890000000, 97920000000]"

lemma compute_base_reward_curve:
  assumes "0 < height" "unat height < 591705"
  shows "compute_base_reward generated height = Some (of_nat (reward_table ! (unat height div 65745)))"
proof -
  have lt: "height < PEAK_COIN_EMISSION_HEIGHT + COIN_EMISSION_HEIGHT_INTERVAL"
    using assms(2) by (simp add: emission_heights word_less_nat_alt)
  define i where "i = height div 65745"
  have ui: "unat i = unat height div 65745" by (simp add: i_def unat_div)
  moreover have "unat height div 65745 \<le> 8" using assms(2) by simp
  ultimately have "unat i \<le> 8" by simp
  then have "unat i = 0 \<or> unat i = 1 \<or> unat i = 2 \<or> unat i = 3 \<or> unat i = 4 \<or> unat i = 5 \<or>
      unat i = 6 \<or> unat i = 7 \<or> unat i = 8" by arith
  then have cases: "i = 0 \<or> i = 1 \<or> i = 2 \<or> i = 3 \<or> i = 4 \<or> i = 5 \<or> i = 6 \<or> i = 7 \<or> i = 8"
    by (simp add: word_unat_eq_iff)
  have b: "compute_base_reward generated height =
      map_option (\<lambda>b. (if b < FINAL_SUBSIDY
          then if generated < MONEY_SUPPLY then FINAL_SUBSIDY else FINAL_SUBSIDY div 2 else b)
        div 10000000 * 10000000) (emission i)"
    using assms(1) lt by (simp add: compute_base_reward_def emission_def i_def emission_heights Let_def)
  show ?thesis
    unfolding ui [symmetric] b
    using cases
    by (elim disjE; simp add: emission_0 emission_1 emission_2 emission_3 emission_4 emission_5
        emission_6 emission_7 emission_8 FINAL_SUBSIDY_def reward_table_def)
qed

lemma compute_base_reward_tail:
  assumes "591705 \<le> unat height" "unat generated \<le> 88888888000000000"
  shows "compute_base_reward generated height =
    Some (of_nat (let b = (88888888000000000 - unat generated) div 2 ^ 19
                  in (if b < 4000000000 then (if unat generated < 88888888000000000 then 4000000000 else 2000000000)
                      else b) div 10000000 * 10000000))"
proof -
  have h: "0 < height" "\<not> height < PEAK_COIN_EMISSION_HEIGHT + COIN_EMISSION_HEIGHT_INTERVAL"
    using assms(1) by (auto simp: emission_heights word_less_nat_alt)
  define d where "d = drop_bit EMISSION_SPEED_FACTOR (MONEY_SUPPLY - generated)"
  have d: "unat d = (88888888000000000 - unat generated) div 2 ^ 19"
    using assms(2) by (simp add: d_def EMISSION_SPEED_FACTOR_def unat_shr unat_sub word_le_nat_alt MONEY_SUPPLY_def)
  define r where "r = (if d < FINAL_SUBSIDY
      then if generated < MONEY_SUPPLY then FINAL_SUBSIDY else FINAL_SUBSIDY div 2 else d)"
  have r: "unat r = (if unat d < 4000000000 then (if unat generated < 88888888000000000 then 4000000000 else 2000000000)
      else unat d)"
    by (simp add: r_def word_less_nat_alt FINAL_SUBSIDY_def MONEY_SUPPLY_def)
  have "unat (r div 10000000 * 10000000) = unat r div 10000000 * 10000000"
  proof -
    have "unat r div 10000000 * 10000000 \<le> unat r" by simp
    then have "unat r div 10000000 * 10000000 < 2 ^ 64" using unat_u64_lt [of r] by simp
    then show ?thesis by (simp add: unat_mult_wrap unat_div)
  qed
  then have "r div 10000000 * 10000000 = of_nat (unat r div 10000000 * 10000000)" by (metis unat_inv)
  then show ?thesis
    using h by (simp only: compute_base_reward_def d_def [symmetric] r_def [symmetric] if_True if_False Let_def
        option.map r d)
qed

section \<open>The penalty\<close>

lemma penalty_le:
  fixes m c :: nat
  assumes "m \<le> c" "c \<le> 2 * m"
  shows "(2 * m - c) * c \<le> m * m" and "m < c \<Longrightarrow> (2 * m - c) * c < m * m"
proof -
  obtain d where d: "c = m + d" "d \<le> m" using assms by (metis le_add_diff_inverse mult_2 add_le_cancel_left)
  have e: "(2 * m - c) * c + d * d = m * m"
  proof -
    obtain f where f: "m = d + f" using d(2) le_iff_add by blast
    have "2 * m - c = f" using d f by simp
    then show ?thesis by (simp add: d f algebra_simps)
  qed
  show "(2 * m - c) * c \<le> m * m" using e by simp
  show "m < c \<Longrightarrow> (2 * m - c) * c < m * m"
  proof -
    assume "m < c"
    then have "0 < d * d" using d by simp
    with e show ?thesis by linarith
  qed
qed

lemma penalty_less:
  fixes m c :: nat
  assumes "0 < m" "m < c"
  shows "(2 * m - c) * c < m * m"
proof (cases "c \<le> 2 * m")
  case True
  then show ?thesis using penalty_le(2) [of m c] assms(2) by simp
qed (use assms in simp)

lemma div_square_less:
  fixes b p m :: nat
  assumes "0 < b" "0 < m" "p < m * m"
  shows "b * p div m div m < b"
proof -
  have "b * p < b * (m * m)" using assms by simp
  then have "b * p div (m * m) < b" using assms by (simp add: less_mult_imp_div_less mult.commute)
  then show ?thesis by (simp add: div_mult2_eq)
qed

definition full_reward_limit :: "nat \<Rightarrow> nat" where
  "full_reward_limit m = (if m < 983040 then m * 110 div 100 else m)"

lemma full_reward_limit_ge: "m \<le> full_reward_limit m"
proof -
  have "m * 100 \<le> m * 110" by simp
  then have "m * 100 div 100 \<le> m * 110 div 100" by (rule div_le_mono)
  then show ?thesis by (simp add: full_reward_limit_def)
qed

text \<open>The penalised reward, on words, is the quotient of the naturals.\<close>

lemma penalised_reward:
  fixes b m c :: u64
  assumes "0 < unat b" "unat m < 2 ^ 32" "unat m < unat c" "unat c \<le> 2 * unat m"
    and mul: "mul128 b ((2 * m - c) * c) = (lo, hi)"
    and div1: "div128_64 hi lo m = (h1, l1, x1, y1)" and div2: "div128_64 h1 l1 m = (h2, l2, x2, y2)"
  defines "r \<equiv> unat b * ((2 * unat m - unat c) * unat c) div unat m div unat m"
  shows "h2 = 0" "unat l2 = r" "r < unat b"
proof -
  have u2m: "unat (2 * m) = 2 * unat m" using assms(2) by (simp add: unat_mult_wrap)
  then have sub: "unat (2 * m - c) = 2 * unat m - unat c"
    using assms(4) by (simp add: unat_sub word_le_nat_alt)
  note pen = penalty_le [of "unat m" "unat c"]
  have "unat m * unat m \<le> (2 ^ 32 - 1) * (2 ^ 32 - 1)" using assms(2) by (intro mult_le_mono) auto
  then have "(2 * unat m - unat c) * unat c < 2 ^ 64" using pen(1) assms(3,4) by simp
  then have mult: "unat ((2 * m - c) * c) = (2 * unat m - unat c) * unat c"
    by (simp add: unat_mult_wrap sub)
  have p: "unat hi * 2 ^ 64 + unat lo = unat b * ((2 * unat m - unat c) * unat c)"
    using mul128_correct [of b "(2 * m - c) * c"] by (simp add: mul mult)
  have d: "unat h2 * 2 ^ 64 + unat l2 = r"
    using div128_64_correct(1) [OF div1] div128_64_correct(1) [OF div2] by (simp only: p r_def)
  show rb: "r < unat b"
    unfolding r_def using assms(1,3,4) pen(2) by (intro div_square_less) auto
  then have "unat h2 * 2 ^ 64 + unat l2 < 2 ^ 64" unfolding d using unat_u64_lt [of b] by simp
  then have "unat h2 = 0" by simp
  then show "h2 = 0" by (simp add: unat_eq_0)
  with d show "unat l2 = r" by simp
qed

lemma get_block_reward_value:
  assumes base: "compute_base_reward generated height = Some b" "0 < unat b"
    and M: "M = max (unat median_weight) 245760" "M < 2 ^ 32"
  shows "get_block_reward median_weight weight generated height =
    (if 2 * M < unat weight then Inl Block_too_big
     else if unat weight \<le> full_reward_limit M then Inr b
     else Inr (of_nat (unat b * ((2 * M - unat weight) * unat weight) div M div M)))"
proof -
  define m where "m = (if median_weight < CRYPTONOTE_BLOCK_GRANTED_FULL_REWARD_ZONE
      then CRYPTONOTE_BLOCK_GRANTED_FULL_REWARD_ZONE else median_weight)"
  have m: "unat m = M"
    by (simp add: m_def M(1) CRYPTONOTE_BLOCK_GRANTED_FULL_REWARD_ZONE_def word_less_nat_alt max_def)
  have too_big: "2 * m < weight \<longleftrightarrow> 2 * M < unat weight"
    using M(2) by (simp add: word_less_nat_alt unat_mult_wrap m)
  have full: "weight \<le> (if m < BLOCK_SIZE_GROWTH_FAVORED_ZONE then m * 110 div 100 else m) \<longleftrightarrow>
      unat weight \<le> full_reward_limit M"
    using M(2) by (auto simp: full_reward_limit_def word_le_nat_alt word_less_nat_alt unat_mult_wrap unat_div m
        BLOCK_SIZE_GROWTH_FAVORED_ZONE_def CRYPTONOTE_BLOCK_GRANTED_FULL_REWARD_ZONE_def)
  obtain lo hi where mul: "mul128 b ((2 * m - weight) * weight) = (lo, hi)" by force
  obtain h1 l1 x1 y1 where div1: "div128_64 hi lo m = (h1, l1, x1, y1)" by (metis prod_cases4)
  obtain h2 l2 x2 y2 where div2: "div128_64 h1 l1 m = (h2, l2, x2, y2)" by (metis prod_cases4)
  have g: "get_block_reward median_weight weight generated height =
      (if 2 * m < weight then Inl Block_too_big
       else if weight \<le> (if m < BLOCK_SIZE_GROWTH_FAVORED_ZONE then m * 110 div 100 else m) then Inr b
       else if h2 \<noteq> 0 then Inl Assertion_failed else if \<not> l2 < b then Inl Assertion_failed else Inr l2)"
    unfolding get_block_reward_def base(1) Let_def m_def [symmetric] option.case
    by (simp only: mul div1 div2 prod.case)
  show ?thesis
  proof (cases "2 * M < unat weight \<or> unat weight \<le> full_reward_limit M")
    case True
    then show ?thesis unfolding g too_big full by auto
  next
    case False
    then have "unat m < unat weight" "unat weight \<le> 2 * unat m"
      using full_reward_limit_ge [of M] by (simp_all add: m)
    note pen = penalised_reward [OF base(2) _ this mul div1 div2, unfolded m, OF M(2)]
    then have "l2 < b" "l2 = of_nat (unat b * ((2 * M - unat weight) * unat weight) div M div M)"
      by (simp_all add: word_less_nat_alt) (metis unat_inv)
    with False pen(1) show ?thesis unfolding g too_big full by simp
  qed
qed

section \<open>Coins generated\<close>

lemma add_generated_coins_value:
  assumes "unat generated \<le> 88888888000000000"
  shows "unat (add_generated_coins generated base) = min (unat generated + unat base) 88888888000000000"
proof -
  have s: "unat (MONEY_SUPPLY - generated) = 88888888000000000 - unat generated"
    using assms by (simp add: MONEY_SUPPLY_def unat_sub word_le_nat_alt)
  have c: "base < MONEY_SUPPLY - generated \<longleftrightarrow> unat base < 88888888000000000 - unat generated"
    by (simp only: word_less_nat_alt s)
  show ?thesis
  proof (cases "unat base < 88888888000000000 - unat generated")
    case True
    then have "unat (generated + base) = unat generated + unat base"
      using assms by (simp add: unat_add_wrap)
    with True show ?thesis by (simp add: add_generated_coins_def c)
  next
    case False
    then have "add_generated_coins generated base = MONEY_SUPPLY"
      unfolding add_generated_coins_def c by simp
    with False show ?thesis by (simp add: MONEY_SUPPLY_def)
  qed
qed

lemma compute_base_reward_pos:
  assumes "unat generated \<le> 88888888000000000"
  shows "\<exists>b. compute_base_reward generated height = Some b \<and> 2000000000 \<le> unat b \<and> unat b mod 10000000 = 0"
proof -
  consider "height = 0" | "0 < height" "unat height < 591705" | "591705 \<le> unat height"
    by (metis not_less word_gt_0)
  then show ?thesis
  proof cases
    case 1
    then show ?thesis by (simp add: compute_base_reward_def GENESIS_BLOCK_REWARD_def FINAL_SUBSIDY_def)
  next
    case 2
    define i where "i = unat height div 65745"
    have "i \<le> 8" using 2 by (simp add: i_def)
    then have "i = 0 \<or> i = 1 \<or> i = 2 \<or> i = 3 \<or> i = 4 \<or> i = 5 \<or> i = 6 \<or> i = 7 \<or> i = 8" by arith
    then show ?thesis
      unfolding compute_base_reward_curve [OF 2] i_def [symmetric]
      by (elim disjE; simp add: reward_table_def)
  next
    case 3
    define b where "b = (88888888000000000 - unat generated) div 2 ^ 19"
    define r where "r = (if b < 4000000000 then (if unat generated < 88888888000000000 then 4000000000 else 2000000000) else b)"
    have "b \<le> 88888888000000000" by (simp add: b_def div_le_dividend le_trans [OF div_le_dividend])
    then have r: "r \<le> 88888888000000000" "2000000000 \<le> r" by (auto simp: r_def)
    have q: "r div 10000000 * 10000000 \<le> r" "200 \<le> r div 10000000"
      using r(2) by simp_all
    have "compute_base_reward generated height = Some (of_nat (r div 10000000 * 10000000))"
      using compute_base_reward_tail [OF 3 assms] by (simp add: Let_def b_def r_def)
    moreover have "unat (of_nat (r div 10000000 * 10000000) :: u64) = r div 10000000 * 10000000"
      using q(1) r(1) by (intro unat_of_nat_u64) simp
    ultimately show ?thesis using q by (intro exI conjI) auto
  qed
qed

section \<open>Properties\<close>

text \<open>C12: for coins generated within the money supply and a median weight below \<open>2 ^ 32\<close>, the reward is
  defined and no assertion fails: a block more than twice as heavy as the (floored) median is
  refused, one within the allowance gets the base reward, and any other gets
  \<open>base * (2 m - w) * w / m / m\<close>, which is less than the base reward; the base reward is a positive multiple of
  \<open>10 ^ 7\<close> atomic units.\<close>

theorem get_block_reward_correct:
  assumes "unat generated \<le> 88888888000000000"
    and "M = max (unat median_weight) 245760" "M < 2 ^ 32"
  shows "\<exists>b. compute_base_reward generated height = Some b \<and> 2000000000 \<le> unat b \<and>
    unat b mod 10000000 = 0 \<and>
    get_block_reward median_weight weight generated height =
      (if 2 * M < unat weight then Inl Block_too_big
       else if unat weight \<le> full_reward_limit M then Inr b
       else Inr (of_nat (unat b * ((2 * M - unat weight) * unat weight) div M div M))) \<and>
    (full_reward_limit M < unat weight \<longrightarrow>
       unat b * ((2 * M - unat weight) * unat weight) div M div M < unat b)"
proof -
  obtain b where b: "compute_base_reward generated height = Some b" "2000000000 \<le> unat b"
    "unat b mod 10000000 = 0" using compute_base_reward_pos [OF assms(1), of height] by (elim exE conjE)
  have "0 < unat b" by (rule less_le_trans [OF _ b(2)]) simp
  note get_block_reward_value [OF b(1) this assms(2,3), of weight]
  moreover have "full_reward_limit M < unat weight \<longrightarrow>
      unat b * ((2 * M - unat weight) * unat weight) div M div M < unat b"
    using penalty_less [of M "unat weight"] full_reward_limit_ge [of M] \<open>0 < unat b\<close> assms(2)
    by (auto intro!: div_square_less)
  ultimately show ?thesis using b by (intro exI [of _ b] conjI)
qed

theorem get_block_reward_correct_witness:
  "\<exists>b. compute_base_reward 0 1 = Some b \<and> 2000000000 \<le> unat b \<and> unat b mod 10000000 = 0 \<and>
    get_block_reward 0 300000 0 1 = Inr (of_nat (unat b * ((2 * 245760 - 300000) * 300000) div 245760 div 245760)) \<and>
    unat b * ((2 * 245760 - 300000) * 300000) div 245760 div 245760 < unat b"
  using get_block_reward_correct [of 0 245760 0 1 300000] by (simp add: full_reward_limit_def)

text \<open>C13: during the first nine half-year intervals the base reward is the entry of a fixed table,
  whatever has been generated so far: the rounding of the \<open>double\<close> arithmetic is accounted for.\<close>

theorem base_reward_curve:
  assumes "0 < height" "unat height < 591705"
  shows "compute_base_reward generated height = Some (of_nat (reward_table ! (unat height div 65745)))"
  by (rule compute_base_reward_curve [OF assms])

theorem base_reward_curve_witness:
  "compute_base_reward 5 500000 = Some 85890000000"
  using base_reward_curve [of 500000 5] by (simp add: reward_table_def)

text \<open>C14: the count of generated coins never exceeds the money supply and otherwise grows by exactly
  the reward, so the subtraction from the money supply in the reward never wraps.\<close>

theorem generated_coins_capped:
  assumes "unat generated \<le> unat MONEY_SUPPLY"
  shows "unat (add_generated_coins generated base) = min (unat generated + unat base) (unat MONEY_SUPPLY)"
  using add_generated_coins_value [of generated base] assms by (simp add: MONEY_SUPPLY_def)

theorem generated_coins_capped_witness:
  "unat (add_generated_coins 88888887999999999 5) = 88888888000000000"
  using generated_coins_capped [of 88888887999999999 5] by (simp add: MONEY_SUPPLY_def)

end
