(* ===== verification/Hard_Fork.thy ===== *)
theory Hard_Fork
  imports Prelude "HOL-Library.Monad_Syntax"
begin

text \<open>
  The hard-fork schedule and vote counting of \<open>cryptonote_basic/hardfork.cpp\<close>, with the fork
  tables of \<open>hardforks/hardforks.cpp\<close>. The object is a record; a member function takes the
  object (and the database where it writes to it) and returns them updated. An exception, a
  failing \<open>assert\<close> and an access outside a container are \<open>None\<close>. The database is known
  only through the four operations of \<open>BlockchainDB\<close> the class calls, on the documented
  contents: the blocks by height and the fork version stored for a height. The lock and the
  database batch have no effect on the values.
\<close>

section \<open>Data\<close>

record hardfork_t =
  hf_version :: u8
  hf_height :: u64
  hf_threshold :: u8
  hf_time :: int

record hf_block =
  major_version :: u8
  minor_version :: u8

record blockchain_db =
  db_blocks :: "hf_block list"
  db_hf_versions :: "u64 \<rightharpoonup> u8"

definition db_height :: "blockchain_db \<Rightarrow> u64" where
  "db_height db = of_nat (length (db_blocks db))"

definition get_block_from_height :: "blockchain_db \<Rightarrow> u64 \<Rightarrow> hf_block option" where
  "get_block_from_height db h =
     (if unat h < length (db_blocks db) then Some (db_blocks db ! unat h) else None)"

definition get_hard_fork_version :: "blockchain_db \<Rightarrow> u64 \<Rightarrow> u8 option" where
  "get_hard_fork_version db h = db_hf_versions db h"

definition set_hard_fork_version :: "blockchain_db \<Rightarrow> u64 \<Rightarrow> u8 \<Rightarrow> blockchain_db" where
  "set_hard_fork_version db h v = db\<lparr>db_hf_versions := (db_hf_versions db)(h \<mapsto> v)\<rparr>"

record hard_fork =
  forked_time :: int
  update_time :: int
  window_size :: u64
  default_threshold_percent :: u8
  original_version :: u8
  original_version_till_height :: u64
  heights :: "hardfork_t list"
  versions :: "u8 list"
  last_versions :: "u8 \<Rightarrow> u32"
  current_fork_index :: nat

datatype hf_state = LikelyForked | UpdateNeeded | Ready

section \<open>Operations\<close>

definition get_block_vote :: "hf_block \<Rightarrow> u8" where
  "get_block_vote b = (if minor_version b = 0 then 1 else minor_version b)"

definition get_block_version :: "hf_block \<Rightarrow> u8" where
  "get_block_version b = major_version b"

text \<open>\<open>last_versions\<close> is not initialised by the constructor; the argument is what memory holds.\<close>

definition HardFork ::
  "(u8 \<Rightarrow> u32) \<Rightarrow> u8 \<Rightarrow> u64 \<Rightarrow> int \<Rightarrow> int \<Rightarrow> u64 \<Rightarrow> u8 \<Rightarrow> hard_fork option" where
  "HardFork garbage ov ovth ft ut ws dtp =
     (if ws = 0 then None
      else if 100 < dtp then None
      else Some \<lparr>forked_time = ft, update_time = ut, window_size = ws,
             default_threshold_percent = dtp, original_version = ov,
             original_version_till_height = ovth, heights = [], versions = [],
             last_versions = garbage, current_fork_index = 0\<rparr>)"

definition add_fork :: "hard_fork \<Rightarrow> u8 \<Rightarrow> u64 \<Rightarrow> u8 \<Rightarrow> int \<Rightarrow> bool \<times> hard_fork" where
  "add_fork hf version height threshold time =
     (if version = 0 then (False, hf)
      else if heights hf \<noteq> [] \<and>
              (version \<le> hf_version (last (heights hf)) \<or> height \<le> hf_height (last (heights hf)) \<or>
               time \<le> hf_time (last (heights hf))) then (False, hf)
      else if 100 < threshold then (False, hf)
      else (True, hf\<lparr>heights := heights hf @
             [\<lparr>hf_version = version, hf_height = height, hf_threshold = threshold, hf_time = time\<rparr>]\<rparr>))"

definition add_fork_default :: "hard_fork \<Rightarrow> u8 \<Rightarrow> u64 \<Rightarrow> int \<Rightarrow> bool \<times> hard_fork" where
  "add_fork_default hf version height time =
     add_fork hf version height (default_threshold_percent hf) time"

definition get_effective_version :: "hard_fork \<Rightarrow> u8 \<Rightarrow> u8" where
  "get_effective_version hf voting_version =
     (if heights hf \<noteq> [] then
        let max_version = hf_version (last (heights hf))
        in if max_version < voting_version then max_version else voting_version
      else voting_version)"

text \<open>An element of \<open>heights\<close>; outside the vector the access is undefined.\<close>

definition fork_at :: "hard_fork \<Rightarrow> nat \<Rightarrow> hardfork_t option" where
  "fork_at hf n = (if n < length (heights hf) then Some (heights hf ! n) else None)"

definition do_check :: "hard_fork \<Rightarrow> u8 \<Rightarrow> u8 \<Rightarrow> bool option" where
  "do_check hf block_version voting_version =
     do {
       f \<leftarrow> fork_at hf (current_fork_index hf);
       Some (block_version = hf_version f \<and> hf_version f \<le> voting_version)
     }"

definition check :: "hard_fork \<Rightarrow> hf_block \<Rightarrow> bool option" where
  "check hf block = do_check hf (get_block_version block) (get_block_vote block)"

fun voted_loop :: "hard_fork \<Rightarrow> u64 \<Rightarrow> nat \<Rightarrow> u32 \<Rightarrow> nat" where
  "voted_loop hf height 0 accumulated_votes = current_fork_index hf"
| "voted_loop hf height (Suc n) accumulated_votes =
     (let f = heights hf ! n;
          accumulated_votes = accumulated_votes + last_versions hf (hf_version f);
          threshold = ucast ((window_size hf * ucast (hf_threshold f) + 99) div 100)
      in if hf_height f \<le> height \<and> threshold \<le> accumulated_votes then n
         else voted_loop hf height n accumulated_votes)"

definition get_voted_fork_index :: "hard_fork \<Rightarrow> u64 \<Rightarrow> nat" where
  "get_voted_fork_index hf height = voted_loop hf height (length (heights hf)) 0"

definition do_check_for_height :: "hard_fork \<Rightarrow> u8 \<Rightarrow> u8 \<Rightarrow> u64 \<Rightarrow> bool option" where
  "do_check_for_height hf block_version voting_version height =
     do {
       f \<leftarrow> fork_at hf (get_voted_fork_index hf height);
       Some (block_version = hf_version f \<and> hf_version f \<le> voting_version)
     }"

definition check_for_height :: "hard_fork \<Rightarrow> hf_block \<Rightarrow> u64 \<Rightarrow> bool option" where
  "check_for_height hf block height =
     do_check_for_height hf (get_block_version block) (get_block_vote block) height"

text \<open>The loop that makes room in the window: drop from the front and forget the votes.\<close>

fun shrink_window :: "u64 \<Rightarrow> u8 list \<Rightarrow> (u8 \<Rightarrow> u32) \<Rightarrow> (u8 list \<times> (u8 \<Rightarrow> u32)) option" where
  "shrink_window ws [] lv = (if unat ws \<le> 0 then None else Some ([], lv))"
| "shrink_window ws (old_version # vs) lv =
     (if unat ws \<le> length (old_version # vs) then
        if \<not> 1 \<le> lv old_version then None
        else shrink_window ws vs (lv(old_version := lv old_version - 1))
      else Some (old_version # vs, lv))"

text \<open>The index voted for passes through a \<open>uint8_t\<close>.\<close>

definition raise_fork_index :: "hard_fork \<Rightarrow> u64 \<Rightarrow> hard_fork" where
  "raise_fork_index hf height =
     (let voted = get_voted_fork_index hf height mod 256
      in if current_fork_index hf < voted then hf\<lparr>current_fork_index := voted\<rparr> else hf)"

definition count_vote :: "hard_fork \<Rightarrow> u8 \<Rightarrow> hard_fork" where
  "count_vote hf v =
     hf\<lparr>last_versions := (last_versions hf)(v := last_versions hf v + 1), versions := versions hf @ [v]\<rparr>"

definition add :: "hard_fork \<Rightarrow> blockchain_db \<Rightarrow> u8 \<Rightarrow> u8 \<Rightarrow> u64 \<Rightarrow>
    (bool \<times> hard_fork \<times> blockchain_db) option" where
  "add hf db block_version voting_version height =
     do {
       ok \<leftarrow> do_check hf block_version voting_version;
       if \<not> ok then Some (False, hf, db)
       else do {
         f \<leftarrow> fork_at hf (current_fork_index hf);
         let db = set_hard_fork_version db height (hf_version f);
         let voting_version = get_effective_version hf voting_version;
         (vs, lv) \<leftarrow> shrink_window (window_size hf) (versions hf) (last_versions hf);
         let hf = hf\<lparr>versions := vs, last_versions := lv\<rparr>;
         let hf = count_vote hf voting_version;
         Some (True, raise_fork_index hf (height + 1), db)
       }
     }"

definition add_block :: "hard_fork \<Rightarrow> blockchain_db \<Rightarrow> hf_block \<Rightarrow> u64 \<Rightarrow>
    (bool \<times> hard_fork \<times> blockchain_db) option" where
  "add_block hf db block height = add hf db (get_block_version block) (get_block_vote block) height"

text \<open>Counting the votes of the blocks at the heights \<open>h\<close>, \<open>h + 1\<close>, ..., \<open>n\<close> of them.\<close>

fun count_blocks :: "hard_fork \<Rightarrow> blockchain_db \<Rightarrow> u64 \<Rightarrow> nat \<Rightarrow> hard_fork option" where
  "count_blocks hf db h 0 = Some hf"
| "count_blocks hf db h (Suc n) =
     do {
       b \<leftarrow> get_block_from_height db h;
       count_blocks (count_vote hf (get_effective_version hf (get_block_vote b))) db (h + 1) n
     }"

definition clear_votes :: "hard_fork \<Rightarrow> hard_fork" where
  "clear_votes hf = hf\<lparr>versions := [], last_versions := (\<lambda>_. 0)\<rparr>"

fun find_version :: "hardfork_t list \<Rightarrow> u8 \<Rightarrow> nat \<Rightarrow> nat" where
  "find_version [] lastv n = n"
| "find_version (f # fs) lastv n =
     (if fs \<noteq> [] \<and> hf_version f \<noteq> lastv then find_version fs lastv (n + 1) else n)"

definition rescan_from_block_height :: "hard_fork \<Rightarrow> blockchain_db \<Rightarrow> u64 \<Rightarrow> (bool \<times> hard_fork) option" where
  "rescan_from_block_height hf db height =
     (if db_height db \<le> height then Some (False, hf)
      else do {
        let hf = clear_votes hf;
        hf \<leftarrow> count_blocks hf db height (unat (db_height db) - unat height);
        lastv \<leftarrow> get_hard_fork_version db (db_height db - 1);
        let hf = hf\<lparr>current_fork_index := find_version (heights hf) lastv 0\<rparr>;
        Some (True, raise_fork_index hf (db_height db))
      })"

definition rescan_from_chain_height :: "hard_fork \<Rightarrow> blockchain_db \<Rightarrow> u64 \<Rightarrow> (bool \<times> hard_fork) option" where
  "rescan_from_chain_height hf db height =
     (if height = 0 then Some (False, hf) else rescan_from_block_height hf db (height - 1))"

definition init :: "hard_fork \<Rightarrow> blockchain_db \<Rightarrow> hard_fork option" where
  "init hf db =
     (let hf = (if heights hf = []
                then hf\<lparr>heights := [\<lparr>hf_version = original_version hf, hf_height = 0, hf_threshold = 0, hf_time = 0\<rparr>]\<rparr>
                else hf);
          hf = (clear_votes hf)\<lparr>current_fork_index := 0\<rparr>;
          height = db_height db;
          height = (if window_size hf < height then height - (window_size hf - 1) else 1)
      in map_option snd (rescan_from_chain_height hf db height))"

definition get_block_version_at :: "hard_fork \<Rightarrow> blockchain_db \<Rightarrow> u64 \<Rightarrow> u8 option" where
  "get_block_version_at hf db height =
     (if height \<le> original_version_till_height hf then Some (original_version hf)
      else map_option get_block_version (get_block_from_height db height))"

fun lower_fork_index :: "hardfork_t list \<Rightarrow> u8 \<Rightarrow> nat \<Rightarrow> nat" where
  "lower_fork_index hs start_version 0 = 0"
| "lower_fork_index hs start_version (Suc n) =
     (if start_version < hf_version (hs ! Suc n) then lower_fork_index hs start_version n else Suc n)"

fun add_blocks :: "hard_fork \<Rightarrow> blockchain_db \<Rightarrow> u64 \<Rightarrow> nat \<Rightarrow> (hard_fork \<times> blockchain_db) option" where
  "add_blocks hf db h 0 = Some (hf, db)"
| "add_blocks hf db h (Suc n) =
     do {
       b \<leftarrow> get_block_from_height db h;
       (_, hf, db) \<leftarrow> add_block hf db b h;
       add_blocks hf db (h + 1) n
     }"

definition reorganize_from_block_height :: "hard_fork \<Rightarrow> blockchain_db \<Rightarrow> u64 \<Rightarrow>
    (bool \<times> hard_fork \<times> blockchain_db) option" where
  "reorganize_from_block_height hf db height =
     (if db_height db \<le> height then Some (False, hf, db)
      else do {
        let hf = clear_votes hf;
        let rescan_height = (if window_size hf - 1 \<le> height then height - (window_size hf - 1) else 0);
        start_version \<leftarrow> (if height = 0 then Some (original_version hf) else get_hard_fork_version db height);
        let hf = hf\<lparr>current_fork_index := lower_fork_index (heights hf) start_version (current_fork_index hf)\<rparr>;
        hf \<leftarrow> count_blocks hf db rescan_height (unat height + 1 - unat rescan_height);
        let hf = raise_fork_index hf (height + 1);
        let bc_height = db_height db;
        (hf, db) \<leftarrow> add_blocks hf db (height + 1) (unat bc_height - (unat height + 1));
        Some (True, hf, db)
      })"

definition reorganize_from_chain_height :: "hard_fork \<Rightarrow> blockchain_db \<Rightarrow> u64 \<Rightarrow>
    (bool \<times> hard_fork \<times> blockchain_db) option" where
  "reorganize_from_chain_height hf db height =
     (if height = 0 then Some (False, hf, db) else reorganize_from_block_height hf db (height - 1))"

text \<open>
  The loop over the popped heights. The counter is unsigned: the loop is left only below
  \<open>new_chain_height\<close>, which it never gets when that is 0.
\<close>

partial_function (option) pop_loop :: "hard_fork \<Rightarrow> blockchain_db \<Rightarrow> u64 \<Rightarrow> u64 \<Rightarrow> hard_fork option" where
  "pop_loop hf db new_chain_height height =
     (if new_chain_height \<le> height then
        if versions hf = [] then None
        else
          let version = last (versions hf);
              lv = (last_versions hf)(version := last_versions hf version - 1);
              vs = butlast (versions hf)
          in case get_hard_fork_version db height of
               None \<Rightarrow> None
             | Some version \<Rightarrow>
                 pop_loop (hf\<lparr>versions := version # vs, last_versions := lv(version := lv version + 1)\<rparr>)
                   db new_chain_height (height - 1)
      else Some hf)"

fun scheduled_index :: "hardfork_t list \<Rightarrow> u64 \<Rightarrow> nat \<Rightarrow> nat" where
  "scheduled_index hs new_chain_height 0 = 0"
| "scheduled_index hs new_chain_height (Suc n) =
     (if hf_height (hs ! Suc n) \<le> new_chain_height then Suc n
      else scheduled_index hs new_chain_height n)"

definition on_block_popped :: "hard_fork \<Rightarrow> blockchain_db \<Rightarrow> u64 \<Rightarrow> hard_fork option" where
  "on_block_popped hf db nblocks =
     (if \<not> 0 < nblocks then None
      else if heights hf = [] then None
      else
        let new_chain_height = db_height db;
            old_chain_height = new_chain_height + nblocks
        in map_option
             (\<lambda>hf. hf\<lparr>current_fork_index :=
                        scheduled_index (heights hf) new_chain_height (length (heights hf) - 1)\<rparr>)
             (pop_loop hf db new_chain_height (old_chain_height - 1)))"

section \<open>Queries\<close>

definition get_state :: "hard_fork \<Rightarrow> int \<Rightarrow> hf_state" where
  "get_state hf t =
     (if length (heights hf) \<le> 1 then Ready
      else
        let t_last_fork = hf_time (last (heights hf))
        in if t_last_fork + forked_time hf \<le> t then LikelyForked
           else if t_last_fork + update_time hf \<le> t then UpdateNeeded
           else Ready)"

definition get_current_version :: "hard_fork \<Rightarrow> u8 option" where
  "get_current_version hf = map_option hf_version (fork_at hf (current_fork_index hf))"

definition get_fork_version :: "hard_fork \<Rightarrow> blockchain_db \<Rightarrow> u64 \<Rightarrow> u8 option" where
  "get_fork_version hf db height =
     (if db_height db < height then None
      else if height = db_height db then get_current_version hf
      else get_hard_fork_version db height)"

definition get_ideal_version_latest :: "hard_fork \<Rightarrow> u8 option" where
  "get_ideal_version_latest hf = (if heights hf = [] then None else Some (hf_version (last (heights hf))))"

fun ideal_loop :: "hardfork_t list \<Rightarrow> u64 \<Rightarrow> nat \<Rightarrow> u8 \<Rightarrow> u8" where
  "ideal_loop hs height 0 original = original"
| "ideal_loop hs height (Suc n) original =
     (if hf_height (hs ! Suc n) \<le> height then hf_version (hs ! Suc n)
      else ideal_loop hs height n original)"

text \<open>With an empty schedule the loop starts outside the vector.\<close>

definition get_ideal_version :: "hard_fork \<Rightarrow> u64 \<Rightarrow> u8 option" where
  "get_ideal_version hf height =
     (if heights hf = [] then None
      else Some (ideal_loop (heights hf) height (length (heights hf) - 1) (original_version hf)))"

fun earliest_loop :: "hardfork_t list \<Rightarrow> u8 \<Rightarrow> u64 \<Rightarrow> u64" where
  "earliest_loop [] version height = height"
| "earliest_loop (f # fs) version height =
     (if version \<le> hf_version f then earliest_loop fs version (hf_height f) else height)"

definition get_earliest_ideal_height_for_version :: "hard_fork \<Rightarrow> u8 \<Rightarrow> u64" where
  "get_earliest_ideal_height_for_version hf version = earliest_loop (rev (heights hf)) version (- 1)"

fun next_version_loop :: "hardfork_t list \<Rightarrow> u64 \<Rightarrow> u8 option \<Rightarrow> u8 \<Rightarrow> u8" where
  "next_version_loop [] height later original = original"
| "next_version_loop (f # fs) height later original =
     (if hf_height f \<le> height then (case later of None \<Rightarrow> hf_version f | Some v \<Rightarrow> v)
      else next_version_loop fs height (Some (hf_version f)) original)"

definition get_next_version :: "hard_fork \<Rightarrow> blockchain_db \<Rightarrow> u8" where
  "get_next_version hf db =
     next_version_loop (rev (heights hf)) (db_height db) None (original_version hf)"

record voting_info =
  vi_enabled :: bool
  vi_window :: u32
  vi_votes :: u32
  vi_threshold :: u32
  vi_earliest_height :: u64
  vi_voting :: u8

definition get_voting_info :: "hard_fork \<Rightarrow> u8 \<Rightarrow> voting_info option" where
  "get_voting_info hf version =
     do {
       f \<leftarrow> fork_at hf (current_fork_index hf);
       let enabled = version \<le> hf_version f;
       let window = of_nat (length (versions hf));
       let votes = fold (\<lambda>n votes. votes + last_versions hf (of_nat n)) [unat version..<256] 0;
       let threshold = (window * ucast (hf_threshold f) + 99) div 100;
       Some \<lparr>vi_enabled = enabled, vi_window = window, vi_votes = votes, vi_threshold = threshold,
         vi_earliest_height = get_earliest_ideal_height_for_version hf version,
         vi_voting = hf_version (last (heights hf))\<rparr>
     }"

section \<open>The schedules of the three networks\<close>

definition hardfork :: "u8 \<Rightarrow> u64 \<Rightarrow> u8 \<Rightarrow> int \<Rightarrow> hardfork_t" where
  "hardfork version height threshold time =
     \<lparr>hf_version = version, hf_height = height, hf_threshold = threshold, hf_time = time\<rparr>"

definition MAINNET_HARDFORK_V3_HEIGHT :: u64 where
  "MAINNET_HARDFORK_V3_HEIGHT = 116520"

definition MAINNET_HARDFORK_V6_HEIGHT :: u64 where
  "MAINNET_HARDFORK_V6_HEIGHT = 199800"

definition MAINNET_HARDFORK_V7_HEIGHT :: u64 where
  "MAINNET_HARDFORK_V7_HEIGHT = 274000"

definition MAINNET_HARDFORK_V8_HEIGHT :: u64 where
  "MAINNET_HARDFORK_V8_HEIGHT = MAINNET_HARDFORK_V7_HEIGHT + 360"

definition mainnet_hard_forks :: "hardfork_t list" where
  "mainnet_hard_forks =
     [hardfork 1 1 0 1482806500,
      hardfork 2 21300 0 1497657600,
      hardfork 3 MAINNET_HARDFORK_V3_HEIGHT 0 1522800000,
      hardfork 4 137500 0 1528045200,
      hardfork 5 165000 0 1529643600,
      hardfork 6 MAINNET_HARDFORK_V6_HEIGHT 0 1537065522,
      hardfork 7 MAINNET_HARDFORK_V7_HEIGHT 0 1555234940,
      hardfork 8 MAINNET_HARDFORK_V8_HEIGHT 0 1555321375,
      hardfork 9 350000 0 1574120819,
      hardfork 10 502257 0 1610700171,
      hardfork 11 502617 0 1610786571]"

definition testnet_hard_forks :: "hardfork_t list" where
  "testnet_hard_forks =
     [hardfork 1 1 0 1482806500,
      hardfork 2 5150 0 1497181713,
      hardfork 3 103580 0 1522540800,
      hardfork 4 122452 0 1527699600,
      hardfork 5 128680 0 1529308166,
      hardfork 6 130500 0 1554265083,
      hardfork 7 130530 0 1554465078,
      hardfork 8 130560 0 1554479506,
      hardfork 9 164100 0 1572592223,
      hardfork 10 231580 0 1603158050,
      hardfork 11 233500 0 1603638050]"

definition stagenet_hard_forks :: "hardfork_t list" where
  "stagenet_hard_forks =
     [hardfork 1 1 0 1482806500,
      hardfork 2 5150 0 1497181713,
      hardfork 3 103580 0 1522540800,
      hardfork 4 122452 0 1527699600,
      hardfork 5 128680 0 1529308166,
      hardfork 6 130500 0 1554265083,
      hardfork 7 130530 0 1554465078,
      hardfork 8 130560 0 1554479506,
      hardfork 9 164100 0 1572592223,
      hardfork 10 231580 0 1603158050,
      hardfork 11 233500 0 1603638050]"

text \<open>The loop of \<open>Blockchain::init\<close> over a table; it ignores what \<open>add_fork\<close> returns.\<close>

definition add_fork_table :: "hard_fork \<Rightarrow> hardfork_t list \<Rightarrow> hard_fork" where
  "add_fork_table hf table =
     fold (\<lambda>f hf. snd (add_fork hf (hf_version f) (hf_height f) (hf_threshold f) (hf_time f))) table hf"

section \<open>The votes counted are the votes in the window\<close>

definition counted :: "u8 list \<Rightarrow> (u8 \<Rightarrow> u32) \<Rightarrow> bool" where
  "counted vs lv \<longleftrightarrow> (\<forall>v. unat (lv v) = count_list vs v)"

lemma counted_empty [simp]: "counted [] (\<lambda>_. 0)"
  by (simp add: counted_def)

lemma counted_dec:
  assumes "counted (v # vs) lv"
  shows "1 \<le> lv v" "counted vs (lv(v := lv v - 1))"
proof -
  have v: "unat (lv v) = count_list vs v + 1" using assms by (simp add: counted_def)
  then show "1 \<le> lv v" by (simp add: word_le_nat_alt)
  then have "unat (lv v - 1) = count_list vs v" using v by (simp add: unat_sub)
  moreover have "unat (lv w) = count_list vs w" if "w \<noteq> v" for w
    using assms that by (auto simp: counted_def split: if_splits)
  ultimately show "counted vs (lv(v := lv v - 1))" by (simp add: counted_def)
qed

lemma count_list_snoc: "count_list (vs @ [v]) w = count_list vs w + (if v = w then 1 else 0)"
  by (induction vs) auto

lemma counted_inc:
  assumes "counted vs lv" "length vs < 2 ^ 32 - 1"
  shows "counted (vs @ [v]) (lv(v := lv v + 1))"
proof -
  have "count_list vs v \<le> length vs" by (rule count_le_length)
  then have "unat (lv v + 1) = count_list vs v + 1"
    using assms by (simp add: counted_def unat_add_wrap)
  then show ?thesis using assms(1) by (simp add: counted_def count_list_snoc)
qed

lemma counted_rotate: "counted (vs @ [v]) lv \<longleftrightarrow> counted (v # vs) lv"
  by (simp add: counted_def count_list_snoc)

lemma shrink_window_counted:
  assumes "counted vs lv" "0 < unat ws"
  shows "\<exists>lv'. shrink_window ws vs lv = Some (drop (length vs + 1 - unat ws) vs, lv') \<and>
    counted (drop (length vs + 1 - unat ws) vs) lv'"
  using assms
proof (induction vs arbitrary: lv)
  case (Cons v vs)
  note dec = counted_dec [OF Cons.prems(1)]
  show ?case
  proof (cases "unat ws \<le> length (v # vs)")
    case True
    then have "length (v # vs) + 1 - unat ws = Suc (length vs + 1 - unat ws)" by simp
    with Cons.IH [OF dec(2) Cons.prems(2)] dec(1) True show ?thesis by (simp add: fun_upd_def)
  next
    case False
    with Cons.prems show ?thesis by simp
  qed
qed simp

section \<open>The well-formedness invariant\<close>

definition fork_before :: "hardfork_t \<Rightarrow> hardfork_t \<Rightarrow> bool" where
  "fork_before f g \<longleftrightarrow> hf_version f < hf_version g \<and> hf_height f < hf_height g \<and> hf_time f < hf_time g"

definition schedule_ok :: "hardfork_t list \<Rightarrow> bool" where
  "schedule_ok hs \<longleftrightarrow> sorted_wrt fork_before hs \<and> (\<forall>f \<in> set hs. hf_threshold f \<le> 100)"

text \<open>
  What holds between any two calls once \<open>init\<close> has run: the schedule is strictly increasing,
  the current fork exists, the window is no longer than asked for and the counters are its
  histogram. The window size is limited to what the 32 bit counters can hold.
\<close>

definition hf_wf :: "hard_fork \<Rightarrow> bool" where
  "hf_wf hf \<longleftrightarrow>
     schedule_ok (heights hf) \<and> current_fork_index hf < length (heights hf) \<and>
     0 < unat (window_size hf) \<and> unat (window_size hf) < 2 ^ 32 \<and>
     length (versions hf) \<le> unat (window_size hf) \<and> counted (versions hf) (last_versions hf)"

lemma add_fork_schedule:
  assumes "schedule_ok (heights hf)"
  shows "schedule_ok (heights (snd (add_fork hf v h t tm)))"
proof (cases "fst (add_fork hf v h t tm)")
  case True
  then have new: "heights (snd (add_fork hf v h t tm)) = heights hf @
      [\<lparr>hf_version = v, hf_height = h, hf_threshold = t, hf_time = tm\<rparr>]"
    and t: "t \<le> 100" and bound: "heights hf \<noteq> [] \<Longrightarrow> hf_version (last (heights hf)) < v \<and>
      hf_height (last (heights hf)) < h \<and> hf_time (last (heights hf)) < tm"
    by (auto simp: add_fork_def not_le split: if_splits)
  have "fork_before f \<lparr>hf_version = v, hf_height = h, hf_threshold = t, hf_time = tm\<rparr>"
    if f: "f \<in> set (heights hf)" for f
  proof -
    have ne: "heights hf \<noteq> []" using f by auto
    have "sorted_wrt fork_before (butlast (heights hf) @ [last (heights hf)])"
      using assms ne by (simp add: schedule_ok_def)
    then have "f = last (heights hf) \<or> fork_before f (last (heights hf))"
      using f ne by (metis Un_iff append_butlast_last_id empty_iff insert_iff list.set(1) list.simps(15) set_append sorted_wrt_append)
    then show ?thesis using bound [OF ne] by (auto simp: fork_before_def)
  qed
  then show ?thesis using assms t by (simp add: schedule_ok_def new sorted_wrt_append)
next
  case False
  then have "snd (add_fork hf v h t tm) = hf" by (auto simp: add_fork_def split: if_splits)
  then show ?thesis using assms by simp
qed

lemma schedule_distinct:
  assumes "schedule_ok hs"
  shows "distinct (map hf_version hs)"
proof -
  have "sorted_wrt (<) (map hf_version hs)"
    using assms by (auto simp: schedule_ok_def sorted_wrt_map fork_before_def elim: sorted_wrt_mono_rel [rotated])
  then show ?thesis by (simp add: strict_sorted_iff)
qed

lemma schedule_length:
  assumes "schedule_ok hs"
  shows "length hs \<le> 256"
proof -
  have "length hs = card (set (map hf_version hs))"
    using distinct_card [OF schedule_distinct [OF assms]] by simp
  also have "\<dots> \<le> card (UNIV :: u8 set)" by (intro card_mono) simp_all
  finally show ?thesis by (simp add: card_word)
qed

section \<open>The fork voted for\<close>

lemma voted_loop_less:
  assumes "current_fork_index hf < length (heights hf)" "n \<le> length (heights hf)"
  shows "voted_loop hf h n acc < length (heights hf)"
  using assms by (induction n arbitrary: acc) (simp_all add: Let_def)

lemma voted_less: "hf_wf hf \<Longrightarrow> get_voted_fork_index hf h < length (heights hf)"
  by (simp add: hf_wf_def get_voted_fork_index_def voted_loop_less)

lemma raise_fork_index_eq:
  assumes "hf_wf hf"
  shows "raise_fork_index hf h =
    hf\<lparr>current_fork_index := max (current_fork_index hf) (get_voted_fork_index hf h)\<rparr>"
proof -
  have "get_voted_fork_index hf h < 256"
    using voted_less [OF assms, of h] schedule_length [of "heights hf"] assms by (simp add: hf_wf_def)
  then show ?thesis by (simp add: raise_fork_index_def Let_def max_def)
qed

lemma raise_fork_index_wf:
  assumes "hf_wf hf"
  shows "hf_wf (raise_fork_index hf h)"
  using assms voted_less [OF assms, of h] by (simp add: raise_fork_index_eq hf_wf_def)

text \<open>
  A fork is eligible at a height when the height has reached it and enough blocks of the window
  vote for it or a later one; the loop finds the last eligible fork.
\<close>

definition votes_from :: "hard_fork \<Rightarrow> nat \<Rightarrow> nat" where
  "votes_from hf n = sum_list (map (\<lambda>f. count_list (versions hf) (hf_version f)) (drop n (heights hf)))"

definition eligible :: "hard_fork \<Rightarrow> u64 \<Rightarrow> nat \<Rightarrow> bool" where
  "eligible hf h n \<longleftrightarrow>
     n < length (heights hf) \<and> hf_height (heights hf ! n) \<le> h \<and>
     (unat (window_size hf) * unat (hf_threshold (heights hf ! n)) + 99) div 100 \<le> votes_from hf n"

lemma sum_count_list_le:
  assumes "distinct xs"
  shows "sum_list (map (count_list vs) xs) \<le> length vs"
proof -
  have "sum_list (map (count_list vs) xs) = sum (count_list vs) (set xs)"
    using assms by (simp add: sum_list_distinct_conv_sum_set)
  also have "\<dots> \<le> sum (count_list vs) (set xs \<union> set vs)" by (intro sum_mono2) auto
  also have "\<dots> = length vs"
    by (subst sum_count_set [of vs "set xs \<union> set vs"]) auto
  finally show ?thesis .
qed

lemma votes_from_le:
  assumes "schedule_ok (heights hf)"
  shows "votes_from hf n \<le> length (versions hf)"
proof -
  have "distinct (map hf_version (drop n (heights hf)))"
    using schedule_distinct [OF assms] by (metis distinct_drop drop_map)
  then show ?thesis
    using sum_count_list_le [of "map hf_version (drop n (heights hf))" "versions hf"]
    by (simp add: votes_from_def comp_def)
qed

lemma votes_from_step:
  "n < length (heights hf) \<Longrightarrow>
   votes_from hf n = count_list (versions hf) (hf_version (heights hf ! n)) + votes_from hf (Suc n)"
  by (simp add: votes_from_def Cons_nth_drop_Suc [symmetric])

lemma threshold_word:
  fixes t :: u8
  assumes "unat ws < 2 ^ 32" "t \<le> 100"
  shows "unat (ucast ((ws * ucast t + 99) div 100 :: u64) :: u32) = (unat ws * unat t + 99) div 100"
proof -
  have t: "unat t \<le> 100" using assms(2) by (simp add: word_le_nat_alt)
  then have p: "unat ws * unat t \<le> (2 ^ 32 - 1) * 100" using assms(1) by (intro mult_le_mono) auto
  have "unat (ucast t :: u64) = unat t" by simp
  with p have "unat (ws * ucast t + 99 :: u64) = unat ws * unat t + 99"
    by (simp add: unat_add_wrap unat_mult_wrap)
  then have "unat ((ws * ucast t + 99) div 100 :: u64) = (unat ws * unat t + 99) div 100"
    by (simp add: unat_div)
  moreover have "(unat ws * unat t + 99) div 100 < 2 ^ 32"
    using p by (simp add: less_mult_imp_div_less)
  ultimately show ?thesis by (simp add: unat_ucast_wrap)
qed

lemma voted_loop_spec:
  assumes wf: "hf_wf hf" and "n \<le> length (heights hf)" "unat acc = votes_from hf n"
  shows "voted_loop hf h n acc =
    (if \<exists>m < n. eligible hf h m then GREATEST m. m < n \<and> eligible hf h m else current_fork_index hf)"
  using assms(2,3)
proof (induction n arbitrary: acc)
  case (Suc n)
  define f where "f = heights hf ! n"
  have n: "n < length (heights hf)" using Suc.prems by simp
  have cnt: "unat (last_versions hf v) = count_list (versions hf) v" for v
    using wf by (simp add: hf_wf_def counted_def)
  have acc': "unat (acc + last_versions hf (hf_version f)) = votes_from hf n"
  proof -
    have "votes_from hf n \<le> length (versions hf)" using wf by (simp add: hf_wf_def votes_from_le)
    then have "votes_from hf n < 2 ^ 32" using wf by (simp add: hf_wf_def)
    then show ?thesis
      using Suc.prems(2) votes_from_step [OF n] by (simp add: unat_add_wrap cnt f_def)
  qed
  have "hf_threshold f \<le> 100" using wf n by (simp add: hf_wf_def schedule_ok_def f_def)
  then have thr: "unat (ucast ((window_size hf * ucast (hf_threshold f) + 99) div 100 :: u64) :: u32) =
      (unat (window_size hf) * unat (hf_threshold f) + 99) div 100"
    using wf by (intro threshold_word) (simp_all add: hf_wf_def)
  have el: "hf_height f \<le> h \<and> ucast ((window_size hf * ucast (hf_threshold f) + 99) div 100 :: u64) \<le>
      acc + last_versions hf (hf_version f) \<longleftrightarrow> eligible hf h n"
    unfolding word_le_nat_alt [where 'a=32] thr acc' using n by (simp add: eligible_def f_def)
  show ?case
  proof (cases "eligible hf h n")
    case True
    then have "(GREATEST m. m < Suc n \<and> eligible hf h m) = n"
      by (intro Greatest_equality) auto
    then show ?thesis using True el by (auto simp: f_def Let_def)
  next
    case False
    then have "m < Suc n \<and> eligible hf h m \<longleftrightarrow> m < n \<and> eligible hf h m" for m
      by (auto simp: less_Suc_eq)
    then show ?thesis using False el Suc.IH [OF _ acc'] n by (auto simp: f_def Let_def)
  qed
qed simp

lemma get_voted_fork_index_value:
  assumes "hf_wf hf"
  shows "get_voted_fork_index hf h =
    (if \<exists>n. eligible hf h n then GREATEST n. eligible hf h n else current_fork_index hf)"
proof -
  have "eligible hf h n \<longleftrightarrow> n < length (heights hf) \<and> eligible hf h n" for n
    by (auto simp: eligible_def)
  then show ?thesis
    using voted_loop_spec [OF assms order_refl, of 0 h]
    by (auto simp: get_voted_fork_index_def votes_from_def)
qed

section \<open>Adding blocks\<close>

text \<open>An accepted block: the vote joins the shrunk window, then the fork index may rise.\<close>

lemma add_accepted:
  assumes wf: "hf_wf hf"
  defines "f \<equiv> heights hf ! current_fork_index hf"
  assumes ok: "bv = hf_version f" "hf_version f \<le> vv"
  shows "\<exists>hf1. add hf db bv vv h = Some (True, raise_fork_index hf1 (h + 1), set_hard_fork_version db h (hf_version f)) \<and>
    hf_wf hf1 \<and> heights hf1 = heights hf \<and> window_size hf1 = window_size hf \<and>
    current_fork_index hf1 = current_fork_index hf \<and>
    versions hf1 = drop (length (versions hf) + 1 - unat (window_size hf))
      (versions hf @ [get_effective_version hf vv])"
proof -
  have at: "fork_at hf (current_fork_index hf) = Some f"
    using wf by (simp add: fork_at_def hf_wf_def f_def)
  define k where "k = length (versions hf) + 1 - unat (window_size hf)"
  obtain lv where sh: "shrink_window (window_size hf) (versions hf) (last_versions hf) =
      Some (drop k (versions hf), lv)" and cnt: "counted (drop k (versions hf)) lv"
    using shrink_window_counted [of "versions hf" "last_versions hf" "window_size hf"] wf
    by (auto simp: hf_wf_def k_def)
  define v where "v = get_effective_version hf vv"
  define hf1 where "hf1 = count_vote (hf\<lparr>versions := drop k (versions hf), last_versions := lv\<rparr>) v"
  have len: "length (drop k (versions hf)) < unat (window_size hf)"
    using wf by (auto simp: hf_wf_def k_def)
  then have "counted (drop k (versions hf) @ [v]) (lv(v := lv v + 1))"
    using wf by (intro counted_inc [OF cnt]) (simp add: hf_wf_def)
  then have wf1: "hf_wf hf1"
    using wf len by (simp add: hf_wf_def hf1_def count_vote_def)
  have "add hf db bv vv h = Some (True, raise_fork_index hf1 (h + 1), set_hard_fork_version db h (hf_version f))"
    using ok by (simp add: add_def do_check_def at sh hf1_def v_def)
  moreover have "versions hf1 = drop k (versions hf @ [v])"
    using wf by (auto simp: hf1_def count_vote_def k_def hf_wf_def)
  moreover have "heights hf1 = heights hf" "window_size hf1 = window_size hf" "current_fork_index hf1 = current_fork_index hf"
    by (simp_all add: hf1_def count_vote_def)
  ultimately show ?thesis using wf1 by (auto simp: k_def v_def)
qed

lemma add_wf:
  assumes wf: "hf_wf hf"
  defines "f \<equiv> heights hf ! current_fork_index hf"
  shows "\<exists>hf' db'. add hf db bv vv h =
      Some (bv = hf_version f \<and> hf_version f \<le> vv, hf', db') \<and>
      hf_wf hf' \<and> heights hf' = heights hf \<and> window_size hf' = window_size hf \<and>
      current_fork_index hf \<le> current_fork_index hf' \<and>
      (if bv = hf_version f \<and> hf_version f \<le> vv
       then versions hf' = drop (length (versions hf) + 1 - unat (window_size hf))
              (versions hf @ [get_effective_version hf vv]) \<and>
            db' = set_hard_fork_version db h (hf_version f)
       else hf' = hf \<and> db' = db)"
proof (cases "bv = hf_version f \<and> hf_version f \<le> vv")
  case False
  then show ?thesis
    using wf by (auto simp: add_def do_check_def fork_at_def hf_wf_def f_def)
next
  case True
  with add_accepted [OF wf, of bv vv db h] obtain hf1 where a:
    "add hf db bv vv h = Some (True, raise_fork_index hf1 (h + 1), set_hard_fork_version db h (hf_version f))"
    "hf_wf hf1" "heights hf1 = heights hf" "window_size hf1 = window_size hf"
    "current_fork_index hf1 = current_fork_index hf"
    "versions hf1 = drop (length (versions hf) + 1 - unat (window_size hf))
      (versions hf @ [get_effective_version hf vv])" by (auto simp: f_def)
  then show ?thesis
    using True raise_fork_index_wf [OF a(2)] by (simp add: raise_fork_index_eq [OF a(2)])
qed

section \<open>Counting the blocks of the chain\<close>

text \<open>The vote the window records for a block.\<close>

definition vote_of :: "hardfork_t list \<Rightarrow> hf_block \<Rightarrow> u8" where
  "vote_of hs b = (if hs = [] then get_block_vote b else min (hf_version (last hs)) (get_block_vote b))"

lemma effective_vote: "get_effective_version hf (get_block_vote b) = vote_of (heights hf) b"
  by (auto simp: get_effective_version_def vote_of_def Let_def min_def less_imp_le)

lemma count_blocks_votes:
  assumes "counted (versions hf) (last_versions hf)" "unat h + n \<le> length (db_blocks db)"
    "length (db_blocks db) < 2 ^ 64" "length (versions hf) + n < 2 ^ 32"
  shows "\<exists>lv. count_blocks hf db h n = Some (hf\<lparr>versions := versions hf @
      map (vote_of (heights hf)) (take n (drop (unat h) (db_blocks db))), last_versions := lv\<rparr>) \<and>
    counted (versions hf @ map (vote_of (heights hf)) (take n (drop (unat h) (db_blocks db)))) lv"
  using assms
proof (induction n arbitrary: hf h)
  case 0
  then show ?case by (intro exI [of _ "last_versions hf"]) simp
next
  case (Suc n)
  define b where "b = db_blocks db ! unat h"
  define v where "v = vote_of (heights hf) b"
  define hf1 where "hf1 = count_vote hf v"
  have h: "unat h < length (db_blocks db)" using Suc.prems(2) by simp
  then have h1: "unat (h + 1) = Suc (unat h)" using Suc.prems(3) by (simp add: unat_add_wrap)
  have c: "counted (versions hf1) (last_versions hf1)"
    unfolding hf1_def count_vote_def using Suc.prems(1,4) by (simp add: counted_inc)
  have step: "count_blocks hf db h (Suc n) = count_blocks hf1 db (h + 1) n"
    using h by (simp add: get_block_from_height_def effective_vote b_def [symmetric] v_def [symmetric] hf1_def)
  have d: "take (Suc n) (drop (unat h) (db_blocks db)) = b # take n (drop (unat (h + 1)) (db_blocks db))"
    using h unfolding h1 b_def by (simp add: Cons_nth_drop_Suc [symmetric])
  have hf1: "versions hf1 = versions hf @ [v]" "heights hf1 = heights hf"
    "hf1\<lparr>versions := xs, last_versions := l\<rparr> = hf\<lparr>versions := xs, last_versions := l\<rparr>" for xs l
    by (simp_all add: hf1_def count_vote_def)
  obtain lv where "count_blocks hf1 db (h + 1) n = Some (hf1\<lparr>versions := versions hf1 @
      map (vote_of (heights hf1)) (take n (drop (unat (h + 1)) (db_blocks db))), last_versions := lv\<rparr>)"
    "counted (versions hf1 @ map (vote_of (heights hf1)) (take n (drop (unat (h + 1)) (db_blocks db)))) lv"
    using Suc.IH [OF c, of "h + 1"] Suc.prems h1 by (auto simp: hf1(1))
  then show ?case unfolding step d using hf1 by (auto simp: v_def)
qed

lemma clear_votes_simps [simp]:
  "versions (clear_votes hf) = []" "last_versions (clear_votes hf) = (\<lambda>_. 0)"
  "heights (clear_votes hf) = heights hf" "window_size (clear_votes hf) = window_size hf"
  "original_version (clear_votes hf) = original_version hf"
  "current_fork_index (clear_votes hf) = current_fork_index hf"
  by (simp_all add: clear_votes_def)

lemma find_version_less: "hs \<noteq> [] \<Longrightarrow> find_version hs v n < n + length hs"
proof (induction hs arbitrary: n)
  case (Cons f hs)
  show ?case
  proof (cases "hs \<noteq> [] \<and> hf_version f \<noteq> v")
    case True
    with Cons.IH [of "n + 1"] show ?thesis by simp
  qed auto
qed simp

lemma lower_fork_index_le: "lower_fork_index hs v n \<le> n"
  by (induction n) auto

lemma scheduled_index_le: "scheduled_index hs h n \<le> n"
  by (induction n) auto

text \<open>The part of the invariant that does not depend on the votes.\<close>

definition hf_config :: "hard_fork \<Rightarrow> bool" where
  "hf_config hf \<longleftrightarrow> schedule_ok (heights hf) \<and> heights hf \<noteq> [] \<and>
     0 < unat (window_size hf) \<and> unat (window_size hf) < 2 ^ 32"

lemma hf_wf_config: "hf_wf hf \<Longrightarrow> hf_config hf"
  by (auto simp: hf_wf_def hf_config_def)

lemma rescan_votes:
  assumes cfg: "hf_config hf" and db: "length (db_blocks db) < 2 ^ 64" "unat h < length (db_blocks db)"
    "length (db_blocks db) - unat h \<le> unat (window_size hf)"
    and lastv: "get_hard_fork_version db (db_height db - 1) = Some lastv"
  shows "\<exists>hf'. rescan_from_block_height hf db h = Some (True, hf') \<and> hf_wf hf' \<and>
    heights hf' = heights hf \<and> window_size hf' = window_size hf \<and>
    versions hf' = map (vote_of (heights hf)) (drop (unat h) (db_blocks db))"
proof -
  have H: "unat (db_height db) = length (db_blocks db)" using db(1) by (simp add: db_height_def unat_of_nat_u64)
  define n where "n = unat (db_height db) - unat h"
  define vs where "vs = map (vote_of (heights hf)) (drop (unat h) (db_blocks db))"
  have n: "unat h + n \<le> length (db_blocks db)" "n \<le> unat (window_size hf)" "n < 2 ^ 32"
    "n = length (db_blocks db) - unat h"
    using db cfg by (simp_all add: n_def H hf_config_def)
  then obtain lv where cb: "count_blocks (clear_votes hf) db h n = Some ((clear_votes hf)\<lparr>versions := vs, last_versions := lv\<rparr>)"
    and c: "counted vs lv"
    using count_blocks_votes [of "clear_votes hf" h n db] db(1) by (auto simp: vs_def)
  define hf1 where "hf1 = (clear_votes hf)\<lparr>versions := vs, last_versions := lv, current_fork_index := find_version (heights hf) lastv 0\<rparr>"
  have wf1: "hf_wf hf1"
    using cfg n(2,4) c find_version_less [of "heights hf" lastv 0]
    by (simp add: hf_wf_def hf1_def hf_config_def vs_def)
  have "\<not> db_height db \<le> h" using db(2) H by (simp add: word_le_nat_alt)
  then have "rescan_from_block_height hf db h = Some (True, raise_fork_index hf1 (db_height db))"
    using cb lastv by (simp add: rescan_from_block_height_def n_def hf1_def)
  then show ?thesis
    using raise_fork_index_wf [OF wf1]
    by (simp add: raise_fork_index_eq [OF wf1]) (simp add: hf1_def vs_def)
qed

text \<open>\<open>init\<close> starts the scan \<open>window_size\<close> blocks below the top.\<close>

lemma init_start_height:
  assumes db: "length (db_blocks db) < 2 ^ 64" and W: "0 < unat ws"
  defines "h \<equiv> (if ws < db_height db then db_height db - (ws - 1) else 1)"
  shows "unat (h - 1) = length (db_blocks db) - unat ws" "h \<noteq> 0"
proof -
  have H: "unat (db_height db) = length (db_blocks db)" using db by (simp add: db_height_def unat_of_nat_u64)
  have uh: "unat h = Suc (length (db_blocks db) - unat ws)"
  proof (cases "ws < db_height db")
    case True
    have "unat (ws - 1) = unat ws - 1"
      using W by (subst unat_sub) (simp_all add: word_le_nat_alt)
    moreover have "unat (db_height db - (ws - 1)) = unat (db_height db) - unat (ws - 1)"
      using True calculation by (subst unat_sub) (simp_all add: word_le_nat_alt word_less_nat_alt)
    ultimately show ?thesis using True W by (simp add: h_def H word_less_nat_alt)
  next
    case False
    then show ?thesis by (simp add: h_def H word_less_nat_alt)
  qed
  then show "h \<noteq> 0" by auto
  show "unat (h - 1) = length (db_blocks db) - unat ws"
    using uh by (subst unat_sub) (simp_all add: word_le_nat_alt)
qed

lemma init_rescan:
  assumes "hf_config hf"
  shows "init hf db = map_option snd (rescan_from_chain_height ((clear_votes hf)\<lparr>current_fork_index := 0\<rparr>) db
    (if window_size hf < db_height db then db_height db - (window_size hf - 1) else 1))"
  using assms by (simp add: init_def hf_config_def Let_def)

lemma init_window:
  assumes cfg: "hf_config hf" and db: "length (db_blocks db) < 2 ^ 64" "db_blocks db \<noteq> []"
    and lastv: "get_hard_fork_version db (db_height db - 1) \<noteq> None"
  shows "\<exists>hf'. init hf db = Some hf' \<and> hf_wf hf' \<and> heights hf' = heights hf \<and>
    window_size hf' = window_size hf \<and>
    versions hf' = map (vote_of (heights hf))
      (drop (length (db_blocks db) - unat (window_size hf)) (db_blocks db))"
proof -
  define hf0 where "hf0 = (clear_votes hf)\<lparr>current_fork_index := 0\<rparr>"
  have cfg0: "hf_config hf0" "heights hf0 = heights hf" "window_size hf0 = window_size hf"
    using cfg by (simp_all add: hf0_def hf_config_def)
  define h where "h = (if window_size hf < db_height db then db_height db - (window_size hf - 1) else 1)"
  have W: "0 < unat (window_size hf)" using cfg by (simp add: hf_config_def)
  note h1 = init_start_height [OF db(1) W, folded h_def]
  obtain lastv where l: "get_hard_fork_version db (db_height db - 1) = Some lastv" using lastv by blast
  have b: "unat (h - 1) < length (db_blocks db)"
    "length (db_blocks db) - unat (h - 1) \<le> unat (window_size hf0)"
    unfolding h1 cfg0(3) using db(2) W length_greater_0_conv [of "db_blocks db"] by linarith+
  obtain hf' where r: "rescan_from_block_height hf0 db (h - 1) = Some (True, hf')" "hf_wf hf'"
    "heights hf' = heights hf0" "window_size hf' = window_size hf0"
    "versions hf' = map (vote_of (heights hf0)) (drop (unat (h - 1)) (db_blocks db))"
    using rescan_votes [OF cfg0(1) db(1) b l] by auto
  have "init hf db = map_option snd (rescan_from_chain_height hf0 db h)"
    unfolding h_def hf0_def by (rule init_rescan [OF cfg])
  then show ?thesis using r h1 cfg0 by (simp add: rescan_from_chain_height_def)
qed

lemma rescan_wf:
  assumes wf: "hf_wf hf" and db: "length (db_blocks db) < 2 ^ 64"
    "length (db_blocks db) - unat h \<le> unat (window_size hf)"
    and r: "rescan_from_block_height hf db h = Some (ok, hf')"
  shows "hf_wf hf'"
proof (cases "db_height db \<le> h")
  case True
  then show ?thesis using r wf by (simp add: rescan_from_block_height_def)
next
  case False
  have "unat (db_height db) = length (db_blocks db)" using db by (simp add: db_height_def unat_of_nat_u64)
  with False have h: "unat h < length (db_blocks db)" by (simp add: word_le_nat_alt)
  obtain lastv where "get_hard_fork_version db (db_height db - 1) = Some lastv"
    using r False by (cases "get_hard_fork_version db (db_height db - 1)")
      (auto simp: rescan_from_block_height_def Let_def bind_eq_Some_conv)
  from rescan_votes [OF hf_wf_config [OF wf] db(1) h db(2) this] r show ?thesis by auto
qed

lemma init_wf:
  assumes cfg: "hf_config hf" and db: "length (db_blocks db) < 2 ^ 64" and i: "init hf db = Some hf'"
  shows "hf_wf hf'"
proof -
  define hf0 where "hf0 = (clear_votes hf)\<lparr>current_fork_index := 0\<rparr>"
  define h where "h = (if window_size hf < db_height db then db_height db - (window_size hf - 1) else 1)"
  have W: "0 < unat (window_size hf)" using cfg by (simp add: hf_config_def)
  note h1 = init_start_height [OF db W, folded h_def]
  have wf0: "hf_wf hf0" using cfg by (simp add: hf_wf_def hf_config_def hf0_def)
  have "init hf db = map_option snd (rescan_from_chain_height hf0 db h)"
    unfolding h_def hf0_def by (rule init_rescan [OF cfg])
  with i h1(2) obtain ok where r: "rescan_from_block_height hf0 db (h - 1) = Some (ok, hf')"
    by (auto simp: rescan_from_chain_height_def)
  have "length (db_blocks db) - unat (h - 1) \<le> unat (window_size hf0)"
    unfolding h1(1) by (simp add: hf0_def)
  from rescan_wf [OF wf0 db this r] show ?thesis .
qed

section \<open>Reorganisation\<close>

lemma set_hard_fork_version_blocks [simp]: "db_blocks (set_hard_fork_version db h v) = db_blocks db"
  by (simp add: set_hard_fork_version_def)

lemma add_blocks_wf:
  assumes "hf_wf hf" "unat h + n \<le> length (db_blocks db)" "length (db_blocks db) < 2 ^ 64"
  shows "\<exists>hf' db'. add_blocks hf db h n = Some (hf', db') \<and> hf_wf hf' \<and> db_blocks db' = db_blocks db \<and>
    heights hf' = heights hf \<and> window_size hf' = window_size hf \<and>
    current_fork_index hf \<le> current_fork_index hf'"
  using assms
proof (induction n arbitrary: hf db h)
  case (Suc n)
  have h: "unat h < length (db_blocks db)" using Suc.prems(2) by simp
  then have h1: "unat (h + 1) = Suc (unat h)" using Suc.prems(3) by (simp add: unat_add_wrap)
  define b where "b = db_blocks db ! unat h"
  obtain ok hf1 db1 where a: "add_block hf db b h = Some (ok, hf1, db1)" "hf_wf hf1" "heights hf1 = heights hf"
    "window_size hf1 = window_size hf" "current_fork_index hf \<le> current_fork_index hf1" "db_blocks db1 = db_blocks db"
    using add_wf [OF Suc.prems(1), of db "get_block_version b" "get_block_vote b" h]
    by (auto simp: add_block_def split: if_splits)
  have step: "add_blocks hf db h (Suc n) = add_blocks hf1 db1 (h + 1) n"
    using h a(1) by (simp add: get_block_from_height_def b_def)
  show ?case
    unfolding step using Suc.IH [OF a(2), of "h + 1" db1] a(3-6) h1 Suc.prems(2,3) by auto
qed simp

lemma reorganize_wf:
  assumes wf: "hf_wf hf" and db: "length (db_blocks db) < 2 ^ 64" "unat h < length (db_blocks db)"
    and start: "h = 0 \<or> get_hard_fork_version db h \<noteq> None"
  shows "\<exists>hf' db'. reorganize_from_block_height hf db h = Some (True, hf', db') \<and> hf_wf hf' \<and>
    heights hf' = heights hf \<and> window_size hf' = window_size hf \<and> db_blocks db' = db_blocks db"
proof -
  have H: "unat (db_height db) = length (db_blocks db)" using db(1) by (simp add: db_height_def unat_of_nat_u64)
  have W: "0 < unat (window_size hf)" "unat (window_size hf) < 2 ^ 32" using wf by (simp_all add: hf_wf_def)
  define w1 where "w1 = window_size hf - 1"
  have w1: "unat w1 = unat (window_size hf) - 1"
    using W unfolding w1_def by (subst unat_sub) (simp_all add: word_le_nat_alt)
  define rs where "rs = (if w1 \<le> h then h - w1 else 0)"
  have rs: "unat rs = unat h - unat w1"
    by (auto simp: rs_def word_le_nat_alt unat_sub)
  obtain sv where sv: "(if h = 0 then Some (original_version hf) else get_hard_fork_version db h) = Some sv"
    using start by (cases "h = 0") auto
  define hf0 where "hf0 = (clear_votes hf)\<lparr>current_fork_index := lower_fork_index (heights hf) sv (current_fork_index hf)\<rparr>"
  define n where "n = unat h + 1 - unat rs"
  have n: "n \<le> unat (window_size hf)" "unat rs + n = unat h + 1"
    using W by (auto simp: n_def rs w1)
  obtain lv where cb: "count_blocks hf0 db rs n = Some (hf0\<lparr>versions := map (vote_of (heights hf))
      (take n (drop (unat rs) (db_blocks db))), last_versions := lv\<rparr>)"
    and c: "counted (map (vote_of (heights hf)) (take n (drop (unat rs) (db_blocks db)))) lv"
    using count_blocks_votes [of hf0 rs n db] n db W by (auto simp: hf0_def)
  define hf1 where "hf1 = hf0\<lparr>versions := map (vote_of (heights hf))
      (take n (drop (unat rs) (db_blocks db))), last_versions := lv\<rparr>"
  have wf1: "hf_wf hf1"
    using wf c n lower_fork_index_le [of "heights hf" sv "current_fork_index hf"]
    by (auto simp: hf_wf_def hf1_def hf0_def)
  have h1: "unat (h + 1) = Suc (unat h)" using db by (simp add: unat_add_wrap)
  have le: "unat (h + 1) + (unat (db_height db) - (unat h + 1)) \<le> length (db_blocks db)"
    using db(2) H h1 by linarith
  obtain hf' db' where ab: "add_blocks (raise_fork_index hf1 (h + 1)) db (h + 1) (unat (db_height db) - (unat h + 1)) = Some (hf', db')"
    "hf_wf hf'" "db_blocks db' = db_blocks db" "heights hf' = heights (raise_fork_index hf1 (h + 1))"
    "window_size hf' = window_size (raise_fork_index hf1 (h + 1))"
    using add_blocks_wf [OF raise_fork_index_wf [OF wf1] le db(1)] by blast
  have "\<not> db_height db \<le> h" using db(2) H by (simp add: word_le_nat_alt)
  then have "reorganize_from_block_height hf db h = Some (True, hf', db')"
    unfolding reorganize_from_block_height_def Let_def clear_votes_simps w1_def [symmetric]
      rs_def [symmetric] sv
    using cb ab(1) by (simp add: hf0_def n_def hf1_def)
  then show ?thesis using ab by (simp add: raise_fork_index_eq [OF wf1]) (simp add: hf1_def hf0_def)
qed

section \<open>Popping blocks\<close>

lemma pop_step_counted:
  assumes "counted vs lv" "vs \<noteq> []" "length vs < 2 ^ 32"
  defines "lv1 \<equiv> lv(last vs := lv (last vs) - 1)"
  shows "counted (v # butlast vs) (lv1(v := lv1 v + 1))"
proof -
  have "counted (butlast vs @ [last vs]) lv" using assms by simp
  then have "counted (last vs # butlast vs) lv" by (simp only: counted_rotate)
  then have "counted (butlast vs) lv1" unfolding lv1_def by (rule counted_dec(2))
  then have "counted (butlast vs @ [v]) (lv1(v := lv1 v + 1))"
  proof (rule counted_inc)
    show "length (butlast vs) < 2 ^ 32 - 1"
      using assms(2,3) length_greater_0_conv [of vs] unfolding length_butlast by linarith
  qed
  then show ?thesis by (simp only: counted_rotate)
qed


lemma pop_step_wf:
  assumes "hf_wf hf" "versions hf \<noteq> []"
  shows "hf_wf (hf\<lparr>versions := v # butlast (versions hf),
    last_versions := ((last_versions hf)(last (versions hf) := last_versions hf (last (versions hf)) - 1))
      (v := ((last_versions hf)(last (versions hf) := last_versions hf (last (versions hf)) - 1)) v + 1)\<rparr>)"
proof -
  have "length (versions hf) < 2 ^ 32" using assms(1) by (simp add: hf_wf_def)
  moreover have "counted (versions hf) (last_versions hf)" using assms(1) by (simp add: hf_wf_def)
  ultimately have "counted (v # butlast (versions hf))
    (((last_versions hf)(last (versions hf) := last_versions hf (last (versions hf)) - 1))
      (v := ((last_versions hf)(last (versions hf) := last_versions hf (last (versions hf)) - 1)) v + 1))"
    using assms(2) by (intro pop_step_counted)
  moreover have "length (v # butlast (versions hf)) = length (versions hf)"
    using assms(2) by simp
  ultimately show ?thesis using assms(1) unfolding hf_wf_def by (simp del: length_butlast list.size)
qed

lemma pop_loop_keeps:
  assumes "pop_loop hf db nh h = Some hf'"
  shows "hf_wf hf \<longrightarrow> hf_wf hf' \<and> heights hf' = heights hf \<and> window_size hf' = window_size hf \<and>
    length (versions hf') = length (versions hf)"
proof (rule pop_loop.raw_induct [OF _ assms, where P = "\<lambda>hf db nh h hf'. hf_wf hf \<longrightarrow>
    hf_wf hf' \<and> heights hf' = heights hf \<and> window_size hf' = window_size hf \<and>
    length (versions hf') = length (versions hf)"])
  fix pop_loop :: "hard_fork \<Rightarrow> blockchain_db \<Rightarrow> u64 \<Rightarrow> u64 \<Rightarrow> hard_fork option"
    and hf :: hard_fork and db nh h hf'
  define step where "step v = hf\<lparr>versions := v # butlast (versions hf),
    last_versions := ((last_versions hf)(last (versions hf) := last_versions hf (last (versions hf)) - 1))
      (v := ((last_versions hf)(last (versions hf) := last_versions hf (last (versions hf)) - 1)) v + 1)\<rparr>" for v
  assume IH: "\<And>hf db nh h hf'. pop_loop hf db nh h = Some hf' \<Longrightarrow> hf_wf hf \<longrightarrow>
    hf_wf hf' \<and> heights hf' = heights hf \<and> window_size hf' = window_size hf \<and>
    length (versions hf') = length (versions hf)"
  assume body: "(if nh \<le> h then if versions hf = [] then None
      else let version = last (versions hf);
               lv = (last_versions hf)(version := last_versions hf version - 1);
               vs = butlast (versions hf)
           in case get_hard_fork_version db h of None \<Rightarrow> None
              | Some version \<Rightarrow> pop_loop (hf\<lparr>versions := version # vs, last_versions := lv(version := lv version + 1)\<rparr>)
                  db nh (h - 1)
     else Some hf) = Some hf'"
  show "hf_wf hf \<longrightarrow> hf_wf hf' \<and> heights hf' = heights hf \<and> window_size hf' = window_size hf \<and>
    length (versions hf') = length (versions hf)"
  proof (cases "nh \<le> h")
    case True
    with body obtain v where v: "versions hf \<noteq> []" "pop_loop (step v) db nh (h - 1) = Some hf'"
      by (auto simp: step_def Let_def split: if_splits option.splits)
    have "hf_wf (step v)" if "hf_wf hf" using that v(1) unfolding step_def by (rule pop_step_wf)
    moreover have "heights (step v) = heights hf" "window_size (step v) = window_size hf"
      "length (versions (step v)) = length (versions hf)"
      using v(1) by (simp_all add: step_def)
    ultimately show ?thesis using IH [OF v(2)] by simp
  qed (use body in simp)
qed

lemma on_block_popped_wf:
  assumes "hf_wf hf" "on_block_popped hf db n = Some hf'"
  shows "hf_wf hf' \<and> heights hf' = heights hf \<and> window_size hf' = window_size hf \<and>
    length (versions hf') = length (versions hf)"
proof -
  obtain hf1 where p: "pop_loop hf db (db_height db) (db_height db + n - 1) = Some hf1"
    and hf': "hf' = hf1\<lparr>current_fork_index := scheduled_index (heights hf1) (db_height db) (length (heights hf1) - 1)\<rparr>"
    using assms(2) by (auto simp: on_block_popped_def Let_def split: if_splits)
  note k = pop_loop_keeps [OF p]
  have "scheduled_index (heights hf1) (db_height db) (length (heights hf1) - 1) < length (heights hf1)"
    using scheduled_index_le [of "heights hf1" "db_height db" "length (heights hf1) - 1"] k assms(1)
    by (auto simp: hf_wf_def)
  then show ?thesis using k assms(1) by (simp add: hf' hf_wf_def)
qed

section \<open>Reachable states\<close>

lemma reorganize_wf':
  assumes wf: "hf_wf hf" and db: "length (db_blocks db) < 2 ^ 64"
    and r: "reorganize_from_block_height hf db h = Some (ok, hf', db')"
  shows "hf_wf hf' \<and> db_blocks db' = db_blocks db"
proof (cases "db_height db \<le> h")
  case True
  then show ?thesis using r wf by (simp add: reorganize_from_block_height_def)
next
  case False
  have "unat (db_height db) = length (db_blocks db)" using db by (simp add: db_height_def unat_of_nat_u64)
  with False have h: "unat h < length (db_blocks db)" by (simp add: word_le_nat_alt)
  have "h = 0 \<or> get_hard_fork_version db h \<noteq> None"
    using r False by (cases "get_hard_fork_version db h")
      (auto simp: reorganize_from_block_height_def Let_def bind_eq_Some_conv split: if_splits)
  from reorganize_wf [OF wf db h this] show ?thesis using r by auto
qed

text \<open>
  The life of the object: it is set up and initialised, then blocks are added and popped and the
  chain is reorganised, in any order, while the rest of the program changes the database.
\<close>

inductive hf_reach :: "hard_fork \<Rightarrow> blockchain_db \<Rightarrow> bool" where
  start: "hf_config hf \<Longrightarrow> length (db_blocks db) < 2 ^ 64 \<Longrightarrow> init hf db = Some hf' \<Longrightarrow> hf_reach hf' db"
| add: "hf_reach hf db \<Longrightarrow> add_block hf db b h = Some (ok, hf', db') \<Longrightarrow> hf_reach hf' db'"
| reorganize: "hf_reach hf db \<Longrightarrow> reorganize_from_chain_height hf db h = Some (ok, hf', db') \<Longrightarrow> hf_reach hf' db'"
| pop: "hf_reach hf db \<Longrightarrow> on_block_popped hf db n = Some hf' \<Longrightarrow> hf_reach hf' db"
| chain: "hf_reach hf db \<Longrightarrow> length (db_blocks db') < 2 ^ 64 \<Longrightarrow> hf_reach hf db'"

lemma hf_reach_wf: "hf_reach hf db \<Longrightarrow> hf_wf hf \<and> length (db_blocks db) < 2 ^ 64"
proof (induction rule: hf_reach.induct)
  case (start hf db hf')
  then show ?case using init_wf by blast
next
  case (add hf db b h ok hf' db')
  then show ?case
    using add_wf [of hf db "get_block_version b" "get_block_vote b" h]
    by (auto simp: add_block_def split: if_splits)
next
  case (reorganize hf db h ok hf' db')
  then show ?case
    using reorganize_wf' [of hf db "h - 1" ok hf' db']
    by (auto simp: reorganize_from_chain_height_def split: if_splits)
next
  case (pop hf db n hf')
  then show ?case using on_block_popped_wf by blast
qed simp

section \<open>Forks without voting\<close>

definition no_voting :: "hard_fork \<Rightarrow> bool" where
  "no_voting hf \<longleftrightarrow> (\<forall>f \<in> set (heights hf). hf_threshold f = 0)"

lemma eligible_no_voting:
  "no_voting hf \<Longrightarrow> eligible hf h n \<longleftrightarrow> n < length (heights hf) \<and> hf_height (heights hf ! n) \<le> h"
  by (auto simp: eligible_def no_voting_def)

lemma schedule_heights_mono:
  assumes "schedule_ok hs" "i \<le> j" "j < length hs"
  shows "hf_height (hs ! i) \<le> hf_height (hs ! j)"
proof (cases "i = j")
  case False
  then have "fork_before (hs ! i) (hs ! j)"
    using assms by (intro sorted_wrt_nth_less [of fork_before]) (auto simp: schedule_ok_def)
  then show ?thesis by (simp add: fork_before_def less_imp_le)
qed simp

text \<open>The last fork whose height has been reached, or the first fork of all.\<close>

lemma scheduled_index_spec:
  assumes "hf_height (hs ! 0) \<le> h"
  shows "scheduled_index hs h n = (GREATEST m. m \<le> n \<and> hf_height (hs ! m) \<le> h)"
proof (induction n)
  case 0
  show ?case by (rule Greatest_equality [symmetric]) (use assms in auto)
next
  case (Suc n)
  show ?case
  proof (cases "hf_height (hs ! Suc n) \<le> h")
    case True
    then show ?thesis by (simp, intro Greatest_equality [symmetric]) auto
  next
    case False
    then have "m \<le> Suc n \<and> hf_height (hs ! m) \<le> h \<longleftrightarrow> m \<le> n \<and> hf_height (hs ! m) \<le> h" for m
      by (auto simp: le_Suc_eq)
    then show ?thesis using False Suc.IH by simp
  qed
qed

lemma scheduled_index_early:
  assumes "schedule_ok hs" "n < length hs" "h < hf_height (hs ! 0)"
  shows "scheduled_index hs h n = 0"
  using assms(2)
proof (induction n)
  case (Suc n)
  have "hf_height (hs ! 0) \<le> hf_height (hs ! Suc n)" using assms(1) Suc.prems by (intro schedule_heights_mono) auto
  then have "\<not> hf_height (hs ! Suc n) \<le> h" using assms(3) by auto
  with Suc show ?case by simp
qed simp

lemma voted_no_voting:
  assumes "hf_wf hf" "no_voting hf"
  shows "get_voted_fork_index hf h =
    (if hf_height (heights hf ! 0) \<le> h then scheduled_index (heights hf) h (length (heights hf) - 1)
     else current_fork_index hf)"
proof -
  have ne: "0 < length (heights hf)" using assms(1) by (auto simp: hf_wf_def)
  show ?thesis
  proof (cases "hf_height (heights hf ! 0) \<le> h")
    case True
    have "n < length (heights hf) \<longleftrightarrow> n \<le> length (heights hf) - 1" for n using ne by linarith
    then show ?thesis
      using True ne unfolding get_voted_fork_index_value [OF assms(1)] eligible_no_voting [OF assms(2)]
        scheduled_index_spec [OF True] by auto
  next
    case False
    have "\<not> eligible hf h n" for n
    proof
      assume "eligible hf h n"
      then have n: "n < length (heights hf)" "hf_height (heights hf ! n) \<le> h"
        by (simp_all add: eligible_no_voting [OF assms(2)])
      with schedule_heights_mono [of "heights hf" 0 n] assms(1) False show False
        by (simp add: hf_wf_def)
    qed
    then show ?thesis using False by (simp add: get_voted_fork_index_value [OF assms(1)])
  qed
qed

lemma scheduled_index_mono:
  assumes "h \<le> h'"
  shows "scheduled_index hs h n \<le> scheduled_index hs h' n"
  using assms scheduled_index_le [of hs h] by (induction n) (auto intro: le_SucI)

lemma add_follows_schedule:
  assumes wf: "hf_wf hf" "no_voting hf" and h: "unat h + 1 < 2 ^ 64"
    and cur: "current_fork_index hf = scheduled_index (heights hf) h (length (heights hf) - 1)"
    and a: "add hf db bv vv h = Some (True, hf', db')"
  shows "current_fork_index hf' = scheduled_index (heights hf') (h + 1) (length (heights hf') - 1)"
proof -
  define f where "f = heights hf ! current_fork_index hf"
  have "bv = hf_version f" "hf_version f \<le> vv"
    using add_wf [OF wf(1), of db bv vv h] a by (auto simp: f_def)
  from add_accepted [OF wf(1) this [unfolded f_def], of db h] obtain hf1 where hf1:
    "hf' = raise_fork_index hf1 (h + 1)" "hf_wf hf1" "heights hf1 = heights hf"
    "current_fork_index hf1 = current_fork_index hf" using a by auto
  have nv: "no_voting hf1" using wf(2) hf1(3) by (simp add: no_voting_def)
  have ne: "length (heights hf) - 1 < length (heights hf)" using wf(1) by (auto simp: hf_wf_def)
  have le: "h \<le> h + 1" using h by (simp add: word_le_nat_alt unat_add_wrap)
  have "max (current_fork_index hf) (get_voted_fork_index hf1 (h + 1)) =
      scheduled_index (heights hf) (h + 1) (length (heights hf) - 1)"
  proof (cases "hf_height (heights hf ! 0) \<le> h + 1")
    case True
    then show ?thesis
      using voted_no_voting [OF hf1(2) nv, of "h + 1"] hf1(3) cur scheduled_index_mono [OF le, of "heights hf"]
      by (simp add: max_absorb2)
  next
    case False
    then have "h + 1 < hf_height (heights hf ! 0)" "h < hf_height (heights hf ! 0)" using le by auto
    then show ?thesis
      using voted_no_voting [OF hf1(2) nv, of "h + 1"] hf1(3,4) cur False ne wf(1)
        scheduled_index_early [of "heights hf" "length (heights hf) - 1"]
      by (simp add: hf_wf_def)
  qed
  then show ?thesis by (simp add: hf1(1,3,4) raise_fork_index_eq [OF hf1(2)])
qed

lemma add_fork_accepted:
  assumes "schedule_ok (heights hf @ [f])" "hf_version f \<noteq> 0"
  shows "add_fork hf (hf_version f) (hf_height f) (hf_threshold f) (hf_time f) =
    (True, hf\<lparr>heights := heights hf @ [f]\<rparr>)"
proof -
  have "heights hf \<noteq> [] \<Longrightarrow> fork_before (last (heights hf)) f"
    using assms(1) by (auto simp: schedule_ok_def sorted_wrt_append)
  then show ?thesis
    using assms by (cases f) (auto simp: add_fork_def schedule_ok_def fork_before_def not_less)
qed

lemma add_fork_table_accepted:
  assumes "schedule_ok (heights hf @ table)" "\<forall>f \<in> set table. hf_version f \<noteq> 0"
  shows "heights (add_fork_table hf table) = heights hf @ table"
  using assms
proof (induction table arbitrary: hf)
  case (Cons f table)
  have "schedule_ok (heights hf @ [f])"
    using Cons.prems(1) by (auto simp: schedule_ok_def sorted_wrt_append)
  then have "add_fork hf (hf_version f) (hf_height f) (hf_threshold f) (hf_time f) =
      (True, hf\<lparr>heights := heights hf @ [f]\<rparr>)"
    using Cons.prems(2) by (intro add_fork_accepted) auto
  then have "add_fork_table hf (f # table) = add_fork_table (hf\<lparr>heights := heights hf @ [f]\<rparr>) table"
    by (simp add: add_fork_table_def)
  then show ?case using Cons.IH [of "hf\<lparr>heights := heights hf @ [f]\<rparr>"] Cons.prems by simp
qed (simp add: add_fork_table_def)

lemmas fork_tables = mainnet_hard_forks_def testnet_hard_forks_def stagenet_hard_forks_def hardfork_def
  MAINNET_HARDFORK_V3_HEIGHT_def MAINNET_HARDFORK_V6_HEIGHT_def MAINNET_HARDFORK_V7_HEIGHT_def
  MAINNET_HARDFORK_V8_HEIGHT_def

lemma fork_tables_ok:
  "schedule_ok mainnet_hard_forks" "schedule_ok testnet_hard_forks" "schedule_ok stagenet_hard_forks"
  by (simp_all add: schedule_ok_def fork_before_def fork_tables)

lemma fork_tables_versions:
  "\<forall>f \<in> set mainnet_hard_forks. hf_version f \<noteq> 0 \<and> hf_threshold f = 0"
  "\<forall>f \<in> set testnet_hard_forks. hf_version f \<noteq> 0 \<and> hf_threshold f = 0"
  "\<forall>f \<in> set stagenet_hard_forks. hf_version f \<noteq> 0 \<and> hf_threshold f = 0"
  by (simp_all add: fork_tables)

text \<open>
  A window of two blocks, both voting for version 2 while version 1 is in force: popping a block
  puts the version in force, not the vote of the block that re-enters the window.
\<close>

definition pop_example :: hard_fork where
  "pop_example = \<lparr>forked_time = 0, update_time = 0, window_size = 2, default_threshold_percent = 80,
     original_version = 1, original_version_till_height = 0,
     heights = [hardfork 1 0 0 0, hardfork 2 100 80 1], versions = [2, 2],
     last_versions = (\<lambda>v. if v = 2 then 2 else 0), current_fork_index = 0\<rparr>"

definition pop_example_db :: blockchain_db where
  "pop_example_db = \<lparr>db_blocks = replicate 2 \<lparr>major_version = 1, minor_version = 2\<rparr>,
     db_hf_versions = (\<lambda>h. if h \<le> 2 then Some 1 else None)\<rparr>"

lemma on_block_popped_window:
  "map_option versions (on_block_popped pop_example pop_example_db 1) = Some [1, 2] \<and>
   map (vote_of (heights pop_example)) (db_blocks pop_example_db) = [2, 2]"
proof -
  have h: "db_height pop_example_db = 2" by (simp add: db_height_def pop_example_db_def)
  have le: "\<not> (2::u64) \<le> 1" by (simp add: word_le_nat_alt)
  have "pop_loop pop_example pop_example_db 2 2 =
      Some (pop_example\<lparr>versions := [1, 2],
        last_versions := ((last_versions pop_example)(2 := 1))(1 := 1)\<rparr>)"
    by (subst pop_loop.simps, simp add: pop_example_def pop_example_db_def get_hard_fork_version_def,
        subst pop_loop.simps, simp add: le)
  moreover have "heights pop_example \<noteq> []" by (simp add: pop_example_def)
  ultimately have "map_option versions (on_block_popped pop_example pop_example_db 1) = Some [1, 2]"
    unfolding on_block_popped_def Let_def h by simp
  moreover have "map (vote_of (heights pop_example)) (db_blocks pop_example_db) = [2, 2]"
    by (simp add: vote_of_def get_block_vote_def pop_example_db_def pop_example_def hardfork_def numeral_2_eq_2)
  ultimately show ?thesis ..
qed

section \<open>Properties\<close>

text \<open>C15: in every state the object can reach, through any sequence of initialisation, accepted and
  refused blocks, reorganisations and pops, the schedule is strictly increasing, the current fork
  exists, the window is no longer than configured and the vote counters are the histogram of the
  window.\<close>

theorem reachable_well_formed:
  assumes "hf_reach hf db"
  shows "schedule_ok (heights hf) \<and> current_fork_index hf < length (heights hf) \<and>
    length (versions hf) \<le> unat (window_size hf) \<and>
    (\<forall>v. unat (last_versions hf v) = count_list (versions hf) v)"
  using hf_reach_wf [OF assms] by (simp add: hf_wf_def counted_def)

text \<open>C16: \<open>add\<close> never fails an assertion; it accepts a block exactly when the block's version is the
  current one and its vote at least that; an accepted block's capped vote enters the window, the
  oldest votes leave it, the version is recorded for the height and the current fork never goes
  back; a refused block changes nothing.\<close>

theorem add_correct:
  assumes "hf_wf hf" and "f = heights hf ! current_fork_index hf"
  shows "\<exists>hf' db'. add hf db bv vv h = Some (bv = hf_version f \<and> hf_version f \<le> vv, hf', db') \<and>
      hf_wf hf' \<and> heights hf' = heights hf \<and> window_size hf' = window_size hf \<and>
      current_fork_index hf \<le> current_fork_index hf' \<and>
      (if bv = hf_version f \<and> hf_version f \<le> vv
       then versions hf' = drop (length (versions hf) + 1 - unat (window_size hf))
              (versions hf @ [get_effective_version hf vv]) \<and>
            db' = set_hard_fork_version db h (hf_version f)
       else hf' = hf \<and> db' = db)"
  using add_wf [OF assms(1), of db bv vv h] by (simp only: assms(2))

text \<open>C17: the fork voted for at a height is the last one whose height has been reached and for which
  the votes of the window for it and later forks reach its share of the window, rounded up; if
  there is none it is the current fork.\<close>

theorem voted_fork_is_last_eligible:
  assumes "hf_wf hf"
  shows "get_voted_fork_index hf h =
    (if \<exists>n. eligible hf h n then GREATEST n. eligible hf h n else current_fork_index hf)"
  by (rule get_voted_fork_index_value [OF assms])

text \<open>after \<open>init\<close> the window holds exactly the votes of the last \<open>window_size\<close> blocks of the
  chain, or of the whole chain if it is shorter.\<close>

theorem init_loads_window:
  assumes "hf_config hf" and "length (db_blocks db) < 2 ^ 64" "db_blocks db \<noteq> []"
    and "get_hard_fork_version db (db_height db - 1) \<noteq> None"
  shows "\<exists>hf'. init hf db = Some hf' \<and> hf_wf hf' \<and> heights hf' = heights hf \<and>
    versions hf' = map (vote_of (heights hf))
      (drop (length (db_blocks db) - unat (window_size hf)) (db_blocks db))"
  using init_window [OF assms] by auto


text \<open>every entry of the mainnet, testnet and stagenet tables is accepted by \<open>add_fork\<close>, in order,
  and none of them asks for votes.\<close>

theorem network_tables_accepted:
  assumes "heights hf = []"
  shows "heights (add_fork_table hf mainnet_hard_forks) = mainnet_hard_forks \<and>
    heights (add_fork_table hf testnet_hard_forks) = testnet_hard_forks \<and>
    heights (add_fork_table hf stagenet_hard_forks) = stagenet_hard_forks \<and>
    no_voting (add_fork_table hf mainnet_hard_forks)"
  using add_fork_table_accepted [of hf] fork_tables_ok fork_tables_versions assms
  by (simp add: no_voting_def)

section \<open>Witnesses\<close>

text \<open>A freshly configured mainnet object and a chain of three version 1 blocks.\<close>

definition mainnet_object :: hard_fork where
  "mainnet_object = \<lparr>forked_time = 31557600, update_time = 31557600, window_size = 2520,
     default_threshold_percent = 80, original_version = 1, original_version_till_height = 0,
     heights = mainnet_hard_forks, versions = [], last_versions = (\<lambda>_. 0), current_fork_index = 0\<rparr>"

definition three_blocks :: blockchain_db where
  "three_blocks = \<lparr>db_blocks = replicate 3 \<lparr>major_version = 1, minor_version = 0\<rparr>,
     db_hf_versions = (\<lambda>h. if h \<le> 2 then Some 1 else None)\<rparr>"

lemma mainnet_object_wf: "hf_config mainnet_object" "hf_wf mainnet_object" "no_voting mainnet_object"
  using fork_tables_ok(1) fork_tables_versions(1)
  by (simp_all add: hf_config_def hf_wf_def mainnet_object_def no_voting_def)
    (simp_all add: mainnet_hard_forks_def)

theorem reachable_well_formed_witness:
  "\<exists>hf'. hf_reach hf' three_blocks \<and> current_fork_index hf' < length (heights hf')"
proof -
  have "get_hard_fork_version three_blocks (db_height three_blocks - 1) \<noteq> None"
    by (simp add: get_hard_fork_version_def db_height_def three_blocks_def)
  moreover have "length (db_blocks three_blocks) < 2 ^ 64" "db_blocks three_blocks \<noteq> []"
    by (simp_all add: three_blocks_def)
  ultimately obtain hf' where "init mainnet_object three_blocks = Some hf'"
    using init_window [OF mainnet_object_wf(1)] by blast
  then have "hf_reach hf' three_blocks"
    using mainnet_object_wf(1) \<open>length (db_blocks three_blocks) < 2 ^ 64\<close> by (intro hf_reach.start)
  then show ?thesis using reachable_well_formed [of hf' three_blocks] by blast
qed

theorem add_correct_witness:
  "\<exists>hf' db'. add mainnet_object three_blocks 1 1 3 = Some (True, hf', db') \<and> versions hf' = [1]"
proof -
  have f: "mainnet_hard_forks ! 0 = heights mainnet_object ! current_fork_index mainnet_object"
    by (simp add: mainnet_object_def)
  have v: "hf_version (mainnet_hard_forks ! 0) = 1" by (simp add: mainnet_hard_forks_def hardfork_def)
  have "get_effective_version mainnet_object 1 = 1"
    by (simp add: get_effective_version_def mainnet_object_def mainnet_hard_forks_def hardfork_def)
  moreover have "versions mainnet_object = []" "window_size mainnet_object = 2520" by (simp_all add: mainnet_object_def)
  ultimately show ?thesis
    using add_correct [OF mainnet_object_wf(2) f, of three_blocks 1 1 3] by (auto simp: v)
qed

theorem voted_fork_is_last_eligible_witness:
  "get_voted_fork_index mainnet_object 0 = 0"
proof -
  have "hf_height (heights mainnet_object ! n) \<noteq> 0" if "n < length (heights mainnet_object)" for n
  proof -
    have "\<forall>f \<in> set mainnet_hard_forks. hf_height f \<noteq> 0" by (simp add: fork_tables)
    then show ?thesis using that by (simp add: mainnet_object_def)
  qed
  then have "\<not> eligible mainnet_object 0 n" for n by (auto simp: eligible_def)
  then show ?thesis
    using voted_fork_is_last_eligible [OF mainnet_object_wf(2), of 0] by (simp add: mainnet_object_def)
qed

theorem init_loads_window_witness:
  "\<exists>hf'. init mainnet_object three_blocks = Some hf' \<and> versions hf' = [1, 1, 1]"
proof -
  have "get_hard_fork_version three_blocks (db_height three_blocks - 1) \<noteq> None"
    by (simp add: get_hard_fork_version_def db_height_def three_blocks_def)
  moreover have "length (db_blocks three_blocks) < 2 ^ 64" "db_blocks three_blocks \<noteq> []"
    by (simp_all add: three_blocks_def)
  moreover have "map (vote_of (heights mainnet_object)) (drop (length (db_blocks three_blocks) -
      unat (window_size mainnet_object)) (db_blocks three_blocks)) = [1, 1, 1]"
    by (simp add: mainnet_object_def three_blocks_def vote_of_def get_block_vote_def numeral_3_eq_3)
      (simp add: mainnet_hard_forks_def hardfork_def)
  ultimately show ?thesis using init_loads_window [OF mainnet_object_wf(1), of three_blocks] by auto
qed


theorem network_tables_accepted_witness:
  "heights (add_fork_table (mainnet_object\<lparr>heights := []\<rparr>) mainnet_hard_forks) = mainnet_hard_forks"
  using network_tables_accepted [of "mainnet_object\<lparr>heights := []\<rparr>"] by simp

end
