(* ===== verification/Pruning.thy ===== *)
theory Pruning
  imports Prelude
begin

text \<open>
  Which blocks a pruned node keeps: \<open>common/pruning.h\<close> and \<open>common/pruning.cpp\<close>. A seed packs
  the number of a stripe and the logarithm of the number of stripes; a node keeps the last blocks
  of the chain and, of the rest, those of its own stripe. An exception is \<open>None\<close>; a
  \<open>CHECK_AND_ASSERT_MES\<close> returns its second argument.
\<close>

definition CRYPTONOTE_PRUNING_STRIPE_SIZE :: u64 where
  "CRYPTONOTE_PRUNING_STRIPE_SIZE = 4096"

definition CRYPTONOTE_PRUNING_LOG_STRIPES :: u32 where
  "CRYPTONOTE_PRUNING_LOG_STRIPES = 3"

definition CRYPTONOTE_PRUNING_TIP_BLOCKS :: u64 where
  "CRYPTONOTE_PRUNING_TIP_BLOCKS = 5500"

definition CRYPTONOTE_MAX_BLOCK_NUMBER :: u64 where
  "CRYPTONOTE_MAX_BLOCK_NUMBER = 500000000"

definition PRUNING_SEED_LOG_STRIPES_SHIFT :: nat where
  "PRUNING_SEED_LOG_STRIPES_SHIFT = 7"

definition PRUNING_SEED_LOG_STRIPES_MASK :: u32 where
  "PRUNING_SEED_LOG_STRIPES_MASK = 0x7"

definition PRUNING_SEED_STRIPE_SHIFT :: nat where
  "PRUNING_SEED_STRIPE_SHIFT = 0"

definition PRUNING_SEED_STRIPE_MASK :: u32 where
  "PRUNING_SEED_STRIPE_MASK = 0x7f"

definition get_pruning_log_stripes :: "u32 \<Rightarrow> u32" where
  "get_pruning_log_stripes pruning_seed =
     drop_bit PRUNING_SEED_LOG_STRIPES_SHIFT pruning_seed AND PRUNING_SEED_LOG_STRIPES_MASK"

definition get_pruning_stripe :: "u32 \<Rightarrow> u32" where
  "get_pruning_stripe pruning_seed =
     (if pruning_seed = 0 then 0
      else 1 + (drop_bit PRUNING_SEED_STRIPE_SHIFT pruning_seed AND PRUNING_SEED_STRIPE_MASK))"

definition make_pruning_seed :: "u32 \<Rightarrow> u32 \<Rightarrow> u32 option" where
  "make_pruning_seed stripe log_stripes =
     (if \<not> log_stripes \<le> PRUNING_SEED_LOG_STRIPES_MASK then None
      else if \<not> (0 < stripe \<and> (ucast stripe :: u64) \<le> push_bit (unat log_stripes) 1) then None
      else Some (push_bit PRUNING_SEED_LOG_STRIPES_SHIFT log_stripes OR
                 push_bit PRUNING_SEED_STRIPE_SHIFT (stripe - 1)))"

definition get_block_pruning_stripe :: "u64 \<Rightarrow> u64 \<Rightarrow> u32 \<Rightarrow> u32" where
  "get_block_pruning_stripe block_height blockchain_height log_stripes =
     (if blockchain_height \<le> block_height + CRYPTONOTE_PRUNING_TIP_BLOCKS then 0
      else ucast (((block_height div CRYPTONOTE_PRUNING_STRIPE_SIZE) AND
                   (push_bit (unat log_stripes) 1 - 1)) + 1))"

definition has_unpruned_block :: "u64 \<Rightarrow> u64 \<Rightarrow> u32 \<Rightarrow> bool" where
  "has_unpruned_block block_height blockchain_height pruning_seed =
     (let stripe = get_pruning_stripe pruning_seed
      in if stripe = 0 then True
         else
           let log_stripes = get_pruning_log_stripes pruning_seed;
               block_stripe = get_block_pruning_stripe block_height blockchain_height log_stripes
           in block_stripe = 0 \<or> block_stripe = stripe)"

definition get_pruning_seed :: "u64 \<Rightarrow> u64 \<Rightarrow> u32 \<Rightarrow> u32 option" where
  "get_pruning_seed block_height blockchain_height log_stripes =
     (let stripe = get_block_pruning_stripe block_height blockchain_height log_stripes
      in if stripe = 0 then Some 0 else make_pruning_seed stripe log_stripes)"

definition get_next_unpruned_block_height :: "u64 \<Rightarrow> u64 \<Rightarrow> u32 \<Rightarrow> u64" where
  "get_next_unpruned_block_height block_height blockchain_height pruning_seed =
     (if \<not> block_height \<le> CRYPTONOTE_MAX_BLOCK_NUMBER + 1 then block_height
      else if \<not> blockchain_height \<le> CRYPTONOTE_MAX_BLOCK_NUMBER + 1 then block_height
      else
        let stripe = get_pruning_stripe pruning_seed
        in if stripe = 0 then block_height
           else if blockchain_height \<le> block_height + CRYPTONOTE_PRUNING_TIP_BLOCKS then block_height
           else
             let seed_log_stripes = get_pruning_log_stripes pruning_seed;
                 log_stripes = unat (if seed_log_stripes \<noteq> 0 then seed_log_stripes
                                     else CRYPTONOTE_PRUNING_LOG_STRIPES);
                 mask = push_bit log_stripes 1 - 1;
                 block_pruning_stripe =
                   (ucast (((block_height div CRYPTONOTE_PRUNING_STRIPE_SIZE) AND mask) + 1) :: u32)
             in if block_pruning_stripe = stripe then block_height
                else
                  let cycles = drop_bit log_stripes (block_height div CRYPTONOTE_PRUNING_STRIPE_SIZE);
                      cycle_start = cycles + (if block_pruning_stripe < stripe then 0 else 1);
                      h = cycle_start * push_bit log_stripes CRYPTONOTE_PRUNING_STRIPE_SIZE +
                          ucast ((stripe - 1) * ucast CRYPTONOTE_PRUNING_STRIPE_SIZE)
                  in if blockchain_height < h + CRYPTONOTE_PRUNING_TIP_BLOCKS then
                       if blockchain_height < CRYPTONOTE_PRUNING_TIP_BLOCKS then 0
                       else blockchain_height - CRYPTONOTE_PRUNING_TIP_BLOCKS
                     else if \<not> block_height \<le> h then block_height
                     else h)"

definition get_next_pruned_block_height :: "u64 \<Rightarrow> u64 \<Rightarrow> u32 \<Rightarrow> u64 option" where
  "get_next_pruned_block_height block_height blockchain_height pruning_seed =
     (let stripe = get_pruning_stripe pruning_seed
      in if stripe = 0 then Some blockchain_height
         else if blockchain_height \<le> block_height + CRYPTONOTE_PRUNING_TIP_BLOCKS then Some blockchain_height
         else
           let seed_log_stripes = get_pruning_log_stripes pruning_seed;
               log_stripes = (if seed_log_stripes \<noteq> 0 then seed_log_stripes
                              else CRYPTONOTE_PRUNING_LOG_STRIPES);
               mask = push_bit (unat log_stripes) 1 - 1;
               block_pruning_seed =
                 (ucast (((block_height div CRYPTONOTE_PRUNING_STRIPE_SIZE) AND mask) + 1) :: u32)
           in if block_pruning_seed \<noteq> stripe then Some block_height
              else
                let next_stripe = (ucast (1 + (ucast block_pruning_seed AND mask)) :: u32)
                in map_option (get_next_unpruned_block_height block_height blockchain_height)
                     (make_pruning_seed next_stripe log_stripes))"

text \<open>\<open>get_random_stripe\<close>, with the random byte as argument.\<close>

definition get_random_stripe :: "u8 \<Rightarrow> u32" where
  "get_random_stripe r = ucast (1 + ucast r mod push_bit (unat CRYPTONOTE_PRUNING_LOG_STRIPES) (1 :: u64))"

section \<open>Stripes over the naturals\<close>

definition keeps :: "nat \<Rightarrow> nat \<Rightarrow> nat \<Rightarrow> nat \<Rightarrow> bool" where
  "keeps n s H k \<longleftrightarrow> H \<le> k + 5500 \<or> k div 4096 mod n = s"

definition next_stripe_index :: "nat \<Rightarrow> nat \<Rightarrow> nat \<Rightarrow> nat" where
  "next_stripe_index n s q = (q div n + (if q mod n < s then 0 else 1)) * n + s"

lemma next_stripe_index_spec:
  assumes "s < n" "q mod n \<noteq> s"
  shows "q < next_stripe_index n s q" "next_stripe_index n s q mod n = s"
    and "q \<le> r \<Longrightarrow> r < next_stripe_index n s q \<Longrightarrow> r mod n \<noteq> s"
proof -
  have q: "q = q div n * n + q mod n" by simp
  have n: "0 < n" using assms(1) by simp
  have qn: "q mod n < n" using n by simp
  show "next_stripe_index n s q mod n = s" using assms(1) by (simp add: next_stripe_index_def)
  show "q < next_stripe_index n s q"
  proof (cases "q mod n < s")
    case True
    then have "q < q div n * n + s" using q by linarith
    then show ?thesis using True by (simp add: next_stripe_index_def)
  next
    case False
    have "q < q div n * n + n" using q qn by linarith
    then show ?thesis using False by (simp add: next_stripe_index_def algebra_simps)
  qed
  show "r mod n \<noteq> s" if r: "q \<le> r" "r < next_stripe_index n s q"
  proof
    assume rs: "r mod n = s"
    have "r = r div n * n + s" using rs by (metis div_mult_mod_eq)
    then have lt: "r div n < q div n + (if q mod n < s then 0 else 1)"
    proof -
      have "r div n * n + s < (q div n + (if q mod n < s then 0 else 1)) * n + s"
        using r(2) \<open>r = r div n * n + s\<close> unfolding next_stripe_index_def by linarith
      then have "r div n * n < (q div n + (if q mod n < s then 0 else 1)) * n" by simp
      then show ?thesis using n by simp
    qed
    have le: "q div n \<le> r div n" using r(1) by (rule div_le_mono)
    with lt have c: "\<not> q mod n < s" "r div n = q div n" by (auto split: if_splits)
    then have "s < q mod n" using assms(2) by simp
    then have "r < q" using c(2) q \<open>r = r div n * n + s\<close> by (metis add_less_cancel_left)
    with r(1) show False by simp
  qed
qed

definition next_kept :: "nat \<Rightarrow> nat \<Rightarrow> nat \<Rightarrow> nat \<Rightarrow> nat" where
  "next_kept n s H b =
     (if H \<le> b + 5500 \<or> b div 4096 mod n = s then b
      else min (H - 5500) (4096 * next_stripe_index n s (b div 4096)))"

lemma next_kept_spec:
  assumes "s < n"
  shows "b \<le> next_kept n s H b" "keeps n s H (next_kept n s H b)"
    and "b \<le> k \<Longrightarrow> k < next_kept n s H b \<Longrightarrow> \<not> keeps n s H k"
proof -
  define q where "q = b div 4096"
  show "b \<le> next_kept n s H b" "keeps n s H (next_kept n s H b)"
    "b \<le> k \<Longrightarrow> k < next_kept n s H b \<Longrightarrow> \<not> keeps n s H k"
  proof (atomize (full), cases "H \<le> b + 5500 \<or> q mod n = s")
    case True
    then show "b \<le> next_kept n s H b \<and> keeps n s H (next_kept n s H b) \<and>
        (b \<le> k \<longrightarrow> k < next_kept n s H b \<longrightarrow> \<not> keeps n s H k)"
      by (auto simp: next_kept_def keeps_def q_def)
  next
    case False
    then have ne: "q mod n \<noteq> s" and H: "b + 5500 < H" by auto
    define q' where "q' = next_stripe_index n s q"
    note sp = next_stripe_index_spec [OF assms ne, folded q'_def]
    have nk: "next_kept n s H b = min (H - 5500) (4096 * q')"
      using False by (simp add: next_kept_def q_def q'_def)
    have bq: "b < 4096 * q'"
    proof -
      have "b < 4096 * (q + 1)" by (simp add: q_def) 
      also have "\<dots> \<le> 4096 * q'" using sp(1) by simp
      finally show ?thesis .
    qed
    have "\<not> keeps n s H k" if "b \<le> k" "k < min (H - 5500) (4096 * q')"
    proof -
      have "q \<le> k div 4096" unfolding q_def using that(1) by (rule div_le_mono)
      moreover have "k div 4096 < q'" using that(2) by (simp add: less_mult_imp_div_less mult.commute)
      ultimately have "k div 4096 mod n \<noteq> s" by (rule sp(3))
      then show ?thesis using that(2) by (simp add: keeps_def less_diff_conv)
    qed
    moreover have "keeps n s H (min (H - 5500) (4096 * q'))"
      using sp(2) by (auto simp: keeps_def min_def)
    ultimately show "b \<le> next_kept n s H b \<and> keeps n s H (next_kept n s H b) \<and>
        (b \<le> k \<longrightarrow> k < next_kept n s H b \<longrightarrow> \<not> keeps n s H k)"
      using bq H by (simp add: nk)
  qed
qed

section \<open>Seeds\<close>

lemma seed_value:
  assumes "make_pruning_seed s l = Some seed"
  shows "unat l \<le> 7" "0 < unat s" "unat s \<le> 2 ^ unat l" "unat seed = unat l * 128 + (unat s - 1)"
proof -
  have l: "unat l \<le> 7" and s: "0 < unat s" and sl: "(ucast s :: u64) \<le> push_bit (unat l) 1"
    and seed: "seed = push_bit 7 l OR (s - 1)"
    using assms by (auto simp: make_pruning_seed_def PRUNING_SEED_LOG_STRIPES_MASK_def PRUNING_SEED_LOG_STRIPES_SHIFT_def
        PRUNING_SEED_STRIPE_SHIFT_def word_le_nat_alt word_less_nat_alt split: if_splits)
  have p: "(2::nat) ^ unat l \<le> 2 ^ 7" using l by (intro power_increasing) auto
  have "unat (push_bit (unat l) 1 :: u64) = 2 ^ unat l" using p by (subst unat_shl) simp
  with sl have sl': "unat s \<le> 2 ^ unat l" by (simp add: word_le_nat_alt)
  have s1: "unat (s - 1) = unat s - 1" using s by (subst unat_sub) (simp_all add: word_le_nat_alt)
  have l7: "unat (push_bit 7 l) = unat l * 128" using l by (subst unat_shl) simp
  have "unat seed = unat l * 128 + (unat s - 1)"
    unfolding seed using s1 sl' p s by (subst unat_or_disjoint' [of 7]) (auto simp: l7)
  then show "unat l \<le> 7" "0 < unat s" "unat s \<le> 2 ^ unat l" "unat seed = unat l * 128 + (unat s - 1)"
    using l s sl' by auto
qed

lemma seed_fields:
  assumes "make_pruning_seed s l = Some seed" "l \<noteq> 0"
  shows "get_pruning_stripe seed = s" "get_pruning_log_stripes seed = l"
proof -
  note v = seed_value [OF assms(1)]
  have p: "(2::nat) ^ unat l \<le> 2 ^ 7" using v(1) by (intro power_increasing) auto
  have l0: "0 < unat l" using assms(2) by (simp add: unat_gt_0)
  have s128: "unat s - 1 < 128" using v(2,3) p by simp
  have and7: "unat (w AND 7 :: u32) = unat w mod 8" for w
    using unat_and_mask [of w 3] by (simp add: mask_eq_exp_minus_1)
  have and127: "unat (w AND 0x7f :: u32) = unat w mod 128" for w
    using unat_and_mask [of w 7] by (simp add: mask_eq_exp_minus_1)
  have "unat (get_pruning_log_stripes seed) = unat l"
    using s128 v(1) by (simp add: get_pruning_log_stripes_def PRUNING_SEED_LOG_STRIPES_SHIFT_def
        PRUNING_SEED_LOG_STRIPES_MASK_def and7 unat_shr v(4))
  then show "get_pruning_log_stripes seed = l" by (rule word_eqI_unat)
  have "unat (seed AND 0x7f) = unat s - 1" using s128 by (simp add: and127 v(4))
  then have "unat (1 + (seed AND 0x7f)) = unat s" using v(2) s128 by (simp add: unat_add_wrap)
  moreover have "seed \<noteq> 0" using v(4) l0 by auto
  ultimately have "unat (get_pruning_stripe seed) = unat s"
    by (simp add: get_pruning_stripe_def PRUNING_SEED_STRIPE_SHIFT_def PRUNING_SEED_STRIPE_MASK_def)
  then show "get_pruning_stripe seed = s" by (rule word_eqI_unat)
qed

lemma block_stripe_value:
  fixes b :: u64
  assumes "L \<le> 7"
  shows "unat (ucast ((b div 4096 AND (push_bit L 1 - 1)) + 1) :: u32) = unat b div 4096 mod 2 ^ L + 1"
proof -
  have p: "(2::nat) ^ L \<le> 128" using power_increasing [of L 7 "2::nat"] assms by simp
  have "(push_bit L 1 - 1 :: u64) = mask L" by (simp add: mask_eq_exp_minus_1)
  then have a: "unat (b div 4096 AND (push_bit L 1 - 1)) = unat b div 4096 mod 2 ^ L"
    by (simp only: unat_and_mask) (simp add: unat_div)
  have "unat b div 4096 mod 2 ^ L < 2 ^ L" by simp
  then have "unat b div 4096 mod 2 ^ L + 1 \<le> 128" using p by linarith
  then show ?thesis using a by (simp add: unat_ucast_wrap unat_add_wrap)
qed

lemma tip_sum:
  fixes b H :: u64
  assumes "unat b \<le> 500000001"
  shows "H \<le> b + CRYPTONOTE_PRUNING_TIP_BLOCKS \<longleftrightarrow> unat H \<le> unat b + 5500"
  using assms by (simp add: CRYPTONOTE_PRUNING_TIP_BLOCKS_def word_le_nat_alt unat_add_wrap)

lemma has_unpruned_block_keeps:
  assumes "make_pruning_seed s l = Some seed" "l \<noteq> 0" "unat b \<le> 500000001"
  shows "has_unpruned_block b H seed \<longleftrightarrow> keeps (2 ^ unat l) (unat s - 1) (unat H) (unat b)"
proof -
  note v = seed_value [OF assms(1)] and f = seed_fields [OF assms(1,2)]
  have s0: "s \<noteq> 0" using v(2) by auto
  have bs: "get_block_pruning_stripe b H l = 0 \<longleftrightarrow> unat H \<le> unat b + 5500"
    "\<not> unat H \<le> unat b + 5500 \<Longrightarrow> get_block_pruning_stripe b H l = s \<longleftrightarrow> unat b div 4096 mod 2 ^ unat l = unat s - 1"
    using block_stripe_value [OF v(1), of b] v(2)
    by (auto simp: get_block_pruning_stripe_def tip_sum [OF assms(3)] CRYPTONOTE_PRUNING_STRIPE_SIZE_def word_unat_eq_iff)
  show ?thesis unfolding has_unpruned_block_def f Let_def keeps_def using s0 bs by auto
qed

text \<open>The start of the next stripe, on words.\<close>

lemma stripe_start_value:
  fixes b :: u64 and s :: u32
  assumes "L \<le> 7" "0 < unat s" "unat s \<le> 2 ^ L" "unat b \<le> 500000001" "unat c \<le> 1"
  shows "unat ((drop_bit L (b div 4096) + c) * push_bit L 4096 + ucast ((s - 1) * 4096)) =
    4096 * ((unat b div 4096 div 2 ^ L + unat c) * 2 ^ L + (unat s - 1))"
    and "4096 * ((unat b div 4096 div 2 ^ L + unat c) * 2 ^ L + (unat s - 1)) \<le> 502000000"
proof -
  define n :: nat where "n = 2 ^ L"
  have n: "0 < n" "n \<le> 128" using power_increasing [of L 7 "2::nat"] assms(1) by (simp_all add: n_def)
  define q where "q = unat b div 4096 div n"
  have q: "q * n \<le> unat b div 4096" by (simp add: q_def)
  have b4: "4096 * (unat b div 4096) \<le> unat b" by simp
  have qn: "4096 * (q * n) \<le> 500000001" using q b4 assms(4) by linarith
  have qc: "4096 * ((q + unat c) * n) \<le> 500000001 + 524288"
  proof -
    have "unat c * n \<le> 1 * 128" using n(2) assms(5) by (intro mult_le_mono) auto
    then show ?thesis using qn by (simp add: algebra_simps)
  qed
  have sb: "unat s - 1 < 128" using assms(2,3) n by (simp add: n_def)
  have u1: "unat (drop_bit L (b div 4096) + c) = q + unat c"
  proof -
    have "q \<le> unat b div 4096" "unat b div 4096 \<le> unat b" by (simp_all add: q_def)
    then have "q + unat c < 2 ^ 64" using assms(4,5) by simp
    then show ?thesis by (simp add: unat_add_wrap unat_shr unat_div q_def n_def)
  qed
  have u2: "unat (push_bit L 4096 :: u64) = 4096 * n" using n by (subst unat_shl) (simp add: n_def [symmetric])
  have u3: "unat ((s - 1) * 4096) = (unat s - 1) * 4096"
    using assms(2) sb by (simp add: unat_mult_wrap unat_sub word_le_nat_alt)
  have e: "(q + unat c) * (4096 * n) = 4096 * ((q + unat c) * n)" by simp
  have "4096 * ((q + unat c) * n) mod 2 ^ 64 = 4096 * ((q + unat c) * n)"
    by (rule mod_less, rule le_less_trans [OF qc]) simp
  then have u4: "unat ((drop_bit L (b div 4096) + c) * push_bit L 4096) = 4096 * ((q + unat c) * n)"
    unfolding unat_mult_wrap u1 u2 e by simp
  have u5: "unat (ucast ((s - 1) * 4096) :: u64) = 4096 * (unat s - 1)" using u3 by simp
  have t: "4096 * ((q + unat c) * n) + 4096 * (unat s - 1) \<le> 502000000" using qc sb by linarith
  have "(4096 * ((q + unat c) * n) + 4096 * (unat s - 1)) mod 2 ^ LENGTH(64) = 4096 * ((q + unat c) * n) + 4096 * (unat s - 1)"
    by (rule mod_less, rule le_less_trans [OF t]) simp
  then show "unat ((drop_bit L (b div 4096) + c) * push_bit L 4096 + ucast ((s - 1) * 4096)) =
      4096 * ((unat b div 4096 div 2 ^ L + unat c) * 2 ^ L + (unat s - 1))"
    by (simp only: unat_add_wrap u4 u5 q_def n_def distrib_left)
  show "4096 * ((unat b div 4096 div 2 ^ L + unat c) * 2 ^ L + (unat s - 1)) \<le> 502000000"
    using t by (simp add: q_def n_def distrib_left)
qed

lemma get_next_unpruned_value:
  assumes seed: "make_pruning_seed s l = Some seed" "l \<noteq> 0" and b: "unat b \<le> 500000001" and H: "unat H \<le> 500000001"
  shows "unat (get_next_unpruned_block_height b H seed) = next_kept (2 ^ unat l) (unat s - 1) (unat H) (unat b)"
proof -
  note v = seed_value [OF seed(1)] and f = seed_fields [OF seed]
  define n :: nat where "n = 2 ^ unat l"
  define q where "q = unat b div 4096"
  define bs :: u32 where "bs = ucast ((b div 4096 AND (push_bit (unat l) 1 - 1)) + 1)"
  have bs: "unat bs = q mod n + 1" unfolding bs_def q_def n_def by (rule block_stripe_value [OF v(1)])
  define c :: u64 where "c = (if bs < s then 0 else 1)"
  have c: "unat c = (if q mod n < unat s - 1 then 0 else 1)"
    by (auto simp: c_def word_less_nat_alt bs)
  define h where "h = (drop_bit (unat l) (b div 4096) + c) * push_bit (unat l) 4096 + ucast ((s - 1) * 4096)"
  have h: "unat h = 4096 * next_stripe_index n (unat s - 1) q" "unat h \<le> 502000000"
    using stripe_start_value [OF v(1-3) b, of c] c
    by (simp_all add: h_def next_stripe_index_def q_def n_def)
  have u4096: "(ucast (4096 :: u64) :: u32) = 4096" by simp
  have s0: "s \<noteq> 0" using v(2) by auto
  have hH: "H < h + CRYPTONOTE_PRUNING_TIP_BLOCKS \<longleftrightarrow> unat H < unat h + 5500"
    using h(2) by (simp add: CRYPTONOTE_PRUNING_TIP_BLOCKS_def word_less_nat_alt unat_add_wrap)
  have hb: "b \<le> CRYPTONOTE_MAX_BLOCK_NUMBER + 1" "H \<le> CRYPTONOTE_MAX_BLOCK_NUMBER + 1"
    using b H by (simp_all add: CRYPTONOTE_MAX_BLOCK_NUMBER_def word_le_nat_alt)
  have val: "get_next_unpruned_block_height b H seed =
      (if unat H \<le> unat b + 5500 then b else if bs = s then b
       else if unat H < unat h + 5500 then (if H < CRYPTONOTE_PRUNING_TIP_BLOCKS then 0 else H - CRYPTONOTE_PRUNING_TIP_BLOCKS)
       else if \<not> b \<le> h then b else h)"
    by (simp only: get_next_unpruned_block_height_def Let_def f tip_sum [OF b] u4096 seed(2) s0 hb
        CRYPTONOTE_PRUNING_STRIPE_SIZE_def bs_def [symmetric] c_def [symmetric] h_def [symmetric] hH
        if_True if_False not_True_eq_False not_False_eq_True)
  have eq: "bs = s \<longleftrightarrow> q mod n = unat s - 1" using bs v(2) by (auto simp: word_unat_eq_iff)
  show ?thesis
  proof (cases "unat H \<le> unat b + 5500 \<or> q mod n = unat s - 1")
    case True
    then show ?thesis by (auto simp: val eq next_kept_def q_def n_def)
  next
    case False
    have "unat (H - CRYPTONOTE_PRUNING_TIP_BLOCKS) = unat H - 5500"
      using False by (simp add: CRYPTONOTE_PRUNING_TIP_BLOCKS_def unat_sub word_le_nat_alt)
    moreover have "\<not> H < CRYPTONOTE_PRUNING_TIP_BLOCKS"
      using False by (simp add: CRYPTONOTE_PRUNING_TIP_BLOCKS_def word_less_nat_alt)
    moreover have "b \<le> h"
    proof -
      have "unat s - 1 < n" using v(2,3) by (simp add: n_def)
      then have "q + 1 \<le> next_stripe_index n (unat s - 1) q"
        using next_stripe_index_spec(1) [of "unat s - 1" n q] False by simp
      then have "4096 * (q + 1) \<le> unat h" unfolding h(1) by (rule mult_le_mono2)
      moreover have "unat b < 4096 * (q + 1)" by (simp add: q_def)
      ultimately show ?thesis by (simp add: word_le_nat_alt)
    qed
    moreover have "next_kept (2 ^ unat l) (unat s - 1) (unat H) (unat b) = min (unat H - 5500) (unat h)"
      using False h(1) by (simp add: next_kept_def q_def n_def)
    ultimately show ?thesis
      using False by (cases "unat H < unat h + 5500") (simp_all add: val eq)
  qed
qed

lemma get_next_pruned_value:
  assumes seed: "make_pruning_seed s l = Some seed" "l \<noteq> 0" and b: "unat b \<le> 500000001" and H: "unat H \<le> 500000001"
  shows "get_next_pruned_block_height b H seed =
    (if unat H \<le> unat b + 5500 then Some H
     else if unat b div 4096 mod 2 ^ unat l \<noteq> unat s - 1 then Some b
     else Some (of_nat (next_kept (2 ^ unat l) (unat s mod 2 ^ unat l) (unat H) (unat b))))"
proof -
  note v = seed_value [OF seed(1)] and f = seed_fields [OF seed]
  define bs :: u32 where "bs = ucast ((b div 4096 AND (push_bit (unat l) 1 - 1)) + 1)"
  have bs: "unat bs = unat b div 4096 mod 2 ^ unat l + 1" unfolding bs_def by (rule block_stripe_value [OF v(1)])
  have eq: "bs \<noteq> s \<longleftrightarrow> unat b div 4096 mod 2 ^ unat l \<noteq> unat s - 1" using bs v(2) by (auto simp: word_unat_eq_iff)
  have s0: "s \<noteq> 0" using v(2) by auto
  define ns :: u32 where "ns = ucast (1 + (ucast bs AND (push_bit (unat l) 1 - 1)) :: u64)"
  have val: "get_next_pruned_block_height b H seed =
    (if unat H \<le> unat b + 5500 then Some H else if bs \<noteq> s then Some b
     else map_option (get_next_unpruned_block_height b H) (make_pruning_seed ns l))"
    by (simp only: get_next_pruned_block_height_def Let_def f tip_sum [OF b] CRYPTONOTE_PRUNING_STRIPE_SIZE_def
        seed(2) s0 bs_def [symmetric] ns_def [symmetric] if_True if_False not_True_eq_False not_False_eq_True)
  have p: "(2::nat) ^ unat l \<le> 128" using power_increasing [of "unat l" 7 "2::nat"] v(1) by simp
  have ns: "unat ns = unat bs mod 2 ^ unat l + 1"
  proof -
    have "(push_bit (unat l) 1 - 1 :: u64) = mask (unat l)" by (simp add: mask_eq_exp_minus_1)
    then have "unat (ucast bs AND (push_bit (unat l) 1 - 1) :: u64) = unat bs mod 2 ^ unat l"
      by (simp only: unat_and_mask) simp
    moreover have "unat bs mod 2 ^ unat l + 1 \<le> 128"
    proof -
      have "unat bs mod 2 ^ unat l < 2 ^ unat l" by simp
      then show ?thesis using p by linarith
    qed
    ultimately show ?thesis unfolding ns_def by (simp add: unat_ucast_wrap unat_add_wrap)
  qed
  have "unat bs mod 2 ^ unat l < 2 ^ unat l" by simp
  then have nsl: "unat ns \<le> 2 ^ unat l" using ns by linarith
  obtain seed' where seed': "make_pruning_seed ns l = Some seed'"
  proof -
    have "unat (push_bit (unat l) 1 :: u64) = 2 ^ unat l" using p by (subst unat_shl) simp
    then have "(ucast ns :: u64) \<le> push_bit (unat l) 1" using nsl by (simp add: word_le_nat_alt)
    moreover have "0 < ns" using ns by (simp add: word_less_nat_alt)
    moreover have "l \<le> PRUNING_SEED_LOG_STRIPES_MASK" using v(1) by (simp add: PRUNING_SEED_LOG_STRIPES_MASK_def word_le_nat_alt)
    ultimately show ?thesis using that by (simp add: make_pruning_seed_def)
  qed
  have "get_next_unpruned_block_height b H seed' = of_nat (next_kept (2 ^ unat l) (unat ns - 1) (unat H) (unat b))"
    unfolding get_next_unpruned_value [OF seed' seed(2) b H, symmetric] by simp
  moreover have "bs = s \<Longrightarrow> unat ns - 1 = unat s mod 2 ^ unat l" using ns by simp
  ultimately show ?thesis unfolding val seed' eq [symmetric] by simp
qed


lemma next_stripe_after:
  assumes "q mod n = s" "1 < n"
  shows "next_stripe_index n (Suc s mod n) q = Suc q"
proof -
  have s: "s < n" and q: "q div n * n + s = q" using assms div_mult_mod_eq [of q n] by auto
  show ?thesis
  proof (cases "Suc s = n")
    case True
    then show ?thesis using assms q by (simp add: next_stripe_index_def)
  next
    case False
    then have "Suc s < n" using s by simp
    then show ?thesis using assms(1) q by (simp add: next_stripe_index_def)
  qed
qed

lemma same_stripe_until_next:
  assumes "b div 4096 mod n = s" "1 < n" "b + 5500 < H"
  shows "b \<le> k \<Longrightarrow> k < next_kept n (Suc s mod n) H b \<Longrightarrow> keeps n s H k"
    and "next_kept n (Suc s mod n) H b + 5500 < H \<Longrightarrow> \<not> keeps n s H (next_kept n (Suc s mod n) H b)"
    and "b < next_kept n (Suc s mod n) H b"
proof -
  have ne: "b div 4096 mod n \<noteq> Suc s mod n" using assms(1,2) by (auto simp: mod_Suc)
  define r where "r = next_kept n (Suc s mod n) H b"
  have r: "r = min (H - 5500) (4096 * Suc (b div 4096))"
    using ne assms by (simp add: r_def next_kept_def next_stripe_after)
  have b: "b < 4096 * Suc (b div 4096)" by simp
  show "b \<le> k \<Longrightarrow> k < next_kept n (Suc s mod n) H b \<Longrightarrow> keeps n s H k"
  proof -
    assume k: "b \<le> k" "k < next_kept n (Suc s mod n) H b"
    then have "k < 4096 * Suc (b div 4096)" by (simp add: r [unfolded r_def])
    then have "k div 4096 < Suc (b div 4096)" by (simp add: less_mult_imp_div_less mult.commute)
    moreover have "b div 4096 \<le> k div 4096" using k(1) by (rule div_le_mono)
    ultimately have "k div 4096 = b div 4096" by simp
    then show "keeps n s H k" using assms(1) by (simp add: keeps_def)
  qed
  show "b < next_kept n (Suc s mod n) H b" using b assms(3) by (simp add: r [unfolded r_def])
  show "\<not> keeps n s H (next_kept n (Suc s mod n) H b)" if "next_kept n (Suc s mod n) H b + 5500 < H"
  proof -
    have lt: "r + 5500 < H" using that by (simp add: r_def)
    then have "r = 4096 * Suc (b div 4096)" unfolding r by linarith
    then have "r div 4096 mod n = Suc (b div 4096) mod n" by simp
    also have "\<dots> = Suc s mod n" unfolding assms(1) [symmetric] by (simp add: mod_Suc_eq)
    finally have "r div 4096 mod n = Suc s mod n" .
    then show ?thesis using lt ne assms(1) by (simp add: keeps_def r_def)
  qed
qed

abbreviation height_ok :: "u64 \<Rightarrow> bool" where
  "height_ok h \<equiv> h \<le> CRYPTONOTE_MAX_BLOCK_NUMBER + 1"

lemma height_ok_nat: "height_ok h \<longleftrightarrow> unat h \<le> 500000001"
  by (simp add: CRYPTONOTE_MAX_BLOCK_NUMBER_def word_le_nat_alt)

lemma next_kept_le: "next_kept n s H b \<le> max b H"
  by (auto simp: next_kept_def)

lemma next_unpruned_spec:
  assumes seed: "make_pruning_seed s l = Some seed" "l \<noteq> 0" and ok: "height_ok b" "height_ok H"
    and r: "r = get_next_unpruned_block_height b H seed"
  shows "b \<le> r" "has_unpruned_block r H seed"
    and "b \<le> k \<Longrightarrow> k < r \<Longrightarrow> \<not> has_unpruned_block k H seed"
proof -
  note v = seed_value [OF seed(1)] and bH = ok [unfolded height_ok_nat]
  have s: "unat s - 1 < 2 ^ unat l" using v(2,3) by simp
  note sp = next_kept_spec [OF s, where b = "unat b" and H = "unat H"]
  have ur: "unat r = next_kept (2 ^ unat l) (unat s - 1) (unat H) (unat b)"
    unfolding r by (rule get_next_unpruned_value [OF seed bH])
  have rok: "unat r \<le> 500000001" unfolding ur using next_kept_le [of "2 ^ unat l" "unat s - 1" "unat H" "unat b"] bH by linarith
  show "b \<le> r" using sp(1) by (simp add: word_le_nat_alt ur)
  show "has_unpruned_block r H seed"
    unfolding has_unpruned_block_keeps [OF seed rok] ur by (rule sp(2))
  show "\<not> has_unpruned_block k H seed" if "b \<le> k" "k < r"
  proof -
    have kr: "unat b \<le> unat k" "unat k < unat r" using that by (simp_all add: word_le_nat_alt word_less_nat_alt)
    then have "unat k \<le> 500000001" using rok by linarith
    from has_unpruned_block_keeps [OF seed this] show ?thesis using sp(3) kr by (simp add: ur)
  qed
qed

lemma next_pruned_spec:
  assumes seed: "make_pruning_seed s l = Some seed" "l \<noteq> 0" and ok: "height_ok b" "height_ok H"
  obtains r where "get_next_pruned_block_height b H seed = Some r"
    and "\<And>k. b \<le> k \<Longrightarrow> k < r \<Longrightarrow> has_unpruned_block k H seed"
    and "r + CRYPTONOTE_PRUNING_TIP_BLOCKS < H \<Longrightarrow> \<not> has_unpruned_block r H seed"
proof -
  note v = seed_value [OF seed(1)] and bH = ok [unfolded height_ok_nat]
  have n: "(1::nat) < 2 ^ unat l" using seed(2) by (intro one_less_power) (simp_all add: unat_gt_0)
  have tip: "r + CRYPTONOTE_PRUNING_TIP_BLOCKS < H \<longleftrightarrow> unat r + 5500 < unat H" if "unat r \<le> 500000001" for r
    using tip_sum [OF that, of H] by (simp add: not_le [symmetric])
  have kept: "has_unpruned_block k H seed \<longleftrightarrow> keeps (2 ^ unat l) (unat s - 1) (unat H) (unat k)" if "unat k \<le> 500000001" for k
    by (rule has_unpruned_block_keeps [OF seed that])
  have bound: "unat k \<le> 500000001" if "k < r" "unat r \<le> 500000001" for k r :: u64
    using that by (simp add: word_less_nat_alt)
  consider "unat H \<le> unat b + 5500" | "unat b + 5500 < unat H" "unat b div 4096 mod 2 ^ unat l \<noteq> unat s - 1"
    | "unat b + 5500 < unat H" "unat b div 4096 mod 2 ^ unat l = unat s - 1" by linarith
  then show ?thesis
  proof cases
    case 1
    show ?thesis
    proof (rule that [of H])
      show "get_next_pruned_block_height b H seed = Some H" using 1 by (simp add: get_next_pruned_value [OF seed bH])
      fix k assume "b \<le> k" "k < H"
      then show "has_unpruned_block k H seed"
        using 1 kept [OF bound [OF _ bH(2)], of k] by (simp add: keeps_def word_le_nat_alt)
    qed (use tip [OF bH(2)] in simp)
  next
    case 2
    show ?thesis
      by (rule that [of b]) (use 2 kept [OF bH(1)] in \<open>auto simp: get_next_pruned_value [OF seed bH] keeps_def\<close>)
  next
    case 3
    define r where "r = next_kept (2 ^ unat l) (Suc (unat s - 1) mod 2 ^ unat l) (unat H) (unat b)"
    have "r \<le> 500000001" unfolding r_def using next_kept_le [of "2 ^ unat l" _ "unat H" "unat b"] bH by (meson le_trans max.bounded_iff)
    then have ur: "unat (of_nat r :: u64) = r" and rok: "unat (of_nat r :: u64) \<le> 500000001" by (simp_all add: unat_of_nat_u64)
    note st = same_stripe_until_next [OF 3(2) n 3(1), folded r_def]
    show ?thesis
    proof (rule that [of "of_nat r"])
      show "get_next_pruned_block_height b H seed = Some (of_nat r)"
        using 3 v(2) by (simp add: get_next_pruned_value [OF seed bH] r_def)
      fix k assume "b \<le> k" "k < (of_nat r :: u64)"
      then show "has_unpruned_block k H seed"
        using kept [OF bound [OF _ rok], of k] st(1) [of "unat k"] by (simp add: word_le_nat_alt word_less_nat_alt ur)
    qed (use st(2) tip [OF rok] kept [OF rok] in \<open>simp add: ur\<close>)
  qed
qed

lemma make_pruning_seed_fails:
  "make_pruning_seed s l = None \<longleftrightarrow> 7 < unat l \<or> unat s = 0 \<or> 2 ^ unat l < unat s"
proof (cases "unat l \<le> 7")
  case True
  then have "(2::nat) ^ unat l \<le> 128" using power_increasing [of "unat l" 7 "2::nat"] by simp
  then have "unat (push_bit (unat l) 1 :: u64) = 2 ^ unat l" by (subst unat_shl) simp
  then show ?thesis using True
    by (auto simp: make_pruning_seed_def PRUNING_SEED_LOG_STRIPES_MASK_def word_le_nat_alt word_less_nat_alt)
next
  case False
  then show ?thesis by (simp add: make_pruning_seed_def PRUNING_SEED_LOG_STRIPES_MASK_def word_le_nat_alt)
qed

lemma get_random_stripe_range: "1 \<le> get_random_stripe r \<and> get_random_stripe r \<le> 8"
proof -
  have "unat (get_random_stripe r) = 1 + unat r mod 8"
  proof -
    have "unat r mod 8 < 8" by simp
    then have "Suc (unat r mod 8) mod 2 ^ 64 mod 2 ^ 32 = Suc (unat r mod 8)" by (simp del: mod_less_divisor)
    then show ?thesis
      by (simp add: get_random_stripe_def CRYPTONOTE_PRUNING_LOG_STRIPES_def unat_ucast_wrap unat_add_wrap unat_mod)
  qed
  then show ?thesis by (simp add: word_le_nat_alt)
qed

section \<open>Properties\<close>

text \<open>a pruning seed is a faithful encoding: a seed built for a stripe among at least two stripes
  gives back the stripe and the logarithm of the number of stripes.\<close>
theorem pruning_seed_roundtrip:
  assumes "make_pruning_seed stripe log_stripes = Some seed" "log_stripes \<noteq> 0"
  shows "(get_pruning_stripe seed, get_pruning_log_stripes seed) = (stripe, log_stripes)"
  using seed_fields [OF assms] by simp

theorem pruning_seed_roundtrip_witness:
  "(get_pruning_stripe 388, get_pruning_log_stripes 388) = (5, 3)"
proof -
  have "make_pruning_seed 5 3 = Some 388" by code_simp
  then show ?thesis by (rule pruning_seed_roundtrip) simp
qed

text \<open>C19: for heights the chain can have, the next unpruned height of a peer with a valid seed is
  the least height from the given one on that the peer has: it is not lower, the peer has it, and
  the peer has none of the heights skipped.\<close>
theorem next_unpruned_is_least:
  assumes "make_pruning_seed stripe log_stripes = Some seed" "log_stripes \<noteq> 0"
    and "block_height \<le> CRYPTONOTE_MAX_BLOCK_NUMBER + 1" "blockchain_height \<le> CRYPTONOTE_MAX_BLOCK_NUMBER + 1"
  shows "let r = get_next_unpruned_block_height block_height blockchain_height seed
    in block_height \<le> r \<and> has_unpruned_block r blockchain_height seed \<and>
       (\<forall>k. block_height \<le> k \<and> k < r \<longrightarrow> \<not> has_unpruned_block k blockchain_height seed)"
  unfolding Let_def using next_unpruned_spec [OF assms refl] by blast

theorem next_unpruned_is_least_witness:
  "get_next_unpruned_block_height 5000 100000 388 = 16384 \<and> has_unpruned_block 16384 100000 388 \<and>
   \<not> has_unpruned_block 16383 100000 388"
proof -
  have s: "make_pruning_seed 5 3 = Some 388" by code_simp
  have r: "get_next_unpruned_block_height 5000 100000 388 = 16384" by code_simp
  have "(5000::u64) \<le> CRYPTONOTE_MAX_BLOCK_NUMBER + 1" "(100000::u64) \<le> CRYPTONOTE_MAX_BLOCK_NUMBER + 1"
    by (simp_all add: CRYPTONOTE_MAX_BLOCK_NUMBER_def)
  note next_unpruned_is_least [OF s _ this, unfolded r Let_def]
  then show ?thesis using r by (auto simp: word_le_nat_alt word_less_nat_alt)
qed

text \<open>the next pruned height is always computed (the seed built inside is in range); the peer has
  every block from the given height up to it, and lacks the block there unless it lies in the part of the
  chain that nobody prunes.\<close>
theorem next_pruned_bounds_run:
  assumes "make_pruning_seed stripe log_stripes = Some seed" "log_stripes \<noteq> 0"
    and "block_height \<le> CRYPTONOTE_MAX_BLOCK_NUMBER + 1" "blockchain_height \<le> CRYPTONOTE_MAX_BLOCK_NUMBER + 1"
  shows "\<exists>r. get_next_pruned_block_height block_height blockchain_height seed = Some r \<and>
    (\<forall>k. block_height \<le> k \<and> k < r \<longrightarrow> has_unpruned_block k blockchain_height seed) \<and>
    (r + CRYPTONOTE_PRUNING_TIP_BLOCKS < blockchain_height \<longrightarrow> \<not> has_unpruned_block r blockchain_height seed)"
  by (rule next_pruned_spec [OF assms]) blast

theorem next_pruned_bounds_run_witness:
  "get_next_pruned_block_height 17000 100000 388 = Some 20480 \<and> has_unpruned_block 20479 100000 388 \<and>
   \<not> has_unpruned_block 20480 100000 388"
proof -
  have s: "make_pruning_seed 5 3 = Some 388" by code_simp
  have r: "get_next_pruned_block_height 17000 100000 388 = Some 20480" by code_simp
  have "(17000::u64) \<le> CRYPTONOTE_MAX_BLOCK_NUMBER + 1" "(100000::u64) \<le> CRYPTONOTE_MAX_BLOCK_NUMBER + 1"
    by (simp_all add: CRYPTONOTE_MAX_BLOCK_NUMBER_def)
  note next_pruned_bounds_run [OF s _ this, unfolded r]
  then show ?thesis using r by (auto simp: word_le_nat_alt word_less_nat_alt CRYPTONOTE_PRUNING_TIP_BLOCKS_def)
qed

end
