(* ===== verification/Limbs.thy ===== *)
theory Limbs
  imports Prelude
begin

text \<open>
  Numbers held as limbs in signed machine words, as \<open>crypto/crypto-ops.c\<close> has them: signed
  arithmetic at 32 and 64 bits, the carry between two limbs, and an interval analysis that shows of
  a straight-line program that no limb overflows and that its carries keep the number represented.
\<close>

unbundle bit_operations_syntax

type_synonym i64 = "64 word"
type_synonym i32 = "32 word"
type_synonym limbs = "i64 list"

section \<open>Signed machine integers\<close>

abbreviation int64 :: "int \<Rightarrow> bool" where
  "int64 x \<equiv> - 9223372036854775808 \<le> x \<and> x \<le> 9223372036854775807"

abbreviation int32 :: "int \<Rightarrow> bool" where
  "int32 x \<equiv> - 2147483648 \<le> x \<and> x \<le> 2147483647"

lemma sint_of_int64: "int64 x \<Longrightarrow> sint (of_int x :: i64) = x"
  by (simp add: signed_of_int signed_take_bit_int_eq_self)

lemma sint_of_int32: "int32 x \<Longrightarrow> sint (of_int x :: i32) = x"
  by (simp add: signed_of_int signed_take_bit_int_eq_self)

lemma int64_sint: "int64 (sint (w :: i64))"
  using sint_greater_eq [of w] sint_less [of w] by simp

lemma int32_sint: "int32 (sint (w :: i32))"
  using sint_greater_eq [of w] sint_less [of w] by simp

lemma of_int_sint_add: "a + b = of_int (sint a + sint b)" for a b :: "'a::len word"
  by simp

lemma of_int_sint_diff: "a - b = of_int (sint a - sint b)" for a b :: "'a::len word"
  by simp

lemma of_int_sint_mult: "a * b = of_int (sint a * sint b)" for a b :: "'a::len word"
  by simp

lemma sint_add64: "int64 (sint a + sint b) \<Longrightarrow> sint (a + b) = sint a + sint b" for a b :: i64
  by (subst of_int_sint_add) (rule sint_of_int64)

lemma sint_diff64: "int64 (sint a - sint b) \<Longrightarrow> sint (a - b) = sint a - sint b" for a b :: i64
  by (subst of_int_sint_diff) (rule sint_of_int64)

lemma sint_mult64: "int64 (sint a * sint b) \<Longrightarrow> sint (a * b) = sint a * sint b" for a b :: i64
  by (subst of_int_sint_mult) (rule sint_of_int64)

lemma sint_signed_shr: "sint (signed_drop_bit n w) = sint w div 2 ^ n" for w :: "'a::len word"
  by (simp add: sint_signed_drop_bit_eq drop_bit_eq_div)

lemma of_int_shl: "push_bit n w = of_int (sint w * 2 ^ n)" for w :: "'a::len word"
  by (simp add: push_bit_eq_mult)

section \<open>Carries between limbs\<close>

text \<open>
  The straight-line code on limbs is made of lines such as
  \<open>carry6 = (s6 + (1<<20)) >> 21; s7 += carry6; s6 -= carry6 << 21;\<close>, with or without the rounding
  addend. The limbs are a list; \<open>carry_step n h i\<close> is the line for limb \<open>i\<close>, shift \<open>n\<close> and addend \<open>h\<close>.
\<close>

definition carry_step :: "nat \<Rightarrow> 'a::len word \<Rightarrow> nat \<Rightarrow> 'a word list \<Rightarrow> 'a word list" where
  "carry_step n h i s =
     (let carry = signed_drop_bit n (s ! i + h)
      in s[Suc i := s ! Suc i + carry, i := s ! i - push_bit n carry])"

lemma length_carry_step [simp]: "length (carry_step n h i s) = length s"
  by (simp add: carry_step_def Let_def)

section \<open>Interval analysis\<close>

text \<open>Intervals for the limbs, and what a carry does to them; \<open>None\<close> when the analysis cannot
  exclude an overflow. \<open>M\<close> is the bound of the machine integers, \<open>2 ^ 31\<close> or \<open>2 ^ 63\<close>.\<close>

type_synonym bounds = "(int \<times> int) list"

abbreviation max64 :: int where
  "max64 \<equiv> 9223372036854775808"

abbreviation max32 :: int where
  "max32 \<equiv> 2147483648"

definition machine :: "int \<Rightarrow> 'a::len itself \<Rightarrow> bool" where
  "machine M t \<longleftrightarrow> M = 2 ^ (LENGTH('a) - 1)"

definition within :: "int \<times> int \<Rightarrow> 'a::len word \<Rightarrow> bool" where
  "within b w \<longleftrightarrow> fst b \<le> sint w \<and> sint w \<le> snd b"

definition bounded :: "bounds \<Rightarrow> 'a::len word list \<Rightarrow> bool" where
  "bounded B s = list_all2 within B s"

definition fits :: "int \<Rightarrow> int \<times> int \<Rightarrow> bool" where
  "fits M b \<longleftrightarrow> - M \<le> fst b \<and> snd b < M"

definition carry_bounds :: "int \<Rightarrow> nat \<Rightarrow> int \<Rightarrow> nat \<Rightarrow> bounds \<Rightarrow> bounds option" where
  "carry_bounds M n h i B =
     (let lo = fst (B ! i) + h; hi = snd (B ! i) + h;
          b = (fst (B ! Suc i) + lo div 2 ^ n, snd (B ! Suc i) + hi div 2 ^ n)
      in if fits M (lo, hi) \<and> fits M b then Some (B[Suc i := b, i := (- h, 2 ^ n - 1 - h)]) else None)"

definition lval :: "(nat \<Rightarrow> int) \<Rightarrow> nat \<Rightarrow> 'a::len word list \<Rightarrow> int" where
  "lval w m s = (\<Sum>i<m. sint (s ! i) * w i)"

lemma machine_sint:
  assumes "machine M TYPE('a::len)" "- M \<le> x" "x < M"
  shows "sint (of_int x :: 'a word) = x"
  using assms by (simp add: machine_def signed_of_int signed_take_bit_int_eq_self)

lemma machine64 [simp]: "machine max64 TYPE(64)"
  by (simp add: machine_def)

lemma machine32 [simp]: "machine max32 TYPE(32)"
  by (simp add: machine_def)

lemma bounded_length: "bounded B s \<Longrightarrow> length B = length s"
  by (simp add: bounded_def list_all2_lengthD)

lemma bounded_nth: "bounded B s \<Longrightarrow> i < length s \<Longrightarrow> fst (B ! i) \<le> sint (s ! i) \<and> sint (s ! i) \<le> snd (B ! i)"
  by (auto simp: bounded_def list_all2_conv_all_nth within_def)

lemma bounded_update: "bounded B s \<Longrightarrow> fst b \<le> sint w \<Longrightarrow> sint w \<le> snd b \<Longrightarrow> bounded (B[i := b]) (s[i := w])"
  by (simp add: bounded_def within_def list_all2_update_cong)

lemma lval_update:
  assumes "i < m" "m \<le> length s"
  shows "lval w m (s[i := x]) = lval w m s + (sint x - sint (s ! i)) * w i"
proof -
  have "lval w m (s[i := x]) = (\<Sum>j<m. sint (s ! j) * w j + (if j = i then (sint x - sint (s ! i)) * w i else 0))"
    unfolding lval_def using assms by (intro sum.cong) (auto simp: algebra_simps)
  also have "\<dots> = lval w m s + (\<Sum>j<m. if j = i then (sint x - sint (s ! i)) * w i else 0)"
    by (simp add: sum.distrib lval_def)
  finally show ?thesis using assms by simp
qed

text \<open>One carry: the limb ends in the window of the shift, the next one takes the carry exactly.\<close>

lemma carry_limbs:
  fixes x y :: "'a::len word"
  assumes M: "machine M TYPE('a)" and h: "0 \<le> H" "H < 2 ^ n" "h = of_int H" and n: "(2::int) ^ n \<le> M"
    and x: "- M \<le> sint x + H" "sint x + H < M"
    and y: "- M \<le> sint y + (sint x + H) div 2 ^ n" "sint y + (sint x + H) div 2 ^ n < M"
  defines "c \<equiv> signed_drop_bit n (x + h)"
  shows "sint (y + c) = sint y + (sint x + H) div 2 ^ n"
    and "sint (x - push_bit n c) = sint x - (sint x + H) div 2 ^ n * 2 ^ n"
    and "- H \<le> sint (x - push_bit n c)" "sint (x - push_bit n c) \<le> 2 ^ n - 1 - H"
    and "sint c = (sint x + H) div 2 ^ n"
proof -
  have xh: "sint (x + h) = sint x + H"
    using machine_sint [OF M x] h(3) by simp
  then show c: "sint c = (sint x + H) div 2 ^ n" by (simp add: c_def sint_signed_shr)
  have "y + c = of_int (sint y + (sint x + H) div 2 ^ n)" by (simp flip: c)
  then show "sint (y + c) = sint y + (sint x + H) div 2 ^ n" by (simp only: machine_sint [OF M y])
  have r: "sint x - (sint x + H) div 2 ^ n * 2 ^ n = (sint x + H) mod 2 ^ n - H"
    by (simp add: minus_div_mult_eq_mod [symmetric])
  have m: "0 \<le> (sint x + H) mod 2 ^ n" "(sint x + H) mod 2 ^ n < 2 ^ n" by simp_all
  have "x - push_bit n c = of_int (sint x - sint c * 2 ^ n)"
    by (subst of_int_shl) simp
  moreover have "- M \<le> sint x - sint c * 2 ^ n" "sint x - sint c * 2 ^ n < M"
    unfolding c r using m h(1,2) n by linarith+
  ultimately show e: "sint (x - push_bit n c) = sint x - (sint x + H) div 2 ^ n * 2 ^ n"
    by (simp only: machine_sint [OF M] c)
  show "- H \<le> sint (x - push_bit n c)" "sint (x - push_bit n c) \<le> 2 ^ n - 1 - H"
    unfolding e r using m by simp_all
qed

lemma carry_step_sound:
  fixes s :: "'a::len word list"
  assumes B: "carry_bounds M n H i B = Some B'" "bounded B s" and M: "machine M TYPE('a)"
    and h: "0 \<le> H" "H < 2 ^ n" "h = of_int H" "(2::int) ^ n \<le> M" and i: "Suc i < length s"
  shows "bounded B' (carry_step n h i s)"
    and "Suc i < m \<Longrightarrow> m \<le> length s \<Longrightarrow> w (Suc i) = 2 ^ n * w i \<Longrightarrow> lval w m (carry_step n h i s) = lval w m s"
proof -
  define x y where "x = s ! i" and "y = s ! Suc i"
  define lo hi where "lo = fst (B ! i) + H" and "hi = snd (B ! i) + H"
  define b where "b = (fst (B ! Suc i) + lo div 2 ^ n, snd (B ! Suc i) + hi div 2 ^ n)"
  have fb: "fits M (lo, hi)" "fits M b" and B': "B' = B[Suc i := b, i := (- H, 2 ^ n - 1 - H)]"
    using B(1) by (auto simp: carry_bounds_def Let_def lo_def hi_def b_def split: if_splits)
  have bx: "lo \<le> sint x + H" "sint x + H \<le> hi"
    using bounded_nth [OF B(2), of i] i by (auto simp: x_def lo_def hi_def)
  have yb: "fst b \<le> sint y + (sint x + H) div 2 ^ n" "sint y + (sint x + H) div 2 ^ n \<le> snd b"
    using bounded_nth [OF B(2) i] bx zdiv_mono1 [of lo "sint x + H" "2 ^ n"] zdiv_mono1 [of "sint x + H" hi "2 ^ n"]
    by (auto simp: b_def y_def)
  have "- M \<le> sint x + H" "sint x + H < M" "- M \<le> sint y + (sint x + H) div 2 ^ n" "sint y + (sint x + H) div 2 ^ n < M"
    using fb bx yb by (auto simp: fits_def)
  note cl = carry_limbs [OF M h this]
  have st: "carry_step n h i s = s[Suc i := y + signed_drop_bit n (x + h), i := x - push_bit n (signed_drop_bit n (x + h))]"
    by (simp add: carry_step_def Let_def x_def y_def)
  show "bounded B' (carry_step n h i s)"
    unfolding st B' using cl by (intro bounded_update B(2)) (auto simp: yb)
  assume m: "Suc i < m" "m \<le> length s" "w (Suc i) = 2 ^ n * w i"
  show "lval w m (carry_step n h i s) = lval w m s"
    unfolding st using m i
    by (simp add: lval_update x_def [symmetric] y_def [symmetric] m(3) cl(1,2))
qed

text \<open>
  \<open>sound p w N n m f F\<close>: on \<open>N\<close> limbs within bounds the analysis \<open>F\<close> accepts, \<open>f\<close> keeps to the bounds \<open>F\<close>
  computes, and the number in the first \<open>m\<close> limbs after is the one in the first \<open>n\<close> limbs before, up to a
  multiple of \<open>p\<close>; \<open>w\<close> gives the weights of the limbs.
\<close>

definition sound :: "int \<Rightarrow> (nat \<Rightarrow> int) \<Rightarrow> nat \<Rightarrow> nat \<Rightarrow> nat \<Rightarrow> ('a::len word list \<Rightarrow> 'a word list) \<Rightarrow>
    (bounds \<Rightarrow> bounds option) \<Rightarrow> bool" where
  "sound p w N n m f F \<longleftrightarrow> (\<forall>s. length s = N \<longrightarrow> length (f s) = N) \<and>
     (\<forall>B B' s. F B = Some B' \<longrightarrow> bounded B s \<longrightarrow> length s = N \<longrightarrow>
        bounded B' (f s) \<and> (\<exists>q. lval w m (f s) = lval w n s + q * p))"

primrec each :: "(nat \<Rightarrow> bounds \<Rightarrow> bounds option) \<Rightarrow> nat list \<Rightarrow> bounds \<Rightarrow> bounds option" where
  "each F [] B = Some B"
| "each F (i # is) B = Option.bind (F i B) (each F is)"

lemma each_fun: "each F [] = Some" "each F (i # is) = (\<lambda>B. Option.bind (F i B) (each F is))"
  by (simp_all add: fun_eq_iff)

lemma soundI:
  assumes "\<And>B B' s. F B = Some B' \<Longrightarrow> bounded B s \<Longrightarrow> length s = N \<Longrightarrow> bounded B' (f s)"
    and "\<And>s. length s = N \<Longrightarrow> length (f s) = N"
    and "\<And>B B' s. F B = Some B' \<Longrightarrow> bounded B s \<Longrightarrow> length s = N \<Longrightarrow> \<exists>q. lval w m (f s) = lval w n s + q * p"
  shows "sound p w N n m f F"
  using assms unfolding sound_def by blast

lemma soundD:
  assumes "sound p w N n m f F" "length s = N"
  shows "length (f s) = N" and "F B = Some B' \<Longrightarrow> bounded B s \<Longrightarrow> bounded B' (f s)"
    and "F B = Some B' \<Longrightarrow> bounded B s \<Longrightarrow> \<exists>q. lval w m (f s) = lval w n s + q * p"
  using assms unfolding sound_def by blast+

lemma sound_comp:
  fixes f g :: "'a::len word list \<Rightarrow> 'a word list"
  assumes "sound p w N n m f F" "sound p w N m k g G"
  shows "sound p w N n k (\<lambda>s. g (f s)) (\<lambda>B. Option.bind (F B) G)"
proof (rule soundI)
  fix B B' and s :: "'a word list" assume "Option.bind (F B) G = Some B'" and s: "bounded B s" "length s = N"
  then obtain B1 where b: "F B = Some B1" "G B1 = Some B'" by (auto simp: bind_eq_Some_conv)
  note f = soundD [OF assms(1) s(2)]
  note g = soundD [OF assms(2) f(1)]
  show "bounded B' (g (f s))" by (rule g(2) [OF b(2) f(2) [OF b(1) s(1)]])
  obtain q q' where "lval w m (f s) = lval w n s + q * p" "lval w k (g (f s)) = lval w m (f s) + q' * p"
    using f(3) [OF b(1) s(1)] g(3) [OF b(2) f(2) [OF b(1) s(1)]] by blast
  then have "lval w k (g (f s)) = lval w n s + (q + q') * p" by (simp add: algebra_simps)
  then show "\<exists>q. lval w k (g (f s)) = lval w n s + q * p" ..
next
  fix s :: "'a word list" assume "length s = N"
  then show "length (g (f s)) = N" using assms unfolding sound_def by blast
qed

lemma sound_id: "sound p w N n n (\<lambda>s. s) Some"
  by (rule soundI) (auto intro: exI [of _ 0])

lemma sound_each:
  assumes "\<And>i. i \<in> set is \<Longrightarrow> sound p w N n n (f i) (F i)"
  shows "sound p w N n n (fold f is) (each F is)"
  using assms
proof (induction "is")
  case Nil
  then show ?case using sound_id [of p w N n] by (simp add: id_def)
next
  case (Cons i "is")
  then show ?case using sound_comp [of p w N n n "f i" "F i" n "fold f is" "each F is"] by (simp add: comp_def)
qed

lemma sound_carry_step:
  fixes h :: "'a::len word"
  assumes M: "machine M TYPE('a)" and h: "0 \<le> H" "H < 2 ^ n" "h = of_int H" "(2::int) ^ n \<le> M"
    and i: "Suc i < k" "k \<le> N" and w: "w (Suc i) = 2 ^ n * w i"
  shows "sound p w N k k (carry_step n h i) (carry_bounds M n H i)"
proof (rule soundI)
  fix B B' and s :: "'a word list" assume s: "carry_bounds M n H i B = Some B'" "bounded B s" "length s = N"
  have l: "Suc i < length s" "k \<le> length s" using i s(3) by simp_all
  note c = carry_step_sound [OF s(1,2) M h l(1)]
  show "bounded B' (carry_step n h i s)" by (rule c(1))
  have "lval w k (carry_step n h i s) = lval w k s + 0 * p" using c(2) [OF i(1) l(2) w] by simp
  then show "\<exists>q. lval w k (carry_step n h i s) = lval w k s + q * p" ..
qed simp

section \<open>Writing limbs as bytes\<close>

lemma unat_nonneg:
  fixes w :: "'a::len word"
  assumes "0 \<le> sint w"
  shows "unat w = nat (sint w)"
proof -
  have "unat (of_int x :: 'a word) = nat (x mod 2 ^ LENGTH('a))" for x
    by (simp add: unat_eq_nat_uint uint_word_of_int)
  from this [of "sint w"] have "unat w = nat (sint w mod 2 ^ LENGTH('a))" by simp
  moreover have "sint w < 2 ^ LENGTH('a)"
  proof -
    have "(2::int) ^ (LENGTH('a) - Suc 0) \<le> 2 ^ LENGTH('a)" by (rule power_increasing) simp_all
    with sint_less [of w] show ?thesis by linarith
  qed
  then have "sint w mod 2 ^ LENGTH('a) = sint w" using assms by (intro mod_pos_pos_trivial)
  ultimately show ?thesis by simp
qed

lemma unat_signed_shr:
  fixes w :: "'a::len word"
  assumes "0 \<le> sint w"
  shows "unat (signed_drop_bit n w) = unat w div 2 ^ n"
proof -
  have "0 \<le> sint (signed_drop_bit n w)" using assms by (simp add: sint_signed_shr pos_imp_zdiv_nonneg_iff)
  then show ?thesis using assms by (simp add: unat_nonneg sint_signed_shr nat_div_distrib nat_power_eq)
qed

lemma byte_shr:
  fixes w :: "'a::len word"
  shows "0 \<le> sint w \<Longrightarrow> unat (ucast (signed_drop_bit n w) :: u8) = unat w div 2 ^ n mod 256"
  by (simp add: unat_ucast_wrap unat_signed_shr)

text \<open>A byte made of the top of one limb and the bottom of the next; the shift may overflow, its low byte does not care.\<close>

lemma byte_join:
  fixes a b :: "'a::len word"
  assumes "0 \<le> sint a" "unat a div 2 ^ n < 2 ^ m" "m + k = 8" "8 \<le> LENGTH('a)"
  shows "unat (ucast (signed_drop_bit n a OR push_bit m b) :: u8) = unat a div 2 ^ n + unat b mod 2 ^ k * 2 ^ m"
proof -
  have p: "(2::nat) ^ m \<le> 256" using power_increasing [of m 8 "2::nat"] assms(3) by simp
  have s: "(256::nat) = 2 ^ k * 2 ^ m" unfolding power_add [symmetric] using assms(3) by (simp add: add.commute)
  have "(2::nat) ^ 8 dvd 2 ^ LENGTH('a)" using assms(4) by (rule le_imp_power_dvd)
  then have "unat (push_bit m b) mod 256 = unat b * 2 ^ m mod 256" by (simp add: unat_shl mod_mod_cancel)
  also have "\<dots> = unat b mod 2 ^ k * 2 ^ m" unfolding s by (rule mult_mod_left [symmetric])
  finally have u: "unat (ucast (push_bit m b) :: u8) = unat b mod 2 ^ k * 2 ^ m" by (simp add: unat_ucast_wrap)
  have v: "unat (ucast (signed_drop_bit n a) :: u8) = unat a div 2 ^ n"
    using assms(2) p by (simp add: byte_shr [OF assms(1)])
  have "unat (ucast (signed_drop_bit n a) OR ucast (push_bit m b) :: u8) = unat a div 2 ^ n + unat b mod 2 ^ k * 2 ^ m"
    using assms(2) by (subst unat_or_disjoint [where n = m]) (simp_all add: u v)
  then show ?thesis by (simp only: unsigned_or_eq)
qed

lemma le_nat_foldr: "le_nat bs = foldr (\<lambda>b n. b + 256 * n) (map unat bs) 0"
  by (induction bs) simp_all

end
