(* ===== verification/Scalars.thy ===== *)
theory Scalars
  imports Limbs
begin

text \<open>
  The arithmetic modulo the order of the base point, \<open>sc_*\<close> of \<open>crypto/crypto-ops.c\<close>. A scalar is 32
  bytes, little endian; the code splits it into limbs of 21 bits held in \<open>int64_t\<close> variables
  \<open>s0, s1, \<dots>\<close>, which are a list here. Runs of lines that differ only in the limb they work on are folds
  over the indices, in the order of the lines.
\<close>

definition load_3 :: "bytes \<Rightarrow> nat \<Rightarrow> u64" where
  "load_3 s k = ucast (s ! k) OR push_bit 8 (ucast (s ! (k + 1))) OR push_bit 16 (ucast (s ! (k + 2)))"

definition load_4 :: "bytes \<Rightarrow> nat \<Rightarrow> u64" where
  "load_4 s k = ucast (s ! k) OR push_bit 8 (ucast (s ! (k + 1))) OR push_bit 16 (ucast (s ! (k + 2))) OR
     push_bit 24 (ucast (s ! (k + 3)))"

text \<open>The twelve limbs of a scalar of 32 bytes, and the 24 limbs of the 64 bytes \<open>sc_reduce\<close> reads.\<close>

definition sc_limbs :: "bytes \<Rightarrow> limbs" where
  "sc_limbs a =
    [2097151 AND load_3 a 0,
     2097151 AND drop_bit 5 (load_4 a 2),
     2097151 AND drop_bit 2 (load_3 a 5),
     2097151 AND drop_bit 7 (load_4 a 7),
     2097151 AND drop_bit 4 (load_4 a 10),
     2097151 AND drop_bit 1 (load_3 a 13),
     2097151 AND drop_bit 6 (load_4 a 15),
     2097151 AND drop_bit 3 (load_3 a 18),
     2097151 AND load_3 a 21,
     2097151 AND drop_bit 5 (load_4 a 23),
     2097151 AND drop_bit 2 (load_3 a 26),
     drop_bit 7 (load_4 a 28)]"

definition sc_wide_limbs :: "bytes \<Rightarrow> limbs" where
  "sc_wide_limbs s =
    [2097151 AND load_3 s 0,
     2097151 AND drop_bit 5 (load_4 s 2),
     2097151 AND drop_bit 2 (load_3 s 5),
     2097151 AND drop_bit 7 (load_4 s 7),
     2097151 AND drop_bit 4 (load_4 s 10),
     2097151 AND drop_bit 1 (load_3 s 13),
     2097151 AND drop_bit 6 (load_4 s 15),
     2097151 AND drop_bit 3 (load_3 s 18),
     2097151 AND load_3 s 21,
     2097151 AND drop_bit 5 (load_4 s 23),
     2097151 AND drop_bit 2 (load_3 s 26),
     2097151 AND drop_bit 7 (load_4 s 28),
     2097151 AND drop_bit 4 (load_4 s 31),
     2097151 AND drop_bit 1 (load_3 s 34),
     2097151 AND drop_bit 6 (load_4 s 36),
     2097151 AND drop_bit 3 (load_3 s 39),
     2097151 AND load_3 s 42,
     2097151 AND drop_bit 5 (load_4 s 44),
     2097151 AND drop_bit 2 (load_3 s 47),
     2097151 AND drop_bit 7 (load_4 s 49),
     2097151 AND drop_bit 4 (load_4 s 52),
     2097151 AND drop_bit 1 (load_3 s 55),
     2097151 AND drop_bit 6 (load_4 s 57),
     drop_bit 3 (load_4 s 60)]"

text \<open>The lines \<open>carry = (s_i + (1<<20)) >> 21; \<dots>\<close> and \<open>carry = s_i >> 21; \<dots>\<close>.\<close>

definition sc_carry :: "nat \<Rightarrow> limbs \<Rightarrow> limbs" where
  "sc_carry i s = carry_step 21 (push_bit 20 1) i s"

definition sc_carry_floor :: "nat \<Rightarrow> limbs \<Rightarrow> limbs" where
  "sc_carry_floor i s = carry_step 21 0 i s"

text \<open>The six lines that fold limb \<open>k\<close> into the limbs twelve and fewer places below it.\<close>

definition sc_fold :: "nat \<Rightarrow> limbs \<Rightarrow> limbs" where
  "sc_fold k s =
     s[k - 12 := s ! (k - 12) + s ! k * 666643,
       k - 11 := s ! (k - 11) + s ! k * 470296,
       k - 10 := s ! (k - 10) + s ! k * 654183,
       k - 9 := s ! (k - 9) - s ! k * 997805,
       k - 8 := s ! (k - 8) + s ! k * 136657,
       k - 7 := s ! (k - 7) - s ! k * 683901]"

text \<open>The reduction of 24 limbs to twelve, common to \<open>sc_reduce\<close>, \<open>sc_mul\<close>, \<open>sc_muladd\<close> and \<open>sc_mulsub\<close>,
  and the end of all routines: balanced carries, two more folds with carries, the bytes.\<close>

definition sc_fold_wide :: "limbs \<Rightarrow> limbs" where
  "sc_fold_wide s =
     (let s = fold sc_fold [23, 22, 21, 20, 19, 18] s;
          s = fold sc_carry [6, 8, 10, 12, 14, 16] s;
          s = fold sc_carry [7, 9, 11, 13, 15] s;
          s = fold sc_fold [17, 16, 15, 14, 13, 12] s
      in s[12 := 0])"

definition sc_balance :: "limbs \<Rightarrow> limbs" where
  "sc_balance s =
     (let s = fold sc_carry [0, 2, 4, 6, 8, 10] s;
          s = fold sc_carry [1, 3, 5, 7, 9, 11] s;
          s = sc_fold 12 s
      in s[12 := 0])"

definition sc_normalize :: "limbs \<Rightarrow> limbs" where
  "sc_normalize s =
     (let s = sc_balance s;
          s = fold sc_carry_floor [0, 1, 2, 3, 4, 5, 6, 7, 8, 9, 10, 11] s;
          s = sc_fold 12 s
      in fold sc_carry_floor [0, 1, 2, 3, 4, 5, 6, 7, 8, 9, 10] s)"

definition sc_bytes :: "limbs \<Rightarrow> bytes" where
  "sc_bytes s =
    [ucast (signed_drop_bit 0 (s ! 0)),
     ucast (signed_drop_bit 8 (s ! 0)),
     ucast (signed_drop_bit 16 (s ! 0) OR push_bit 5 (s ! 1)),
     ucast (signed_drop_bit 3 (s ! 1)),
     ucast (signed_drop_bit 11 (s ! 1)),
     ucast (signed_drop_bit 19 (s ! 1) OR push_bit 2 (s ! 2)),
     ucast (signed_drop_bit 6 (s ! 2)),
     ucast (signed_drop_bit 14 (s ! 2) OR push_bit 7 (s ! 3)),
     ucast (signed_drop_bit 1 (s ! 3)),
     ucast (signed_drop_bit 9 (s ! 3)),
     ucast (signed_drop_bit 17 (s ! 3) OR push_bit 4 (s ! 4)),
     ucast (signed_drop_bit 4 (s ! 4)),
     ucast (signed_drop_bit 12 (s ! 4)),
     ucast (signed_drop_bit 20 (s ! 4) OR push_bit 1 (s ! 5)),
     ucast (signed_drop_bit 7 (s ! 5)),
     ucast (signed_drop_bit 15 (s ! 5) OR push_bit 6 (s ! 6)),
     ucast (signed_drop_bit 2 (s ! 6)),
     ucast (signed_drop_bit 10 (s ! 6)),
     ucast (signed_drop_bit 18 (s ! 6) OR push_bit 3 (s ! 7)),
     ucast (signed_drop_bit 5 (s ! 7)),
     ucast (signed_drop_bit 13 (s ! 7)),
     ucast (signed_drop_bit 0 (s ! 8)),
     ucast (signed_drop_bit 8 (s ! 8)),
     ucast (signed_drop_bit 16 (s ! 8) OR push_bit 5 (s ! 9)),
     ucast (signed_drop_bit 3 (s ! 9)),
     ucast (signed_drop_bit 11 (s ! 9)),
     ucast (signed_drop_bit 19 (s ! 9) OR push_bit 2 (s ! 10)),
     ucast (signed_drop_bit 6 (s ! 10)),
     ucast (signed_drop_bit 14 (s ! 10) OR push_bit 7 (s ! 11)),
     ucast (signed_drop_bit 1 (s ! 11)),
     ucast (signed_drop_bit 9 (s ! 11)),
     ucast (signed_drop_bit 17 (s ! 11))]"

definition sc_reduce :: "bytes \<Rightarrow> bytes" where
  "sc_reduce s = sc_bytes (sc_normalize (sc_fold_wide (sc_wide_limbs s)))"

definition sc_0 :: bytes where
  "sc_0 = replicate 32 0"

definition sc_reduce32 :: "bytes \<Rightarrow> bytes" where
  "sc_reduce32 s = sc_bytes (sc_normalize (sc_limbs s @ [0]))"

definition sc_add :: "bytes \<Rightarrow> bytes \<Rightarrow> bytes" where
  "sc_add a b = sc_bytes (sc_normalize (map2 (+) (sc_limbs a) (sc_limbs b) @ [0]))"

definition sc_sub :: "bytes \<Rightarrow> bytes \<Rightarrow> bytes" where
  "sc_sub a b = sc_bytes (sc_normalize (map2 (-) (sc_limbs a) (sc_limbs b) @ [0]))"

text \<open>The products: the 24 limbs of \<open>c - a b\<close>, \<open>a b\<close> and \<open>c + a b\<close>.\<close>

definition sc_mulsub_limbs :: "limbs \<Rightarrow> limbs \<Rightarrow> limbs \<Rightarrow> limbs" where
  "sc_mulsub_limbs a b c =
    [c ! 0 - a ! 0 * b ! 0,
     c ! 1 - (a ! 0 * b ! 1 + a ! 1 * b ! 0),
     c ! 2 - (a ! 0 * b ! 2 + a ! 1 * b ! 1 + a ! 2 * b ! 0),
     c ! 3 - (a ! 0 * b ! 3 + a ! 1 * b ! 2 + a ! 2 * b ! 1 + a ! 3 * b ! 0),
     c ! 4 - (a ! 0 * b ! 4 + a ! 1 * b ! 3 + a ! 2 * b ! 2 + a ! 3 * b ! 1 + a ! 4 * b ! 0),
     c ! 5 - (a ! 0 * b ! 5 + a ! 1 * b ! 4 + a ! 2 * b ! 3 + a ! 3 * b ! 2 + a ! 4 * b ! 1 + a ! 5 * b ! 0),
     c ! 6 - (a ! 0 * b ! 6 + a ! 1 * b ! 5 + a ! 2 * b ! 4 + a ! 3 * b ! 3 + a ! 4 * b ! 2 + a ! 5 * b ! 1 + a ! 6 * b ! 0),
     c ! 7 - (a ! 0 * b ! 7 + a ! 1 * b ! 6 + a ! 2 * b ! 5 + a ! 3 * b ! 4 + a ! 4 * b ! 3 + a ! 5 * b ! 2 + a ! 6 * b ! 1 + a ! 7 * b ! 0),
     c ! 8 - (a ! 0 * b ! 8 + a ! 1 * b ! 7 + a ! 2 * b ! 6 + a ! 3 * b ! 5 + a ! 4 * b ! 4 + a ! 5 * b ! 3 + a ! 6 * b ! 2 + a ! 7 * b ! 1 + a ! 8 * b ! 0),
     c ! 9 - (a ! 0 * b ! 9 + a ! 1 * b ! 8 + a ! 2 * b ! 7 + a ! 3 * b ! 6 + a ! 4 * b ! 5 + a ! 5 * b ! 4 + a ! 6 * b ! 3 + a ! 7 * b ! 2 + a ! 8 * b ! 1 + a ! 9 * b ! 0),
     c ! 10 - (a ! 0 * b ! 10 + a ! 1 * b ! 9 + a ! 2 * b ! 8 + a ! 3 * b ! 7 + a ! 4 * b ! 6 + a ! 5 * b ! 5 + a ! 6 * b ! 4 + a ! 7 * b ! 3 + a ! 8 * b ! 2 + a ! 9 * b ! 1 + a ! 10 * b ! 0),
     c ! 11 - (a ! 0 * b ! 11 + a ! 1 * b ! 10 + a ! 2 * b ! 9 + a ! 3 * b ! 8 + a ! 4 * b ! 7 + a ! 5 * b ! 6 + a ! 6 * b ! 5 + a ! 7 * b ! 4 + a ! 8 * b ! 3 + a ! 9 * b ! 2 + a ! 10 * b ! 1 + a ! 11 * b ! 0),
     -(a ! 1 * b ! 11 + a ! 2 * b ! 10 + a ! 3 * b ! 9 + a ! 4 * b ! 8 + a ! 5 * b ! 7 + a ! 6 * b ! 6 + a ! 7 * b ! 5 + a ! 8 * b ! 4 + a ! 9 * b ! 3 + a ! 10 * b ! 2 + a ! 11 * b ! 1),
     -(a ! 2 * b ! 11 + a ! 3 * b ! 10 + a ! 4 * b ! 9 + a ! 5 * b ! 8 + a ! 6 * b ! 7 + a ! 7 * b ! 6 + a ! 8 * b ! 5 + a ! 9 * b ! 4 + a ! 10 * b ! 3 + a ! 11 * b ! 2),
     -(a ! 3 * b ! 11 + a ! 4 * b ! 10 + a ! 5 * b ! 9 + a ! 6 * b ! 8 + a ! 7 * b ! 7 + a ! 8 * b ! 6 + a ! 9 * b ! 5 + a ! 10 * b ! 4 + a ! 11 * b ! 3),
     -(a ! 4 * b ! 11 + a ! 5 * b ! 10 + a ! 6 * b ! 9 + a ! 7 * b ! 8 + a ! 8 * b ! 7 + a ! 9 * b ! 6 + a ! 10 * b ! 5 + a ! 11 * b ! 4),
     -(a ! 5 * b ! 11 + a ! 6 * b ! 10 + a ! 7 * b ! 9 + a ! 8 * b ! 8 + a ! 9 * b ! 7 + a ! 10 * b ! 6 + a ! 11 * b ! 5),
     -(a ! 6 * b ! 11 + a ! 7 * b ! 10 + a ! 8 * b ! 9 + a ! 9 * b ! 8 + a ! 10 * b ! 7 + a ! 11 * b ! 6),
     -(a ! 7 * b ! 11 + a ! 8 * b ! 10 + a ! 9 * b ! 9 + a ! 10 * b ! 8 + a ! 11 * b ! 7),
     -(a ! 8 * b ! 11 + a ! 9 * b ! 10 + a ! 10 * b ! 9 + a ! 11 * b ! 8),
     -(a ! 9 * b ! 11 + a ! 10 * b ! 10 + a ! 11 * b ! 9),
     -(a ! 10 * b ! 11 + a ! 11 * b ! 10),
     - (a ! 11) * b ! 11,
     0]"

definition sc_mul_limbs :: "limbs \<Rightarrow> limbs \<Rightarrow> limbs" where
  "sc_mul_limbs a b =
    [a ! 0 * b ! 0,
     a ! 0 * b ! 1 + a ! 1 * b ! 0,
     a ! 0 * b ! 2 + a ! 1 * b ! 1 + a ! 2 * b ! 0,
     a ! 0 * b ! 3 + a ! 1 * b ! 2 + a ! 2 * b ! 1 + a ! 3 * b ! 0,
     a ! 0 * b ! 4 + a ! 1 * b ! 3 + a ! 2 * b ! 2 + a ! 3 * b ! 1 + a ! 4 * b ! 0,
     a ! 0 * b ! 5 + a ! 1 * b ! 4 + a ! 2 * b ! 3 + a ! 3 * b ! 2 + a ! 4 * b ! 1 + a ! 5 * b ! 0,
     a ! 0 * b ! 6 + a ! 1 * b ! 5 + a ! 2 * b ! 4 + a ! 3 * b ! 3 + a ! 4 * b ! 2 + a ! 5 * b ! 1 + a ! 6 * b ! 0,
     a ! 0 * b ! 7 + a ! 1 * b ! 6 + a ! 2 * b ! 5 + a ! 3 * b ! 4 + a ! 4 * b ! 3 + a ! 5 * b ! 2 + a ! 6 * b ! 1 + a ! 7 * b ! 0,
     a ! 0 * b ! 8 + a ! 1 * b ! 7 + a ! 2 * b ! 6 + a ! 3 * b ! 5 + a ! 4 * b ! 4 + a ! 5 * b ! 3 + a ! 6 * b ! 2 + a ! 7 * b ! 1 + a ! 8 * b ! 0,
     a ! 0 * b ! 9 + a ! 1 * b ! 8 + a ! 2 * b ! 7 + a ! 3 * b ! 6 + a ! 4 * b ! 5 + a ! 5 * b ! 4 + a ! 6 * b ! 3 + a ! 7 * b ! 2 + a ! 8 * b ! 1 + a ! 9 * b ! 0,
     a ! 0 * b ! 10 + a ! 1 * b ! 9 + a ! 2 * b ! 8 + a ! 3 * b ! 7 + a ! 4 * b ! 6 + a ! 5 * b ! 5 + a ! 6 * b ! 4 + a ! 7 * b ! 3 + a ! 8 * b ! 2 + a ! 9 * b ! 1 + a ! 10 * b ! 0,
     a ! 0 * b ! 11 + a ! 1 * b ! 10 + a ! 2 * b ! 9 + a ! 3 * b ! 8 + a ! 4 * b ! 7 + a ! 5 * b ! 6 + a ! 6 * b ! 5 + a ! 7 * b ! 4 + a ! 8 * b ! 3 + a ! 9 * b ! 2 + a ! 10 * b ! 1 + a ! 11 * b ! 0,
     a ! 1 * b ! 11 + a ! 2 * b ! 10 + a ! 3 * b ! 9 + a ! 4 * b ! 8 + a ! 5 * b ! 7 + a ! 6 * b ! 6 + a ! 7 * b ! 5 + a ! 8 * b ! 4 + a ! 9 * b ! 3 + a ! 10 * b ! 2 + a ! 11 * b ! 1,
     a ! 2 * b ! 11 + a ! 3 * b ! 10 + a ! 4 * b ! 9 + a ! 5 * b ! 8 + a ! 6 * b ! 7 + a ! 7 * b ! 6 + a ! 8 * b ! 5 + a ! 9 * b ! 4 + a ! 10 * b ! 3 + a ! 11 * b ! 2,
     a ! 3 * b ! 11 + a ! 4 * b ! 10 + a ! 5 * b ! 9 + a ! 6 * b ! 8 + a ! 7 * b ! 7 + a ! 8 * b ! 6 + a ! 9 * b ! 5 + a ! 10 * b ! 4 + a ! 11 * b ! 3,
     a ! 4 * b ! 11 + a ! 5 * b ! 10 + a ! 6 * b ! 9 + a ! 7 * b ! 8 + a ! 8 * b ! 7 + a ! 9 * b ! 6 + a ! 10 * b ! 5 + a ! 11 * b ! 4,
     a ! 5 * b ! 11 + a ! 6 * b ! 10 + a ! 7 * b ! 9 + a ! 8 * b ! 8 + a ! 9 * b ! 7 + a ! 10 * b ! 6 + a ! 11 * b ! 5,
     a ! 6 * b ! 11 + a ! 7 * b ! 10 + a ! 8 * b ! 9 + a ! 9 * b ! 8 + a ! 10 * b ! 7 + a ! 11 * b ! 6,
     a ! 7 * b ! 11 + a ! 8 * b ! 10 + a ! 9 * b ! 9 + a ! 10 * b ! 8 + a ! 11 * b ! 7,
     a ! 8 * b ! 11 + a ! 9 * b ! 10 + a ! 10 * b ! 9 + a ! 11 * b ! 8,
     a ! 9 * b ! 11 + a ! 10 * b ! 10 + a ! 11 * b ! 9,
     a ! 10 * b ! 11 + a ! 11 * b ! 10,
     a ! 11 * b ! 11,
     0]"

definition sc_muladd_limbs :: "limbs \<Rightarrow> limbs \<Rightarrow> limbs \<Rightarrow> limbs" where
  "sc_muladd_limbs a b c =
    [c ! 0 + a ! 0 * b ! 0,
     c ! 1 + (a ! 0 * b ! 1 + a ! 1 * b ! 0),
     c ! 2 + (a ! 0 * b ! 2 + a ! 1 * b ! 1 + a ! 2 * b ! 0),
     c ! 3 + (a ! 0 * b ! 3 + a ! 1 * b ! 2 + a ! 2 * b ! 1 + a ! 3 * b ! 0),
     c ! 4 + (a ! 0 * b ! 4 + a ! 1 * b ! 3 + a ! 2 * b ! 2 + a ! 3 * b ! 1 + a ! 4 * b ! 0),
     c ! 5 + (a ! 0 * b ! 5 + a ! 1 * b ! 4 + a ! 2 * b ! 3 + a ! 3 * b ! 2 + a ! 4 * b ! 1 + a ! 5 * b ! 0),
     c ! 6 + (a ! 0 * b ! 6 + a ! 1 * b ! 5 + a ! 2 * b ! 4 + a ! 3 * b ! 3 + a ! 4 * b ! 2 + a ! 5 * b ! 1 + a ! 6 * b ! 0),
     c ! 7 + (a ! 0 * b ! 7 + a ! 1 * b ! 6 + a ! 2 * b ! 5 + a ! 3 * b ! 4 + a ! 4 * b ! 3 + a ! 5 * b ! 2 + a ! 6 * b ! 1 + a ! 7 * b ! 0),
     c ! 8 + (a ! 0 * b ! 8 + a ! 1 * b ! 7 + a ! 2 * b ! 6 + a ! 3 * b ! 5 + a ! 4 * b ! 4 + a ! 5 * b ! 3 + a ! 6 * b ! 2 + a ! 7 * b ! 1 + a ! 8 * b ! 0),
     c ! 9 + (a ! 0 * b ! 9 + a ! 1 * b ! 8 + a ! 2 * b ! 7 + a ! 3 * b ! 6 + a ! 4 * b ! 5 + a ! 5 * b ! 4 + a ! 6 * b ! 3 + a ! 7 * b ! 2 + a ! 8 * b ! 1 + a ! 9 * b ! 0),
     c ! 10 + (a ! 0 * b ! 10 + a ! 1 * b ! 9 + a ! 2 * b ! 8 + a ! 3 * b ! 7 + a ! 4 * b ! 6 + a ! 5 * b ! 5 + a ! 6 * b ! 4 + a ! 7 * b ! 3 + a ! 8 * b ! 2 + a ! 9 * b ! 1 + a ! 10 * b ! 0),
     c ! 11 + (a ! 0 * b ! 11 + a ! 1 * b ! 10 + a ! 2 * b ! 9 + a ! 3 * b ! 8 + a ! 4 * b ! 7 + a ! 5 * b ! 6 + a ! 6 * b ! 5 + a ! 7 * b ! 4 + a ! 8 * b ! 3 + a ! 9 * b ! 2 + a ! 10 * b ! 1 + a ! 11 * b ! 0),
     a ! 1 * b ! 11 + a ! 2 * b ! 10 + a ! 3 * b ! 9 + a ! 4 * b ! 8 + a ! 5 * b ! 7 + a ! 6 * b ! 6 + a ! 7 * b ! 5 + a ! 8 * b ! 4 + a ! 9 * b ! 3 + a ! 10 * b ! 2 + a ! 11 * b ! 1,
     a ! 2 * b ! 11 + a ! 3 * b ! 10 + a ! 4 * b ! 9 + a ! 5 * b ! 8 + a ! 6 * b ! 7 + a ! 7 * b ! 6 + a ! 8 * b ! 5 + a ! 9 * b ! 4 + a ! 10 * b ! 3 + a ! 11 * b ! 2,
     a ! 3 * b ! 11 + a ! 4 * b ! 10 + a ! 5 * b ! 9 + a ! 6 * b ! 8 + a ! 7 * b ! 7 + a ! 8 * b ! 6 + a ! 9 * b ! 5 + a ! 10 * b ! 4 + a ! 11 * b ! 3,
     a ! 4 * b ! 11 + a ! 5 * b ! 10 + a ! 6 * b ! 9 + a ! 7 * b ! 8 + a ! 8 * b ! 7 + a ! 9 * b ! 6 + a ! 10 * b ! 5 + a ! 11 * b ! 4,
     a ! 5 * b ! 11 + a ! 6 * b ! 10 + a ! 7 * b ! 9 + a ! 8 * b ! 8 + a ! 9 * b ! 7 + a ! 10 * b ! 6 + a ! 11 * b ! 5,
     a ! 6 * b ! 11 + a ! 7 * b ! 10 + a ! 8 * b ! 9 + a ! 9 * b ! 8 + a ! 10 * b ! 7 + a ! 11 * b ! 6,
     a ! 7 * b ! 11 + a ! 8 * b ! 10 + a ! 9 * b ! 9 + a ! 10 * b ! 8 + a ! 11 * b ! 7,
     a ! 8 * b ! 11 + a ! 9 * b ! 10 + a ! 10 * b ! 9 + a ! 11 * b ! 8,
     a ! 9 * b ! 11 + a ! 10 * b ! 10 + a ! 11 * b ! 9,
     a ! 10 * b ! 11 + a ! 11 * b ! 10,
     a ! 11 * b ! 11,
     0]"

definition sc_carry_product :: "limbs \<Rightarrow> limbs" where
  "sc_carry_product s =
     (let s = fold sc_carry [0, 2, 4, 6, 8, 10, 12, 14, 16, 18, 20, 22] s
      in fold sc_carry [1, 3, 5, 7, 9, 11, 13, 15, 17, 19, 21] s)"

definition sc_mulsub :: "bytes \<Rightarrow> bytes \<Rightarrow> bytes \<Rightarrow> bytes" where
  "sc_mulsub a b c =
     sc_bytes (sc_normalize (sc_fold_wide (sc_carry_product (sc_mulsub_limbs (sc_limbs a) (sc_limbs b) (sc_limbs c)))))"

definition sc_mul :: "bytes \<Rightarrow> bytes \<Rightarrow> bytes" where
  "sc_mul a b =
     sc_bytes (sc_normalize (sc_fold_wide (sc_carry_product (sc_mul_limbs (sc_limbs a) (sc_limbs b)))))"

definition sc_muladd :: "bytes \<Rightarrow> bytes \<Rightarrow> bytes \<Rightarrow> bytes" where
  "sc_muladd a b c =
     sc_bytes (sc_normalize (sc_fold_wide (sc_carry_product (sc_muladd_limbs (sc_limbs a) (sc_limbs b) (sc_limbs c)))))"

definition signum :: "i64 \<Rightarrow> i64" where
  "signum a = (if 0 <s a then 1 else if a <s 0 then - 1 else 0)"

text \<open>\<open>sc_check\<close> narrows an \<open>int64_t\<close> to \<open>int\<close>.\<close>

definition sc_check :: "bytes \<Rightarrow> i32" where
  "sc_check s =
     (let s0 = load_4 s 0; s1 = load_4 s 4; s2 = load_4 s 8; s3 = load_4 s 12;
          s4 = load_4 s 16; s5 = load_4 s 20; s6 = load_4 s 24; s7 = load_4 s 28
      in ucast (signed_drop_bit 8
          (signum (1559614444 - s0) + push_bit 1 (signum (1477600026 - s1)) + push_bit 2 (signum (2734136534 - s2)) +
           push_bit 3 (signum (350157278 - s3)) + push_bit 4 (signum (- s4)) + push_bit 5 (signum (- s5)) +
           push_bit 6 (signum (- s6)) + push_bit 7 (signum (268435456 - s7)))))"

definition sc_isnonzero :: "bytes \<Rightarrow> i32" where
  "sc_isnonzero s = signed_drop_bit 8 (ucast (foldl (OR) (s ! 0) (map (nth s) [1..<32])) - 1) + 1"

section \<open>Reading the limbs\<close>

lemma le_nat_drop: "le_nat (drop k s) = le_nat s div 256 ^ k"
proof (induction k arbitrary: s)
  case (Suc k)
  show ?case
  proof (cases s)
    case (Cons b t)
    have "(unat b + 256 * le_nat t) div 256 = le_nat t" using unat_u8_lt [of b] by simp
    then show ?thesis using Suc [of t] Cons by (simp add: div_mult2_eq)
  qed simp
qed simp

lemma le_nat_take: "le_nat (take k s) = le_nat s mod 256 ^ k"
proof (induction k arbitrary: s)
  case (Suc k)
  show ?case
  proof (cases s)
    case (Cons b t)
    have "(unat b + 256 * le_nat t) div 256 = le_nat t" "(unat b + 256 * le_nat t) mod 256 = unat b"
      using unat_u8_lt [of b] by simp_all
    then show ?thesis using Suc [of t] Cons by (simp add: mod_mult2_eq)
  qed simp
qed simp

lemma load_3_nat:
  assumes "k + 3 \<le> length s"
  shows "unat (load_3 s k) = le_nat s div 2 ^ (8 * k) mod 2 ^ 24"
proof -
  have t: "[s ! k, s ! (k + 1), s ! (k + 2)] = take 3 (drop k s)"
    using assms by (auto simp: numeral_3_eq_3 take_Suc_conv_app_nth)
  have "load_3 s k = load_le [s ! k, s ! (k + 1), s ! (k + 2)]"
    by (simp add: load_3_def load_le_Cons push_bit_or)
  then have "unat (load_3 s k) = le_nat (take 3 (drop k s))" unfolding t by (simp add: unat_load_le)
  then show ?thesis by (simp add: le_nat_take le_nat_drop power_mult)
qed

lemma load_4_nat:
  assumes "k + 4 \<le> length s"
  shows "unat (load_4 s k) = le_nat s div 2 ^ (8 * k) mod 2 ^ 32"
proof -
  have t: "[s ! k, s ! (k + 1), s ! (k + 2), s ! (k + 3)] = take 4 (drop k s)"
    using assms by (auto simp: eval_nat_numeral take_Suc_conv_app_nth)
  have "load_4 s k = load_le [s ! k, s ! (k + 1), s ! (k + 2), s ! (k + 3)]"
    by (simp add: load_4_def load_le_Cons push_bit_or or.assoc)
  then have "unat (load_4 s k) = le_nat (take 4 (drop k s))" unfolding t by (simp add: unat_load_le)
  then show ?thesis by (simp add: le_nat_take le_nat_drop power_mult)
qed

lemma sint_unat: "unat w < 9223372036854775808 \<Longrightarrow> sint w = int (unat w)" for w :: i64
proof -
  assume w: "unat w < 9223372036854775808"
  have "w = of_int (int (unat w))" by simp
  then have "sint w = sint (of_int (int (unat w)) :: i64)" by simp
  also have "\<dots> = int (unat w)" by (rule sint_of_int64) (use w in linarith)
  finally show ?thesis .
qed

lemma div_mod_window:
  assumes "b + d \<le> c"
  shows "(N div 2 ^ a mod 2 ^ c) div 2 ^ b mod 2 ^ d = (N::nat) div 2 ^ (a + b) mod 2 ^ d"
proof -
  have "take_bit d (drop_bit b (take_bit c (drop_bit a N))) = take_bit d (drop_bit (a + b) N)"
    using assms by (simp add: drop_bit_take_bit min_absorb1 add.commute le_diff_conv2)
  then show ?thesis by (simp only: take_bit_eq_mod drop_bit_eq_div)
qed

lemma unat_mask21: "unat (2097151 AND w :: u64) = unat w mod 2 ^ 21"
  using unat_and_mask [of w 21] by (simp add: mask_eq_exp_minus_1 and.commute)

lemma sint_mask21: "sint (2097151 AND w :: i64) = int (unat w mod 2 ^ 21)"
proof -
  have "unat w mod 2097152 < 2097152" by simp
  then have "unat (2097151 AND w) < 9223372036854775808" unfolding unat_mask21 by simp
  then show ?thesis by (simp only: sint_unat unat_mask21)
qed

text \<open>A masked limb is a window of 21 bits of the number; the top limb is all the rest.\<close>

lemma limb3:
  "k + 3 \<le> length s \<Longrightarrow> sint (2097151 AND load_3 s k) = int (le_nat s div 2 ^ (8 * k) mod 2 ^ 21)"
  using div_mod_window [of 0 21 24 "le_nat s" "8 * k"] by (simp add: sint_mask21 load_3_nat del: power_numeral)

lemma limb3_shr:
  assumes "k + 3 \<le> length s" "n + 21 \<le> 24"
  shows "sint (2097151 AND drop_bit n (load_3 s k)) = int (le_nat s div 2 ^ (8 * k + n) mod 2 ^ 21)"
  by (simp only: sint_mask21 unat_shr load_3_nat [OF assms(1)] div_mod_window [OF assms(2)])

lemma limb4_shr:
  assumes "k + 4 \<le> length s" "n + 21 \<le> 32"
  shows "sint (2097151 AND drop_bit n (load_4 s k)) = int (le_nat s div 2 ^ (8 * k + n) mod 2 ^ 21)"
  by (simp only: sint_mask21 unat_shr load_4_nat [OF assms(1)] div_mod_window [OF assms(2)])

lemma limb4_top:
  assumes "k + 4 = length s"
  shows "sint (drop_bit n (load_4 s k) :: i64) = int (le_nat s div 2 ^ (8 * k + n))"
proof -
  have "le_nat s < 2 ^ (8 * k + 32)"
    using le_nat_bound [of s] unfolding pow_256 assms [symmetric] by simp
  then have "le_nat s < 2 ^ (8 * k) * 2 ^ 32" unfolding power_add .
  then have "le_nat s div 2 ^ (8 * k) < 2 ^ 32" by (simp add: less_mult_imp_div_less mult.commute)
  then have "unat (load_4 s k) = le_nat s div 2 ^ (8 * k)" using assms by (simp add: load_4_nat)
  then have u: "unat (drop_bit n (load_4 s k)) = le_nat s div 2 ^ (8 * k + n)"
    by (simp add: unat_shr div_mult2_eq power_add)
  have "unat (drop_bit n (load_4 s k)) \<le> unat (load_4 s k)" by (simp add: unat_shr)
  also have "\<dots> < 2 ^ 32" using load_4_nat [of k s] assms by simp
  finally have "unat (drop_bit n (load_4 s k)) < 9223372036854775808" by simp
  from sint_unat [OF this] show ?thesis by (simp only: u)
qed

lemmas limb_values = limb3 limb3_shr limb4_shr limb4_top

lemma sc_limbs_sint:
  assumes "length a = 32"
  shows "map sint (sc_limbs a) = map (\<lambda>i. int (le_nat a div 2 ^ (21 * i) mod 2 ^ 21)) [0..<11] @ [int (le_nat a div 2 ^ 231)]"
  using assms by (simp add: sc_limbs_def limb_values upt_conv_Cons)

lemma sc_wide_limbs_sint:
  assumes "length s = 64"
  shows "map sint (sc_wide_limbs s) = map (\<lambda>i. int (le_nat s div 2 ^ (21 * i) mod 2 ^ 21)) [0..<23] @ [int (le_nat s div 2 ^ 483)]"
  using assms by (simp add: sc_wide_limbs_def limb_values upt_conv_Cons)


section \<open>The number the limbs stand for\<close>

abbreviation sval :: "nat \<Rightarrow> limbs \<Rightarrow> int" where
  "sval \<equiv> lval (\<lambda>i. 2 ^ (21 * i))"

definition sc_order :: int where
  "sc_order = 2 ^ 252 + 27742317777372353535851937790883648493"

lemma lval_map_sint: "m \<le> length s \<Longrightarrow> lval w m s = (\<Sum>i<m. map sint s ! i * w i)"
  by (simp add: lval_def)

lemma digits_sum: "(\<Sum>i<n. int (N div 2 ^ (21 * i) mod 2 ^ 21) * 2 ^ (21 * i)) = int (N mod 2 ^ (21 * n))"
proof (induction n)
  case (Suc n)
  have "N mod 2 ^ (21 * Suc n) = 2 ^ (21 * n) * (N div 2 ^ (21 * n) mod 2 ^ 21) + N mod 2 ^ (21 * n)"
    by (simp add: power_add mod_mult2_eq mult.commute [of "2097152::nat"])
  then show ?case using Suc by (simp add: algebra_simps)
qed simp

lemma windows_sum:
  assumes "map sint s = map (\<lambda>i. int (N div 2 ^ (21 * i) mod 2 ^ 21)) [0..<n] @ [int (N div 2 ^ (21 * n))]"
  shows "sval (Suc n) s = int N"
proof -
  have len: "length s = Suc n" using assms by (metis length_map length_append_singleton length_upt minus_nat.diff_0)
  have e: "sint (s ! i) = int (N div 2 ^ (21 * i) mod 2 ^ 21)" if "i < n" for i
    using that len arg_cong [OF assms, of "\<lambda>l. l ! i"] by (simp add: nth_append)
  have t: "sint (s ! n) = int (N div 2 ^ (21 * n))"
    using len arg_cong [OF assms, of "\<lambda>l. l ! n"] by (simp add: nth_append)
  have "sval n s = int (N mod 2 ^ (21 * n))"
    unfolding digits_sum [symmetric] lval_def by (rule sum.cong) (simp_all only: e lessThan_iff)
  then have "sval (Suc n) s = int (N mod 2 ^ (21 * n)) + int (N div 2 ^ (21 * n)) * 2 ^ (21 * n)"
    using t by (simp add: lval_def)
  also have "\<dots> = int (N mod 2 ^ (21 * n) + N div 2 ^ (21 * n) * 2 ^ (21 * n))" by simp
  finally show ?thesis by (simp only: mod_mult_div_eq mult.commute mod_div_mult_eq mod_mult_div_eq)
qed

lemma sc_limbs_length [simp]: "length (sc_limbs a) = 12" "length (sc_wide_limbs s) = 24"
  by (simp_all add: sc_limbs_def sc_wide_limbs_def)

lemma sc_limbs_val: "length a = 32 \<Longrightarrow> sval 12 (sc_limbs a) = int (le_nat a)"
  using windows_sum [of "sc_limbs a" "le_nat a" 11] sc_limbs_sint [of a] by simp

lemma sc_wide_limbs_val: "length s = 64 \<Longrightarrow> sval 24 (sc_wide_limbs s) = int (le_nat s)"
  using windows_sum [of "sc_wide_limbs s" "le_nat s" 23] sc_wide_limbs_sint [of s] by simp

section \<open>Interval analysis of the folds\<close>

text \<open>The line \<open>s_i += s_k * c\<close> (or \<open>-=\<close>, with a negative \<open>c\<close>).\<close>

definition add_mul :: "nat \<Rightarrow> nat \<Rightarrow> int \<Rightarrow> limbs \<Rightarrow> limbs" where
  "add_mul i k c s = s[i := s ! i + s ! k * of_int c]"

definition add_mul_bounds :: "nat \<Rightarrow> nat \<Rightarrow> int \<Rightarrow> bounds \<Rightarrow> bounds option" where
  "add_mul_bounds i k c B =
     (let l = (if 0 \<le> c then fst (B ! k) else snd (B ! k)) * c;
          h = (if 0 \<le> c then snd (B ! k) else fst (B ! k)) * c;
          b = (fst (B ! i) + l, snd (B ! i) + h)
      in if fits max64 (l, h) \<and> fits max64 b then Some (B[i := b]) else None)"

lemma length_add_mul [simp]: "length (add_mul i k c s) = length s"
  by (simp add: add_mul_def)

lemma add_mul_sound:
  assumes B: "add_mul_bounds i k c B = Some B'" "bounded B s" and i: "i < length s" "k < length s"
  shows "bounded B' (add_mul i k c s)"
    and "i < m \<Longrightarrow> m \<le> length s \<Longrightarrow> lval w m (add_mul i k c s) = lval w m s + sint (s ! k) * c * w i"
    and "i < k \<Longrightarrow> add_mul i k c s ! k = s ! k"
proof -
  define l h where "l = (if 0 \<le> c then fst (B ! k) else snd (B ! k)) * c"
    and "h = (if 0 \<le> c then snd (B ! k) else fst (B ! k)) * c"
  define b where "b = (fst (B ! i) + l, snd (B ! i) + h)"
  have fb: "fits max64 (l, h)" "fits max64 b" and B': "B' = B[i := b]"
    using B(1) unfolding add_mul_bounds_def Let_def l_def [symmetric] h_def [symmetric] b_def [symmetric]
    by (auto split: if_splits)
  have p: "l \<le> sint (s ! k) * c" "sint (s ! k) * c \<le> h"
    using bounded_nth [OF B(2) i(2)] by (auto simp: l_def h_def mult_right_mono mult_right_mono_neg)
  then have q: "fst b \<le> sint (s ! i) + sint (s ! k) * c" "sint (s ! i) + sint (s ! k) * c \<le> snd b"
    using bounded_nth [OF B(2) i(1)] by (auto simp: b_def)
  have "s ! i + s ! k * of_int c = of_int (sint (s ! i) + sint (s ! k) * c)" by simp
  then have v: "sint (s ! i + s ! k * of_int c) = sint (s ! i) + sint (s ! k) * c"
    using sint_of_int64 [of "sint (s ! i) + sint (s ! k) * c"] fb(2) q by (simp add: fits_def)
  show "bounded B' (add_mul i k c s)" unfolding B' add_mul_def using q by (intro bounded_update B(2)) (simp_all add: v)
  show "lval w m (add_mul i k c s) = lval w m s + sint (s ! k) * c * w i" if "i < m" "m \<le> length s"
    unfolding add_mul_def using that by (simp add: lval_update v)
  show "add_mul i k c s ! k = s ! k" if "i < k" using that by (simp add: add_mul_def)
qed

lemma sc_fold_add_mul:
  assumes "12 \<le> k" "k < length s"
  shows "sc_fold k s = add_mul (k - 7) k (- 683901) (add_mul (k - 8) k 136657 (add_mul (k - 9) k (- 997805)
    (add_mul (k - 10) k 654183 (add_mul (k - 11) k 470296 (add_mul (k - 12) k 666643 s)))))"
  using assms by (simp add: sc_fold_def add_mul_def)

definition sc_fold_bounds :: "nat \<Rightarrow> bounds \<Rightarrow> bounds option" where
  "sc_fold_bounds k B =
     Option.bind (add_mul_bounds (k - 12) k 666643 B) (\<lambda>B.
     Option.bind (add_mul_bounds (k - 11) k 470296 B) (\<lambda>B.
     Option.bind (add_mul_bounds (k - 10) k 654183 B) (\<lambda>B.
     Option.bind (add_mul_bounds (k - 9) k (- 997805) B) (\<lambda>B.
     Option.bind (add_mul_bounds (k - 8) k 136657 B) (\<lambda>B. add_mul_bounds (k - 7) k (- 683901) B)))))"

lemma length_sc_fold [simp]: "length (sc_fold k s) = length s"
  by (simp add: sc_fold_def)

lemma sc_fold_sound:
  assumes B: "sc_fold_bounds k B = Some B'" "bounded B s" and k: "12 \<le> k" "k < length s"
  shows "bounded B' (sc_fold k s)"
    and "sval k (sc_fold k s) = sval (Suc k) s - sint (s ! k) * 2 ^ (21 * (k - 12)) * sc_order"
proof -
  obtain B1 B2 B3 B4 B5 where b:
    "add_mul_bounds (k - 12) k 666643 B = Some B1" "add_mul_bounds (k - 11) k 470296 B1 = Some B2"
    "add_mul_bounds (k - 10) k 654183 B2 = Some B3" "add_mul_bounds (k - 9) k (- 997805) B3 = Some B4"
    "add_mul_bounds (k - 8) k 136657 B4 = Some B5" "add_mul_bounds (k - 7) k (- 683901) B5 = Some B'"
    using B(1) by (auto simp: sc_fold_bounds_def bind_eq_Some_conv)
  have ix: "k - 12 < k" "k - 11 < k" "k - 10 < k" "k - 9 < k" "k - 8 < k" "k - 7 < k" using k by auto
  note len = ix [THEN less_trans, OF k(2)]
  note s1 = add_mul_sound [OF b(1) B(2) len(1) k(2)]
  note s2 = add_mul_sound [OF b(2) s1(1), unfolded length_add_mul, OF len(2) k(2)]
  note s3 = add_mul_sound [OF b(3) s2(1), unfolded length_add_mul, OF len(3) k(2)]
  note s4 = add_mul_sound [OF b(4) s3(1), unfolded length_add_mul, OF len(4) k(2)]
  note s5 = add_mul_sound [OF b(5) s4(1), unfolded length_add_mul, OF len(5) k(2)]
  note s6 = add_mul_sound [OF b(6) s5(1), unfolded length_add_mul, OF len(6) k(2)]
  show "bounded B' (sc_fold k s)" unfolding sc_fold_add_mul [OF k] by (rule s6(1))
  have val: "lval v k (sc_fold k s) = lval v k s + sint (s ! k) * 666643 * v (k - 12) + sint (s ! k) * 470296 * v (k - 11) +
      sint (s ! k) * 654183 * v (k - 10) + sint (s ! k) * (- 997805) * v (k - 9) + sint (s ! k) * 136657 * v (k - 8) +
      sint (s ! k) * (- 683901) * v (k - 7)" for v
    unfolding sc_fold_add_mul [OF k] using ix k(2)
    by (simp add: s6(2) s5(2,3) s4(2,3) s3(2,3) s2(2,3) s1(2,3))
  define u :: int where "u = 2 ^ (21 * (k - 12))"
  have w: "(2::int) ^ (21 * (k - 11)) = 2 ^ 21 * u" "(2::int) ^ (21 * (k - 10)) = 2 ^ 42 * u"
    "(2::int) ^ (21 * (k - 9)) = 2 ^ 63 * u" "(2::int) ^ (21 * (k - 8)) = 2 ^ 84 * u"
    "(2::int) ^ (21 * (k - 7)) = 2 ^ 105 * u" "(2::int) ^ (21 * k) = 2 ^ 252 * u"
    unfolding u_def power_add [symmetric] using k(1) by (auto intro!: arg_cong [of _ _ "\<lambda>n. 2 ^ n"])
  have "sval (Suc k) s = sval k s + sint (s ! k) * 2 ^ (21 * k)" by (simp add: lval_def)
  then show "sval k (sc_fold k s) = sval (Suc k) s - sint (s ! k) * 2 ^ (21 * (k - 12)) * sc_order"
    unfolding val w u_def [symmetric] by (simp add: sc_order_def)
qed


abbreviation sc_sound :: "nat \<Rightarrow> nat \<Rightarrow> nat \<Rightarrow> (limbs \<Rightarrow> limbs) \<Rightarrow> (bounds \<Rightarrow> bounds option) \<Rightarrow> bool" where
  "sc_sound \<equiv> sound sc_order (\<lambda>i. 2 ^ (21 * i))"

lemma sound_carry:
  assumes "Suc i < n" "n \<le> N"
  shows "sc_sound N n n (sc_carry i) (carry_bounds max64 21 1048576 i)"
  unfolding sc_carry_def [abs_def]
  by (rule sound_carry_step) (use assms in \<open>simp_all add: power_add\<close>)

lemma sound_carry_floor:
  assumes "Suc i < n" "n \<le> N"
  shows "sc_sound N n n (sc_carry_floor i) (carry_bounds max64 21 0 i)"
  unfolding sc_carry_floor_def [abs_def]
  by (rule sound_carry_step) (use assms in \<open>simp_all add: power_add\<close>)

lemma sound_fold:
  assumes "12 \<le> k" "k < N" "n = Suc k"
  shows "sc_sound N n k (sc_fold k) (sc_fold_bounds k)"
proof (rule soundI)
  fix B B' and s :: limbs assume s: "sc_fold_bounds k B = Some B'" "bounded B s" "length s = N"
  note f = sc_fold_sound [OF s(1,2) assms(1)]
  show "bounded B' (sc_fold k s)" using f(1) s(3) assms(2) by simp
  have "sval k (sc_fold k s) = sval n s + (- (sint (s ! k) * 2 ^ (21 * (k - 12)))) * sc_order"
    using f(2) s(3) assms(2,3) by simp
  then show "\<exists>q. sval k (sc_fold k s) = sval n s + q * sc_order" ..
qed simp

definition clear_bounds :: "bounds \<Rightarrow> bounds option" where
  "clear_bounds B = Some (B[12 := (0, 0)])"

lemma sval_clear: "12 < length s \<Longrightarrow> sval 13 (s[12 := 0]) = sval 12 s" for s :: limbs
proof -
  assume s: "12 < length s"
  have "sval 13 (s[12 := 0]) = sval 13 s - sint (s ! 12) * 2 ^ 252" using s by (simp add: lval_update)
  also have "sval 13 s = sval (Suc 12) s" by simp
  finally show ?thesis by (simp only: lval_def sum.lessThan_Suc) simp
qed

lemma sound_clear:
  assumes "12 < N"
  shows "sc_sound N 12 13 (\<lambda>s. s[12 := 0]) clear_bounds"
proof (rule soundI)
  fix B B' and s :: limbs assume s: "clear_bounds B = Some B'" "bounded B s" "length s = N"
  show "bounded B' (s[12 := 0])" using s by (auto simp: clear_bounds_def intro: bounded_update)
  have "sval 13 (s[12 := 0]) = sval 12 s + 0 * sc_order" using s(3) assms by (simp add: sval_clear)
  then show "\<exists>q. sval 13 (s[12 := 0]) = sval 12 s + q * sc_order" ..
qed simp

text \<open>The shared parts of the routines.\<close>

definition fold_wide_bounds :: "bounds \<Rightarrow> bounds option" where
  "fold_wide_bounds B =
     Option.bind (each sc_fold_bounds [23, 22, 21, 20, 19, 18] B) (\<lambda>B.
     Option.bind (each (carry_bounds max64 21 1048576) [6, 8, 10, 12, 14, 16] B) (\<lambda>B.
     Option.bind (each (carry_bounds max64 21 1048576) [7, 9, 11, 13, 15] B) (\<lambda>B.
     Option.bind (each sc_fold_bounds [17, 16, 15, 14, 13, 12] B) clear_bounds)))"

definition balance_bounds :: "bounds \<Rightarrow> bounds option" where
  "balance_bounds B =
     Option.bind (each (carry_bounds max64 21 1048576) [0, 2, 4, 6, 8, 10] B) (\<lambda>B.
     Option.bind (each (carry_bounds max64 21 1048576) [1, 3, 5, 7, 9, 11] B) (\<lambda>B.
     Option.bind (sc_fold_bounds 12 B) clear_bounds))"

definition product_bounds :: "bounds \<Rightarrow> bounds option" where
  "product_bounds B =
     Option.bind (each (carry_bounds max64 21 1048576) [0, 2, 4, 6, 8, 10, 12, 14, 16, 18, 20, 22] B)
       (each (carry_bounds max64 21 1048576) [1, 3, 5, 7, 9, 11, 13, 15, 17, 19, 21])"

lemma sound_each_fold:
  assumes "12 \<le> k" "k + 6 \<le> N"
  shows "sc_sound N (k + 6) k (fold sc_fold [k + 5, k + 4, k + 3, k + 2, k + 1, k])
     (each sc_fold_bounds [k + 5, k + 4, k + 3, k + 2, k + 1, k])"
proof -
  have "sc_sound N (k + 6) (k + 5) (sc_fold (k + 5)) (sc_fold_bounds (k + 5))"
    "sc_sound N (k + 5) (k + 4) (sc_fold (k + 4)) (sc_fold_bounds (k + 4))"
    "sc_sound N (k + 4) (k + 3) (sc_fold (k + 3)) (sc_fold_bounds (k + 3))"
    "sc_sound N (k + 3) (k + 2) (sc_fold (k + 2)) (sc_fold_bounds (k + 2))"
    "sc_sound N (k + 2) (k + 1) (sc_fold (k + 1)) (sc_fold_bounds (k + 1))"
    "sc_sound N (k + 1) k (sc_fold k) (sc_fold_bounds k)"
    using assms by (auto intro: sound_fold)
  from sound_comp [OF this(1) sound_comp [OF this(2) sound_comp [OF this(3) sound_comp [OF this(4) sound_comp [OF this(5) this(6)]]]]]
  show ?thesis by (simp add: comp_def each_fun)
qed

lemma sound_fold_wide: "sc_sound 24 24 13 sc_fold_wide fold_wide_bounds"
proof -
  note f1 = sound_each_fold [of 18 24, simplified] and f2 = sound_each_fold [of 12 24, simplified]
  have c: "sc_sound 24 18 18 (fold sc_carry is) (each (carry_bounds max64 21 1048576) is)" if "\<forall>i\<in>set is. Suc i < 18" for "is"
    using that by (intro sound_each sound_carry) auto
  note c1 = c [of "[6, 8, 10, 12, 14, 16]", simplified] and c2 = c [of "[7, 9, 11, 13, 15]", simplified]
  from sound_comp [OF f1 sound_comp [OF c1 sound_comp [OF c2 sound_comp [OF f2 sound_clear [of 24]]]]]
  show ?thesis by (simp add: sc_fold_wide_def [abs_def] fold_wide_bounds_def [abs_def] Let_def)
qed


lemma sound_balance: "13 \<le> N \<Longrightarrow> sc_sound N 13 13 sc_balance balance_bounds"
proof -
  assume N: "13 \<le> N"
  have c: "sc_sound N 13 13 (fold sc_carry is) (each (carry_bounds max64 21 1048576) is)" if "\<forall>i\<in>set is. Suc i < 13" for "is"
    using that N by (intro sound_each sound_carry) auto
  note c1 = c [of "[0, 2, 4, 6, 8, 10]", simplified] and c2 = c [of "[1, 3, 5, 7, 9, 11]", simplified]
  have f: "sc_sound N 13 12 (sc_fold 12) (sc_fold_bounds 12)" using N by (intro sound_fold) auto
  from sound_comp [OF c1 sound_comp [OF c2 sound_comp [OF f sound_clear [of N]]]] N
  show ?thesis by (simp add: sc_balance_def [abs_def] balance_bounds_def [abs_def] Let_def)
qed

lemma sound_product: "sc_sound 24 24 24 sc_carry_product product_bounds"
proof -
  have c: "sc_sound 24 24 24 (fold sc_carry is) (each (carry_bounds max64 21 1048576) is)" if "\<forall>i\<in>set is. Suc i < 24" for "is"
    using that by (intro sound_each sound_carry) auto
  note c1 = c [of "[0, 2, 4, 6, 8, 10, 12, 14, 16, 18, 20, 22]", simplified]
    and c2 = c [of "[1, 3, 5, 7, 9, 11, 13, 15, 17, 19, 21]", simplified]
  from sound_comp [OF c1 c2] show ?thesis
    by (simp add: sc_carry_product_def [abs_def] product_bounds_def [abs_def] Let_def)
qed


section \<open>The normal form\<close>

lemma floors_exact:
  assumes "each (carry_bounds max64 21 0) is B = Some B'" "bounded B s" "\<forall>i\<in>set is. Suc i < m" "m \<le> length s"
  shows "bounded B' (fold sc_carry_floor is s) \<and> sval m (fold sc_carry_floor is s) = sval m s \<and>
    length (fold sc_carry_floor is s) = length s"
  using assms
proof (induction "is" arbitrary: B s)
  case (Cons i "is")
  have h: "0 \<le> (0::int)" "(0::int) < 2 ^ 21" "(0 :: i64) = of_int 0" "(2::int) ^ 21 \<le> max64" by simp_all
  have w: "(2::int) ^ (21 * Suc i) = 2 ^ 21 * 2 ^ (21 * i)" by (simp add: power_add)
  obtain B1 where b: "carry_bounds max64 21 0 i B = Some B1" "each (carry_bounds max64 21 0) is B1 = Some B'"
    using Cons.prems(1) by (auto simp: bind_eq_Some_conv)
  have i: "Suc i < length s" "Suc i < m" "m \<le> length s" using Cons.prems(3,4) by auto
  note c = carry_step_sound [OF b(1) Cons.prems(2) machine64 h i(1), folded sc_carry_floor_def]
  have "length (sc_carry_floor i s) = length s" by (simp add: sc_carry_floor_def)
  with Cons.IH [OF b(2) c(1)] c(2) [OF i(2,3) w] Cons.prems(3,4) show ?case by simp
qed auto

definition lower_sum :: "bounds \<Rightarrow> int" where
  "lower_sum B = (\<Sum>i\<leftarrow>[0..<12]. fst (B ! i) * 2 ^ (21 * i))"

definition upper_sum :: "bounds \<Rightarrow> int" where
  "upper_sum B = (\<Sum>i\<leftarrow>[0..<12]. snd (B ! i) * 2 ^ (21 * i))"

definition normalize_ok :: "bounds \<Rightarrow> bool" where
  "normalize_ok B =
     (case balance_bounds B of None \<Rightarrow> False | Some B1 \<Rightarrow>
        - (2 ^ 252) \<le> lower_sum B1 \<and> upper_sum B1 < 2 ^ 252 \<and>
        (case each (carry_bounds max64 21 0) [0, 1, 2, 3, 4, 5, 6, 7, 8, 9, 10, 11] B1 of None \<Rightarrow> False | Some B2 \<Rightarrow>
           take 12 B2 = replicate 12 (0, 2097151) \<and>
           (case sc_fold_bounds 12 B2 of None \<Rightarrow> False | Some B3 \<Rightarrow>
              (case each (carry_bounds max64 21 0) [0, 1, 2, 3, 4, 5, 6, 7, 8, 9, 10] B3 of None \<Rightarrow> False | Some B4 \<Rightarrow>
                 take 11 B4 = replicate 11 (0, 2097151)))))"

lemma sval_between:
  assumes "bounded B s" "12 \<le> length s"
  shows "lower_sum B \<le> sval 12 s" "sval 12 s \<le> upper_sum B"
proof -
  have b: "fst (B ! i) * 2 ^ (21 * i) \<le> sint (s ! i) * 2 ^ (21 * i)" "sint (s ! i) * 2 ^ (21 * i) \<le> snd (B ! i) * 2 ^ (21 * i)"
    if "i < 12" for i
    using bounded_nth [OF assms(1), of i] that assms(2) by (auto intro: mult_right_mono)
  show "lower_sum B \<le> sval 12 s" "sval 12 s \<le> upper_sum B"
    unfolding lower_sum_def upper_sum_def lval_def sum_list_distinct_conv_sum_set [OF distinct_upt] set_upt
      atLeast0LessThan using b by (auto intro: sum_mono)
qed

lemma sval_split: "sval (Suc n) s = sval n s + sint (s ! n) * 2 ^ (21 * n)"
  by (simp add: lval_def)

lemma digits_range:
  assumes "\<And>i. i < n \<Longrightarrow> 0 \<le> sint (s ! i) \<and> sint (s ! i) \<le> 2097151"
  shows "0 \<le> sval n s \<and> sval n s < 2 ^ (21 * n)"
  using assms
proof (induction n)
  case (Suc n)
  have p: "0 < (2::int) ^ (21 * n)" by simp
  have s: "0 \<le> sint (s ! n)" "sint (s ! n) \<le> 2097151" using Suc.prems [of n] by auto
  have ih: "0 \<le> sval n s" "sval n s < 2 ^ (21 * n)" using Suc by auto
  have "0 \<le> sval (Suc n) s" unfolding sval_split using ih s p by simp
  have "sint (s ! n) * 2 ^ (21 * n) \<le> 2097151 * 2 ^ (21 * n)" using s p by (intro mult_right_mono) auto
  moreover have "(2::int) ^ (21 * Suc n) = 2097152 * 2 ^ (21 * n)" by (simp add: power_add)
  ultimately have "sval (Suc n) s < 2 ^ (21 * Suc n)" unfolding sval_split using ih by linarith
  with \<open>0 \<le> sval (Suc n) s\<close> show ?case ..
qed (simp_all add: lval_def)

lemma window_digits:
  assumes "bounded B s" "take n B = replicate n (0, 2097151)" "i < n" "n \<le> length s"
  shows "0 \<le> sint (s ! i) \<and> sint (s ! i) \<le> 2097151"
proof -
  have "B ! i = (0, 2097151)" using arg_cong [OF assms(2), of "\<lambda>l. l ! i"] assms(3) by simp
  then show ?thesis using bounded_nth [OF assms(1), of i] assms(3,4) by simp
qed

lemma final_quotient:
  fixes v r q :: int
  assumes "v = r + q * 2 ^ 252" "0 \<le> r" "r < 2 ^ 252" "- (2 ^ 252) \<le> v" "v < 2 ^ 252"
  shows "v - q * sc_order = v mod sc_order"
proof -
  have "- 1 * 2 ^ 252 \<le> r + q * 2 ^ 252" "r + q * 2 ^ 252 < 1 * 2 ^ 252" using assms by simp_all
  then have "q = 0 \<or> q = - 1" using assms(2,3) by auto
  then show ?thesis
  proof
    assume q: "q = 0"
    have "v < sc_order" using assms(5) by (simp add: sc_order_def)
    then show ?thesis using q assms(1,2) by (simp add: mod_pos_pos_trivial)
  next
    assume q: "q = - 1"
    then have "0 \<le> v + sc_order" "v + sc_order < sc_order" using assms by (simp_all add: sc_order_def)
    then have "(v + sc_order) mod sc_order = v + sc_order" by (rule mod_pos_pos_trivial)
    then show ?thesis using q by simp
  qed
qed


lemma length_sc_carry [simp]: "length (sc_carry i s) = length s" "length (sc_carry_floor i s) = length s"
  by (simp_all add: sc_carry_def sc_carry_floor_def)

lemma normalize_value:
  assumes ok: "normalize_ok B" and s: "bounded B s" "13 \<le> length s"
  shows "sval 12 (sc_normalize s) = sval 13 s mod sc_order"
    and "i < 11 \<Longrightarrow> 0 \<le> sint (sc_normalize s ! i) \<and> sint (sc_normalize s ! i) \<le> 2097151"
    and "length (sc_normalize s) = length s"
proof -
  obtain B1 where B1: "balance_bounds B = Some B1" "- (2 ^ 252) \<le> lower_sum B1" "upper_sum B1 < 2 ^ 252"
    using ok by (auto simp: normalize_ok_def split: option.splits)
  obtain B2 where B2: "each (carry_bounds max64 21 0) [0, 1, 2, 3, 4, 5, 6, 7, 8, 9, 10, 11] B1 = Some B2"
    "take 12 B2 = replicate 12 (0, 2097151)"
    using ok B1 by (auto simp only: normalize_ok_def option.case split: option.splits)
  obtain B3 where B3: "sc_fold_bounds 12 B2 = Some B3"
    using ok B1 B2 by (auto simp only: normalize_ok_def option.case split: option.splits)
  obtain B4 where B4: "each (carry_bounds max64 21 0) [0, 1, 2, 3, 4, 5, 6, 7, 8, 9, 10] B3 = Some B4"
    "take 11 B4 = replicate 11 (0, 2097151)"
    using ok B1 B2 B3 by (auto simp only: normalize_ok_def option.case split: option.splits)
  define s1 where "s1 = sc_balance s"
  define s2 where "s2 = fold sc_carry_floor [0, 1, 2, 3, 4, 5, 6, 7, 8, 9, 10, 11] s1"
  define s3 where "s3 = sc_fold 12 s2"
  define s4 where "s4 = fold sc_carry_floor [0, 1, 2, 3, 4, 5, 6, 7, 8, 9, 10] s3"
  have n: "sc_normalize s = s4" by (simp only: sc_normalize_def Let_def s4_def s3_def s2_def s1_def)
  note b1 = soundD [OF sound_balance [OF s(2)] refl, folded s1_def]
  obtain q where q: "sval 13 s1 = sval 13 s + q * sc_order" using b1(3) [OF B1(1) s(1)] by blast
  have s13: "sval 13 s1 = sval 12 s1"
  proof -
    have "s1 ! 12 = 0"
      unfolding s1_def sc_balance_def Let_def by (rule nth_list_update_eq) (use s(2) in simp)
    then show ?thesis using sval_split [of 12 s1] by simp
  qed
  have v: "- (2 ^ 252) \<le> sval 13 s1" "sval 13 s1 < 2 ^ 252"
    using sval_between [OF b1(2) [OF B1(1) s(1)]] B1(2,3) s13 b1(1) s(2) by simp_all
  note f2 = floors_exact [OF B2(1) b1(2) [OF B1(1) s(1)], of 13, folded s2_def]
  have s2: "bounded B2 s2" "sval 13 s2 = sval 13 s1" "length s2 = length s" using f2 b1(1) s(2) by auto
  have d: "0 \<le> sval 12 s2" "sval 12 s2 < 2 ^ 252"
    using digits_range [of 12 s2] window_digits [OF s2(1) B2(2)] s2(3) s(2) by auto
  have sp: "sval 13 s2 = sval 12 s2 + sint (s2 ! 12) * 2 ^ 252" using sval_split [of 12 s2] by simp
  note f3 = sc_fold_sound [OF B3 s2(1), folded s3_def]
  have s3: "bounded B3 s3" "sval 12 s3 = sval 13 s2 - sint (s2 ! 12) * sc_order" "length s3 = length s"
    using f3 s2(3) s(2) by (simp_all add: s3_def)
  have e: "sval 12 s3 = sval 13 s2 mod sc_order"
    unfolding s3(2) using sp d v s2(2) by (intro final_quotient [of _ "sval 12 s2"]) simp_all
  note f4 = floors_exact [OF B4(1) s3(1), of 12, folded s4_def]
  have s4: "bounded B4 s4" "sval 12 s4 = sval 12 s3" "length s4 = length s" using f4 s3(3) s(2) by auto
  show "sval 12 (sc_normalize s) = sval 13 s mod sc_order" unfolding n s4(2) e s2(2) q by simp
  show "0 \<le> sint (sc_normalize s ! i) \<and> sint (sc_normalize s ! i) \<le> 2097151" if "i < 11"
    unfolding n using window_digits [OF s4(1) B4(2) that] s4(3) s(2) by simp
  show "length (sc_normalize s) = length s" unfolding n by (rule s4(3))
qed

section \<open>Writing the bytes\<close>

text \<open>A limb of 21 bits cut at the byte boundaries.\<close>

lemma cut_bytes:
  fixes x :: nat
  assumes "b = a * 256"
  shows "x = x mod a + a * (x div a mod 256) + b * (x div b)"
proof -
  have "a * (x div a) = a * (x div a mod 256 + 256 * (x div a div 256))" by simp
  also have "\<dots> = a * (x div a mod 256) + b * (x div b)"
    by (simp only: distrib_left div_mult2_eq mult.assoc assms)
  finally show ?thesis using mod_mult_div_eq [of x a] by linarith
qed

lemma cut_bytes2:
  fixes x :: nat
  assumes "b = a * 256" "c = b * 256"
  shows "x = x mod a + a * (x div a mod 256) + b * (x div b mod 256) + c * (x div c)"
proof -
  have "b * (x div b) = b * (x div b mod 256 + 256 * (x div b div 256))" by simp
  also have "\<dots> = b * (x div b mod 256) + c * (x div c)"
    by (simp only: distrib_left div_mult2_eq mult.assoc assms(2))
  finally show ?thesis using cut_bytes [OF assms(1), of x] by linarith
qed

lemma pack_sum:
  fixes p0 q0 r0 p1 q1 r1 t1 p2 q2 r2 p3 q3 r3 t3 p4 q4 r4 t4 p5 q5 r5 p6 q6 r6 t6 p7 q7 r7 p8 q8 r8 p9 q9 r9 t9
    p10 q10 r10 p11 q11 r11 t11 :: nat
  shows "foldr (\<lambda>b n. b + 256 * n) [p0, q0, r0 + p1 * 32, q1, r1, t1 + p2 * 4, q2, r2 + p3 * 128, q3,
    r3, t3 + p4 * 16, q4, r4, t4 + p5 * 2, q5, r5 + p6 * 64, q6, r6, t6 + p7 * 8, q7, r7, p8, q8, r8 + p9 * 32,
    q9, r9, t9 + p10 * 4, q10, r10 + p11 * 128, q11, r11, t11] 0 =
    (p0 + 256 * q0 + 65536 * r0) +
    (p1 + 8 * q1 + 2048 * r1 + 524288 * t1) * 2 ^ 21 +
    (p2 + 64 * q2 + 16384 * r2) * 2 ^ 42 +
    (p3 + 2 * q3 + 512 * r3 + 131072 * t3) * 2 ^ 63 +
    (p4 + 16 * q4 + 4096 * r4 + 1048576 * t4) * 2 ^ 84 +
    (p5 + 128 * q5 + 32768 * r5) * 2 ^ 105 +
    (p6 + 4 * q6 + 1024 * r6 + 262144 * t6) * 2 ^ 126 +
    (p7 + 32 * q7 + 8192 * r7) * 2 ^ 147 +
    (p8 + 256 * q8 + 65536 * r8) * 2 ^ 168 +
    (p9 + 8 * q9 + 2048 * r9 + 524288 * t9) * 2 ^ 189 +
    (p10 + 64 * q10 + 16384 * r10) * 2 ^ 210 +
    (p11 + 2 * q11 + 512 * r11 + 131072 * t11) * 2 ^ 231"
  by simp

lemma sc_bytes_nat:
  assumes s: "\<And>i. i < 12 \<Longrightarrow> 0 \<le> sint (s ! i)" and x: "\<And>i. i < 11 \<Longrightarrow> unat (s ! i) < 2 ^ 21" "unat (s ! 11) < 2 ^ 22"
  shows "le_nat (sc_bytes s) = (\<Sum>i<12. unat (s ! i) * 2 ^ (21 * i))"
proof -
  define x where "x i = unat (s ! i)" for i
  have b: "unat (ucast (signed_drop_bit n (s ! i)) :: u8) = x i div 2 ^ n mod 256" if "i < 12" for i n
    unfolding x_def by (rule byte_shr [OF s [OF that]])
  have j: "unat (ucast (signed_drop_bit n (s ! i) OR push_bit m (s ! Suc i)) :: u8) = x i div 2 ^ n + x (Suc i) mod 2 ^ (8 - m) * 2 ^ m"
    if "Suc i < 12" "21 = n + m" "m \<le> 8" for i n m
  proof (unfold x_def, rule byte_join)
    show "0 \<le> sint (s ! i)" using s that(1) by simp
    have "unat (s ! i) < 2 ^ m * 2 ^ n" unfolding power_add [symmetric] using x(1) [of i] that by (simp add: add.commute)
    then show "unat (s ! i) div 2 ^ n < 2 ^ m" by (rule less_mult_imp_div_less)
    show "m + (8 - m) = 8" using that(3) by simp
    show "8 \<le> LENGTH(64)" by simp
  qed
  have top: "x 11 div 131072 mod 256 = x 11 div 131072" using x(2) by (simp add: x_def)
  have small: "x 7 div 8192 mod 256 = x 7 div 8192" using x(1) [of 7] by (simp add: x_def)
  have cuts:
    "x 0 = x 0 mod 256 + 256 * (x 0 div 256 mod 256) + 65536 * (x 0 div 65536)"
    "x 1 = x 1 mod 8 + 8 * (x 1 div 8 mod 256) + 2048 * (x 1 div 2048 mod 256) + 524288 * (x 1 div 524288)"
    "x 2 = x 2 mod 64 + 64 * (x 2 div 64 mod 256) + 16384 * (x 2 div 16384)"
    "x 3 = x 3 mod 2 + 2 * (x 3 div 2 mod 256) + 512 * (x 3 div 512 mod 256) + 131072 * (x 3 div 131072)"
    "x 4 = x 4 mod 16 + 16 * (x 4 div 16 mod 256) + 4096 * (x 4 div 4096 mod 256) + 1048576 * (x 4 div 1048576)"
    "x 5 = x 5 mod 128 + 128 * (x 5 div 128 mod 256) + 32768 * (x 5 div 32768)"
    "x 6 = x 6 mod 4 + 4 * (x 6 div 4 mod 256) + 1024 * (x 6 div 1024 mod 256) + 262144 * (x 6 div 262144)"
    "x 7 = x 7 mod 32 + 32 * (x 7 div 32 mod 256) + 8192 * (x 7 div 8192)"
    "x 8 = x 8 mod 256 + 256 * (x 8 div 256 mod 256) + 65536 * (x 8 div 65536)"
    "x 9 = x 9 mod 8 + 8 * (x 9 div 8 mod 256) + 2048 * (x 9 div 2048 mod 256) + 524288 * (x 9 div 524288)"
    "x 10 = x 10 mod 64 + 64 * (x 10 div 64 mod 256) + 16384 * (x 10 div 16384)"
    "x 11 = x 11 mod 2 + 2 * (x 11 div 2 mod 256) + 512 * (x 11 div 512 mod 256) + 131072 * (x 11 div 131072)"
    by (rule cut_bytes cut_bytes2; simp)+
  have sum12: "(\<Sum>i<12. f i) = f 0 + f 1 + f 2 + f 3 + f 4 + f 5 + f 6 + f 7 + f 8 + f 9 + f 10 + (f 11 :: nat)" for f :: "nat \<Rightarrow> nat"
    by (simp add: numeral_eq_Suc)
  note joins = j [of 0 16 5, simplified] j [of 1 19 2, simplified, folded numeral_2_eq_2] j [of 2 14 7, simplified] j [of 3 17 4, simplified]
       j [of 4 20 1, simplified] j [of 5 15 6, simplified] j [of 6 18 3, simplified] j [of 8 16 5, simplified]
       j [of 9 19 2, simplified] j [of 10 14 7, simplified]
  have bytes: "map unat (sc_bytes s) =
      [x 0 mod 256, x 0 div 256 mod 256, x 0 div 65536 + x 1 mod 8 * 32, x 1 div 8 mod 256, x 1 div 2048 mod 256, x 1
       div 524288 + x 2 mod 64 * 4, x 2 div 64 mod 256, x 2 div 16384 + x 3 mod 2 * 128, x 3 div 2 mod 256, x 3 div
       512 mod 256, x 3 div 131072 + x 4 mod 16 * 16, x 4 div 16 mod 256, x 4 div 4096 mod 256, x 4 div 1048576 + x 5
       mod 128 * 2, x 5 div 128 mod 256, x 5 div 32768 + x 6 mod 4 * 64, x 6 div 4 mod 256, x 6 div 1024 mod 256, x 6
       div 262144 + x 7 mod 32 * 8, x 7 div 32 mod 256, x 7 div 8192, x 8 mod 256, x 8 div 256 mod 256, x 8 div 65536
       + x 9 mod 8 * 32, x 9 div 8 mod 256, x 9 div 2048 mod 256, x 9 div 524288 + x 10 mod 64 * 4, x 10 div 64 mod
       256, x 10 div 16384 + x 11 mod 2 * 128, x 11 div 2 mod 256, x 11 div 512 mod 256, x 11 div 131072]"
    unfolding sc_bytes_def by (simp add: b b [of _ 0, simplified] joins top small)
  show ?thesis
    unfolding le_nat_foldr bytes pack_sum cuts [symmetric] x_def [symmetric] sum12 by simp
qed


lemma sc_bytes_value:
  assumes "\<And>i. i < 11 \<Longrightarrow> 0 \<le> sint (s ! i) \<and> sint (s ! i) \<le> 2097151"
    and v: "0 \<le> sval 12 s" "sval 12 s < sc_order"
  shows "int (le_nat (sc_bytes s)) = sval 12 s"
proof -
  have d: "0 \<le> sval 11 s" "sval 11 s < 2 ^ 231" using digits_range [of 11 s] assms(1) by auto
  have sp: "sval 12 s = sval 11 s + sint (s ! 11) * 2 ^ 231" using sval_split [of 11 s] by simp
  have "- 1 * 2 ^ 231 < sint (s ! 11) * 2 ^ 231" "sint (s ! 11) * 2 ^ 231 < 2 ^ 22 * 2 ^ 231"
    using v sp d by (simp_all add: sc_order_def)
  then have t: "0 \<le> sint (s ! 11)" "sint (s ! 11) < 4194304" by simp_all
  have nn: "0 \<le> sint (s ! i)" if "i < 12" for i
    using assms(1) [of i] t that by (cases "i = 11") auto
  have u: "int (unat (s ! i)) = sint (s ! i)" if "i < 12" for i
    using nn [OF that] by (simp add: unat_nonneg)
  have "unat (s ! i) < 2097152" if "i < 11" for i using u [of i] assms(1) [OF that] that by linarith
  moreover have "unat (s ! 11) < 4194304" using u [of 11] t by linarith
  ultimately have "le_nat (sc_bytes s) = (\<Sum>i<12. unat (s ! i) * 2 ^ (21 * i))" using sc_bytes_nat [OF nn] by simp
  then have "int (le_nat (sc_bytes s)) = (\<Sum>i<12. int (unat (s ! i)) * 2 ^ (21 * i))" by simp
  also have "\<dots> = sval 12 s" unfolding lval_def by (rule sum.cong) (simp_all only: u lessThan_iff)
  finally show ?thesis .
qed

lemma sc_order_pos: "0 < sc_order"
  by (simp add: sc_order_def)

lemma sc_result:
  assumes "normalize_ok B" "bounded B s" "13 \<le> length s"
  shows "int (le_nat (sc_bytes (sc_normalize s))) = sval 13 s mod sc_order"
proof -
  note n = normalize_value [OF assms]
  have "0 \<le> sval 12 (sc_normalize s)" "sval 12 (sc_normalize s) < sc_order"
    unfolding n(1) using sc_order_pos by simp_all
  from sc_bytes_value [OF n(2) this] show ?thesis by (simp only: n(1))
qed

lemma length_sc_bytes [simp]: "length (sc_bytes s) = 32"
  by (simp add: sc_bytes_def)

section \<open>Bounds of the routines\<close>

definition narrow_limbs :: bounds where
  "narrow_limbs = replicate 11 (- 4194304, 4194304) @ [(- 67108864, 67108864), (0, 0)]"

definition wide_limbs :: bounds where
  "wide_limbs = replicate 23 (0, 2097151) @ [(0, 536870911)]"

definition product_limbs :: bounds where
  "product_limbs = replicate 23 (- 1125899973951488, 1125899973951488) @ [(0, 0)]"

lemma narrow_ok: "normalize_ok narrow_limbs"
  by code_simp

lemma wide_ok: "case fold_wide_bounds wide_limbs of None \<Rightarrow> False | Some B \<Rightarrow> normalize_ok B"
  by code_simp

lemma product_ok:
  "case product_bounds product_limbs of None \<Rightarrow> False | Some B \<Rightarrow>
    (case fold_wide_bounds B of None \<Rightarrow> False | Some B \<Rightarrow> normalize_ok B)"
  by code_simp


section \<open>Products\<close>

definition conv :: "limbs \<Rightarrow> limbs \<Rightarrow> nat \<Rightarrow> int" where
  "conv a b k = (\<Sum>i\<leftarrow>[k - 11..<Suc (min k 11)]. sint (a ! i) * sint (b ! (k - i)))"

lemma conv_sum: "conv a b k = (\<Sum>i\<in>{k - 11..min k 11}. sint (a ! i) * sint (b ! (k - i)))"
  unfolding conv_def sum_list_distinct_conv_sum_set [OF distinct_upt] set_upt
  by (simp add: atLeastLessThanSuc_atLeastAtMost)

lemma sum_conv:
  fixes w :: int
  shows "(\<Sum>k<23. conv a b k * w ^ k) = (\<Sum>i<12. sint (a ! i) * w ^ i) * (\<Sum>j<12. sint (b ! j) * w ^ j)"
proof -
  have "(\<Sum>k<23. conv a b k * w ^ k) =
      (\<Sum>(k, i)\<in>Sigma {..<23} (\<lambda>k. {k - 11..min k 11}). sint (a ! i) * sint (b ! (k - i)) * w ^ k)"
    by (simp add: conv_sum sum_distrib_right sum.Sigma)
  also have "\<dots> = (\<Sum>(i, j)\<in>{..<12} \<times> {..<12}. sint (a ! i) * sint (b ! j) * w ^ (i + j))"
    by (rule sum.reindex_bij_witness [of _ "\<lambda>(i, j). (i + j, i)" "\<lambda>(k, i). (i, k - i)"]) auto
  also have "\<dots> = (\<Sum>i<12. sint (a ! i) * w ^ i) * (\<Sum>j<12. sint (b ! j) * w ^ j)"
    by (simp add: sum_product sum.cartesian_product power_add mult_ac)
  finally show ?thesis .
qed

lemma sc_mul_limbs_conv: "sc_mul_limbs a b = map (\<lambda>k. of_int (conv a b k)) [0..<23] @ [0]"
  by (simp add: sc_mul_limbs_def conv_def upt_conv_Cons numeral_2_eq_2 [symmetric] add.assoc)

lemma sc_muladd_limbs_conv:
  "sc_muladd_limbs a b c = map (\<lambda>k. (if k < 12 then c ! k else 0) + of_int (conv a b k)) [0..<23] @ [0]"
  by (simp add: sc_muladd_limbs_def conv_def upt_conv_Cons numeral_2_eq_2 [symmetric] add.assoc)

lemma sc_mulsub_limbs_conv:
  "sc_mulsub_limbs a b c = map (\<lambda>k. (if k < 12 then c ! k else 0) - of_int (conv a b k)) [0..<23] @ [0]"
  by (simp add: sc_mulsub_limbs_def conv_def upt_conv_Cons numeral_2_eq_2 [symmetric] add.assoc)


lemma sc_limbs_range:
  assumes "length a = 32"
  shows "i < 11 \<Longrightarrow> 0 \<le> sint (sc_limbs a ! i) \<and> sint (sc_limbs a ! i) \<le> 2097151"
    and "0 \<le> sint (sc_limbs a ! 11) \<and> sint (sc_limbs a ! 11) \<le> 33554431"
proof -
  note m = sc_limbs_sint [OF assms]
  have "sint (sc_limbs a ! i) = int (le_nat a div 2 ^ (21 * i) mod 2097152)" if "i < 11" for i
    using arg_cong [OF m, of "\<lambda>l. l ! i"] that by (simp add: nth_append)
  moreover have "int (x mod 2097152) \<le> 2097151" for x
    using mod_less_divisor [of 2097152 x] by linarith
  ultimately show "0 \<le> sint (sc_limbs a ! i) \<and> sint (sc_limbs a ! i) \<le> 2097151" if "i < 11"
    using that by (simp only: of_nat_0_le_iff simp_thms)
  have "sint (sc_limbs a ! 11) = int (le_nat a div 2 ^ 231)"
    using arg_cong [OF m, of "\<lambda>l. l ! 11"] by (simp add: nth_append)
  moreover have "le_nat a < 33554432 * 2 ^ 231" using le_nat_bound [of a] assms by simp
  then have "le_nat a div 2 ^ 231 < 33554432" by (rule less_mult_imp_div_less)
  ultimately show "0 \<le> sint (sc_limbs a ! 11) \<and> sint (sc_limbs a ! 11) \<le> 33554431" by simp
qed

lemma sc_limbs_range':
  assumes "length a = 32" "i < 12"
  shows "0 \<le> sint (sc_limbs a ! i)" "sint (sc_limbs a ! i) \<le> 33554431"
proof -
  have "i < 11 \<or> i = 11" using assms(2) by auto
  then show "0 \<le> sint (sc_limbs a ! i)" "sint (sc_limbs a ! i) \<le> 33554431"
    using sc_limbs_range(1) [OF assms(1), of i] sc_limbs_range(2) [OF assms(1)] by auto
qed

lemma conv_range:
  assumes "length a = 32" "length b = 32" "k < 23"
  shows "0 \<le> conv (sc_limbs a) (sc_limbs b) k" "conv (sc_limbs a) (sc_limbs b) k \<le> 1125899906842624"
proof -
  let ?t = "\<lambda>i. sint (sc_limbs a ! i) * sint (sc_limbs b ! (k - i))"
  have nn: "0 \<le> ?t i" if "i \<in> {k - 11..min k 11}" for i
    using that sc_limbs_range' [OF assms(1), of i] sc_limbs_range' [OF assms(2), of "k - i"] by auto
  then show "0 \<le> conv (sc_limbs a) (sc_limbs b) k" unfolding conv_sum by (rule sum_nonneg)
  show "conv (sc_limbs a) (sc_limbs b) k \<le> 1125899906842624"
  proof (cases "k = 22")
    case True
    have "?t 11 \<le> 33554431 * 33554431"
      using sc_limbs_range(2) [OF assms(1)] sc_limbs_range(2) [OF assms(2)] True by (intro mult_mono) auto
    then show ?thesis using True by (simp add: conv_sum)
  next
    case False
    have "?t i \<le> 70368744177664" if i: "i \<in> {k - 11..min k 11}" for i
    proof -
      have ix: "i < 12" "k - i < 12" "i < 11 \<or> k - i < 11" using i False assms(3) by auto
      from ix(3) show ?thesis
      proof
        assume "i < 11"
        then have "?t i \<le> 2097151 * 33554431"
          using sc_limbs_range(1) [OF assms(1)] sc_limbs_range' [OF assms(2) ix(2)] by (intro mult_mono) auto
        then show ?thesis by simp
      next
        assume "k - i < 11"
        then have "?t i \<le> 33554431 * 2097151"
          using sc_limbs_range(1) [OF assms(2)] sc_limbs_range' [OF assms(1) ix(1)]
            sc_limbs_range' [OF assms(2) ix(2)] by (intro mult_mono) auto
        then show ?thesis by simp
      qed
    qed
    then have "conv (sc_limbs a) (sc_limbs b) k \<le> of_nat (card {k - 11..min k 11}) * 70368744177664"
      unfolding conv_sum by (rule sum_bounded_above)
    moreover have "card {k - 11..min k 11} \<le> 12" by simp
    ultimately show ?thesis by linarith
  qed
qed

lemma product_list:
  assumes "\<And>k. k < 23 \<Longrightarrow> - 1125899973951488 \<le> e k \<and> e k \<le> 1125899973951488"
  defines "L \<equiv> map (\<lambda>k. of_int (e k) :: i64) [0..<23] @ [0]"
  shows "bounded product_limbs L" "sval 24 L = (\<Sum>k<23. e k * 2 ^ (21 * k))" "length L = 24"
proof -
  have v: "sint (L ! k) = e k" if "k < 23" for k
    using that assms(1) [OF that] by (simp add: L_def nth_append sint_of_int64)
  have t: "sint (L ! 23) = 0" by (simp add: L_def nth_append)
  show len: "length L = 24" by (simp add: L_def)
  have "within (product_limbs ! k) (L ! k)" if "k < 24" for k
  proof (cases "k = 23")
    case True
    then show ?thesis using t by (simp add: within_def product_limbs_def nth_append)
  next
    case False
    then have "k < 23" using that by simp
    then show ?thesis using assms(1) [of k] v [of k] by (simp add: within_def product_limbs_def nth_append)
  qed
  then show "bounded product_limbs L"
    using len by (simp add: bounded_def list_all2_conv_all_nth product_limbs_def)
  have "sval 24 L = sval 23 L" using sval_split [of 23 L] t by simp
  also have "\<dots> = (\<Sum>k<23. e k * 2 ^ (21 * k))" unfolding lval_def by (rule sum.cong) (simp_all add: v)
  finally show "sval 24 L = (\<Sum>k<23. e k * 2 ^ (21 * k))" .
qed

lemma product_result:
  assumes "bounded product_limbs L" "length L = 24"
  shows "int (le_nat (sc_bytes (sc_normalize (sc_fold_wide (sc_carry_product L))))) = sval 24 L mod sc_order"
proof -
  obtain B1 B2 where b: "product_bounds product_limbs = Some B1" "fold_wide_bounds B1 = Some B2" "normalize_ok B2"
    using product_ok by (auto split: option.splits)
  note p = soundD [OF sound_product assms(2)]
  note f = soundD [OF sound_fold_wide p(1)]
  note b1 = p(2) [OF b(1) assms(1)]
  obtain q q' where "sval 24 (sc_carry_product L) = sval 24 L + q * sc_order"
    "sval 13 (sc_fold_wide (sc_carry_product L)) = sval 24 (sc_carry_product L) + q' * sc_order"
    using p(3) [OF b(1) assms(1)] f(3) [OF b(2) b1] by blast
  then have "sval 13 (sc_fold_wide (sc_carry_product L)) mod sc_order = sval 24 L mod sc_order" by simp
  then show ?thesis using sc_result [OF b(3) f(2) [OF b(2) b1]] f(1) by simp
qed


section \<open>What the routines compute\<close>

abbreviation sc_int :: "bytes \<Rightarrow> int" where
  "sc_int a \<equiv> int (le_nat a)"

lemma sc_reduce_value:
  assumes "length s = 64"
  shows "sc_int (sc_reduce s) = sc_int s mod sc_order"
proof -
  note m = sc_wide_limbs_sint [OF assms]
  have v: "sint (sc_wide_limbs s ! i) = int (le_nat s div 2 ^ (21 * i) mod 2097152)" if "i < 23" for i
    using arg_cong [OF m, of "\<lambda>l. l ! i"] that by (simp add: nth_append)
  have r: "int (x mod 2097152) \<le> 2097151" for x using mod_less_divisor [of 2097152 x] by linarith
  have t: "sint (sc_wide_limbs s ! 23) = int (le_nat s div 2 ^ 483)"
    using arg_cong [OF m, of "\<lambda>l. l ! 23"] by (simp add: nth_append)
  have "le_nat s < 536870912 * 2 ^ 483" using le_nat_bound [of s] assms by simp
  then have top: "le_nat s div 2 ^ 483 < 536870912" by (rule less_mult_imp_div_less)
  have "within (wide_limbs ! i) (sc_wide_limbs s ! i)" if "i < 24" for i
  proof (cases "i = 23")
    case True
    then show ?thesis using t top by (simp add: within_def wide_limbs_def nth_append)
  next
    case False
    then have i: "i < 23" using that by simp
    then have "wide_limbs ! i = (0, 2097151)" by (simp add: wide_limbs_def nth_append)
    then show ?thesis using v [OF i] r by (simp only: within_def fst_conv snd_conv of_nat_0_le_iff simp_thms)
  qed
  then have w: "bounded wide_limbs (sc_wide_limbs s)"
    by (simp add: bounded_def list_all2_conv_all_nth wide_limbs_def)
  obtain B where b: "fold_wide_bounds wide_limbs = Some B" "normalize_ok B"
    using wide_ok by (auto split: option.splits)
  note f = soundD [OF sound_fold_wide sc_limbs_length(2)]
  obtain q where "sval 13 (sc_fold_wide (sc_wide_limbs s)) = sval 24 (sc_wide_limbs s) + q * sc_order"
    using f(3) [OF b(1) w] by blast
  then have "sval 13 (sc_fold_wide (sc_wide_limbs s)) mod sc_order = sc_int s mod sc_order"
    by (simp add: sc_wide_limbs_val [OF assms])
  then show ?thesis using sc_result [OF b(2) f(2) [OF b(1) w]] f(1) by (simp add: sc_reduce_def)
qed

lemma narrow_result:
  assumes "length L = 12" "\<And>i. i < 11 \<Longrightarrow> \<bar>sint (L ! i)\<bar> \<le> 4194304" "\<bar>sint (L ! 11)\<bar> \<le> 67108864"
  shows "sc_int (sc_bytes (sc_normalize (L @ [0]))) = sval 12 L mod sc_order"
proof -
  have "within (narrow_limbs ! i) ((L @ [0]) ! i)" if i: "i < 13" for i
  proof -
    consider "i < 11" | "i = 11" | "i = 12" using i by linarith
    then show ?thesis
    proof cases
      case 1
      then show ?thesis using assms(1) assms(2) [of i] by (simp add: within_def narrow_limbs_def nth_append abs_le_iff)
    next
      case 2
      then show ?thesis using assms(1,3) by (simp add: within_def narrow_limbs_def nth_append abs_le_iff)
    next
      case 3
      then show ?thesis using assms(1) by (simp add: within_def narrow_limbs_def nth_append)
    qed
  qed
  then have "bounded narrow_limbs (L @ [0])"
    using assms(1) by (simp add: bounded_def list_all2_conv_all_nth narrow_limbs_def)
  note r = sc_result [OF narrow_ok this]
  have "sval 13 (L @ [0]) = sval 12 (L @ [0])" using sval_split [of 12 "L @ [0]"] assms(1) by (simp add: nth_append)
  also have "\<dots> = sval 12 L" unfolding lval_def using assms(1) by (intro sum.cong) (simp_all add: nth_append)
  finally show ?thesis using r assms(1) by simp
qed

lemma sc_reduce32_value:
  assumes "length s = 32"
  shows "sc_int (sc_reduce32 s) = sc_int s mod sc_order"
proof -
  note r = sc_limbs_range(1) [OF assms] and r' = sc_limbs_range(2) [OF assms]
  have "\<bar>sint (sc_limbs s ! i)\<bar> \<le> 4194304" if "i < 11" for i using r [OF that] by simp
  moreover have "\<bar>sint (sc_limbs s ! 11)\<bar> \<le> 67108864" using r' by simp
  ultimately show ?thesis
    unfolding sc_reduce32_def sc_limbs_val [OF assms, symmetric] by (intro narrow_result sc_limbs_length)
qed

lemma sc_limbs_add:
  assumes "length a = 32" "length b = 32" "i < 12"
  shows "sint (map2 (+) (sc_limbs a) (sc_limbs b) ! i) = sint (sc_limbs a ! i) + sint (sc_limbs b ! i)"
    and "sint (map2 (-) (sc_limbs a) (sc_limbs b) ! i) = sint (sc_limbs a ! i) - sint (sc_limbs b ! i)"
proof -
  note r = sc_limbs_range' [OF assms(1,3)] sc_limbs_range' [OF assms(2,3)]
  have "int64 (sint (sc_limbs a ! i) + sint (sc_limbs b ! i))" using r by simp
  then show "sint (map2 (+) (sc_limbs a) (sc_limbs b) ! i) = sint (sc_limbs a ! i) + sint (sc_limbs b ! i)"
    using assms(3) by (simp add: sint_add64)
  have "int64 (sint (sc_limbs a ! i) - sint (sc_limbs b ! i))" using r by simp
  then show "sint (map2 (-) (sc_limbs a) (sc_limbs b) ! i) = sint (sc_limbs a ! i) - sint (sc_limbs b ! i)"
    using assms(3) by (simp add: sint_diff64)
qed

lemma sc_add_value:
  assumes "length a = 32" "length b = 32"
  shows "sc_int (sc_add a b) = (sc_int a + sc_int b) mod sc_order"
    and "sc_int (sc_sub a b) = (sc_int a - sc_int b) mod sc_order"
proof -
  note v = sc_limbs_add [OF assms]
  note ra = sc_limbs_range(1) [OF assms(1)] sc_limbs_range(2) [OF assms(1)]
    and rb = sc_limbs_range(1) [OF assms(2)] sc_limbs_range(2) [OF assms(2)]
  have "sval 12 (map2 (+) (sc_limbs a) (sc_limbs b)) = sc_int a + sc_int b"
    unfolding sc_limbs_val [OF assms(1), symmetric] sc_limbs_val [OF assms(2), symmetric] lval_def
      sum.distrib [symmetric] by (intro sum.cong) (simp_all only: v(1) lessThan_iff distrib_right)
  moreover have "\<bar>sint (map2 (+) (sc_limbs a) (sc_limbs b) ! i)\<bar> \<le> 4194304" if "i < 11" for i
    using v(1) [of i] ra(1) [OF that] rb(1) [OF that] that by (simp add: abs_le_iff)
  moreover have "\<bar>sint (map2 (+) (sc_limbs a) (sc_limbs b) ! 11)\<bar> \<le> 67108864"
    using v(1) [of 11] ra(2) rb(2) by (simp add: abs_le_iff)
  ultimately show "sc_int (sc_add a b) = (sc_int a + sc_int b) mod sc_order"
    using narrow_result [of "map2 (+) (sc_limbs a) (sc_limbs b)"] by (simp add: sc_add_def)
  have "sval 12 (map2 (-) (sc_limbs a) (sc_limbs b)) = sc_int a - sc_int b"
    unfolding sc_limbs_val [OF assms(1), symmetric] sc_limbs_val [OF assms(2), symmetric] lval_def
      sum_subtractf [symmetric] by (intro sum.cong) (simp_all only: v(2) lessThan_iff left_diff_distrib)
  moreover have "\<bar>sint (map2 (-) (sc_limbs a) (sc_limbs b) ! i)\<bar> \<le> 4194304" if "i < 11" for i
    using v(2) [of i] ra(1) [OF that] rb(1) [OF that] that by (simp add: abs_le_iff)
  moreover have "\<bar>sint (map2 (-) (sc_limbs a) (sc_limbs b) ! 11)\<bar> \<le> 67108864"
    using v(2) [of 11] ra(2) rb(2) by (simp add: abs_le_iff)
  ultimately show "sc_int (sc_sub a b) = (sc_int a - sc_int b) mod sc_order"
    using narrow_result [of "map2 (-) (sc_limbs a) (sc_limbs b)"] by (simp add: sc_sub_def)
qed


lemma conv_value:
  assumes "length a = 32" "length b = 32"
  shows "(\<Sum>k<23. conv (sc_limbs a) (sc_limbs b) k * 2 ^ (21 * k)) = sc_int a * sc_int b"
proof -
  have "sval 12 s = (\<Sum>i<12. sint (s ! i) * 2097152 ^ i)" for s by (simp add: lval_def power_mult)
  then show ?thesis
    using sum_conv [of "sc_limbs a" "sc_limbs b" 2097152] assms by (simp add: power_mult flip: sc_limbs_val)
qed

definition addend :: "bytes \<Rightarrow> nat \<Rightarrow> int" where
  "addend c k = (if k < 12 then sint (sc_limbs c ! k) else 0)"

lemma addend_range: "length c = 32 \<Longrightarrow> 0 \<le> addend c k \<and> addend c k \<le> 33554431"
  using sc_limbs_range' [of c k] by (simp add: addend_def)

lemma addend_sum:
  assumes "length c = 32"
  shows "(\<Sum>k<23. addend c k * 2 ^ (21 * k)) = sc_int c"
proof -
  have "(\<Sum>k<23. addend c k * 2 ^ (21 * k)) = (\<Sum>k<12. addend c k * 2 ^ (21 * k))"
    by (rule sum.mono_neutral_right) (auto simp: addend_def)
  also have "\<dots> = sval 12 (sc_limbs c)" unfolding lval_def by (rule sum.cong) (simp_all add: addend_def)
  finally show ?thesis using assms by (simp add: sc_limbs_val)
qed

lemma of_int_addend: "of_int (addend c k) = (if k < 12 then sc_limbs c ! k else 0)"
  by (simp add: addend_def)

lemma sc_mul_value:
  assumes "length a = 32" "length b = 32"
  shows "sc_int (sc_mul a b) = sc_int a * sc_int b mod sc_order"
proof -
  have e: "- 1125899973951488 \<le> conv (sc_limbs a) (sc_limbs b) k \<and> conv (sc_limbs a) (sc_limbs b) k \<le> 1125899973951488"
    if "k < 23" for k using conv_range [OF assms that] by simp
  note p = product_list [where e = "conv (sc_limbs a) (sc_limbs b)", OF e]
  show ?thesis
    using product_result [OF p(1) p(3)] p(2) by (simp add: sc_mul_def sc_mul_limbs_conv conv_value [OF assms])
qed

lemma sc_muladd_value:
  assumes "length a = 32" "length b = 32" "length c = 32"
  shows "sc_int (sc_muladd a b c) = (sc_int c + sc_int a * sc_int b) mod sc_order"
proof -
  let ?e = "\<lambda>k. addend c k + conv (sc_limbs a) (sc_limbs b) k"
  have e: "- 1125899973951488 \<le> ?e k \<and> ?e k \<le> 1125899973951488" if "k < 23" for k
    using conv_range [OF assms(1,2) that] addend_range [OF assms(3), of k] by linarith
  note p = product_list [where e = ?e, OF e]
  have "(\<Sum>k<23. ?e k * 2 ^ (21 * k)) = sc_int c + sc_int a * sc_int b"
    by (simp only: distrib_right sum.distrib addend_sum [OF assms(3)] conv_value [OF assms(1,2)])
  then show ?thesis
    using product_result [OF p(1) p(3)] p(2) by (simp add: sc_muladd_def sc_muladd_limbs_conv of_int_addend)
qed

lemma sc_mulsub_value:
  assumes "length a = 32" "length b = 32" "length c = 32"
  shows "sc_int (sc_mulsub a b c) = (sc_int c - sc_int a * sc_int b) mod sc_order"
proof -
  let ?e = "\<lambda>k. addend c k - conv (sc_limbs a) (sc_limbs b) k"
  have e: "- 1125899973951488 \<le> ?e k \<and> ?e k \<le> 1125899973951488" if "k < 23" for k
    using conv_range [OF assms(1,2) that] addend_range [OF assms(3), of k] by linarith
  note p = product_list [where e = ?e, OF e]
  have "(\<Sum>k<23. ?e k * 2 ^ (21 * k)) = sc_int c - sc_int a * sc_int b"
    by (simp only: left_diff_distrib sum_subtractf addend_sum [OF assms(3)] conv_value [OF assms(1,2)])
  then show ?thesis
    using product_result [OF p(1) p(3)] p(2) by (simp add: sc_mulsub_def sc_mulsub_limbs_conv of_int_addend)
qed

section \<open>The range check\<close>

primrec sign_sum :: "int list \<Rightarrow> int" where
  "sign_sum [] = 0"
| "sign_sum (d # ds) = sgn d + 2 * sign_sum ds"

primrec word_sum :: "int list \<Rightarrow> int" where
  "word_sum [] = 0"
| "word_sum (d # ds) = d + 4294967296 * word_sum ds"

lemma sign_sum_less: "\<forall>d\<in>set ds. \<bar>d\<bar> < 4294967296 \<Longrightarrow> sign_sum ds < 0 \<longleftrightarrow> word_sum ds < 0"
  "\<forall>d\<in>set ds. \<bar>d\<bar> < 4294967296 \<Longrightarrow> 0 < sign_sum ds \<longleftrightarrow> 0 < word_sum ds"
proof (induction ds)
  case (Cons d ds)
  {
    case 1
    then show ?case using Cons.IH by (auto simp: sgn_if)
  next
    case 2
    then show ?case using Cons.IH by (auto simp: sgn_if)
  }
qed auto

lemma sign_sum_bound: "\<bar>sign_sum ds\<bar> \<le> 2 ^ length ds - 1"
  by (induction ds) (auto simp: sgn_if abs_le_iff)

lemma sint_signum: "sint (signum a) = sgn (sint a)"
  by (simp add: signum_def word_sless_alt sgn_if)


lemma word_sum_diff: "word_sum (map2 (-) xs ys) = word_sum xs - word_sum ys" if "length xs = length ys"
  using that by (induction xs ys rule: list_induct2) simp_all

lemma word_digits: "word_sum (map (\<lambda>i. int (N div 2 ^ (32 * i) mod 4294967296)) [0..<n]) = int (N mod 2 ^ (32 * n))"
proof (induction n arbitrary: N)
  case (Suc n)
  have u: "[0..<Suc n] = 0 # map Suc [0..<n]" by (simp add: upt_conv_Cons map_Suc_upt del: upt_Suc)
  have d: "N div 2 ^ (32 + 32 * i) = N div 4294967296 div 2 ^ (32 * i)" for i
    by (simp add: power_add div_mult2_eq)
  have "N mod 2 ^ (32 * Suc n) = N mod 4294967296 + 4294967296 * (N div 4294967296 mod 2 ^ (32 * n))"
    by (simp add: power_add mod_mult2_eq)
  then show ?case using Suc [of "N div 4294967296"] unfolding u by (simp add: d comp_def del: upt_Suc)
qed simp

definition order_words :: "int list" where
  "order_words = [1559614444, 1477600026, 2734136534, 350157278, 0, 0, 0, 268435456]"

lemma order_words_sum: "word_sum order_words = sc_order - 1"
  by (simp add: order_words_def sc_order_def)

lemma ucast_minus_one: "(ucast (- 1 :: i64) :: i32) = - 1"
  by code_simp

lemma sc_check_value:
  assumes "length s = 32"
  shows "sc_check s = (if sc_int s < sc_order then 0 else - 1)"
proof -
  define x where "x i = int (le_nat s div 2 ^ (32 * i) mod 4294967296)" for i
  have xr: "0 \<le> x i \<and> x i < 4294967296" for i using mod_less_divisor [of 4294967296] by (simp add: x_def del: mod_less_divisor)
  have ld: "load_4 s (4 * i) = of_int (x i)" if "i < 8" for i
  proof -
    have "unat (load_4 s (4 * i)) = le_nat s div 2 ^ (32 * i) mod 4294967296"
      using load_4_nat [of "4 * i" s] assms that by simp
    then show ?thesis unfolding x_def by (metis of_int_of_nat_eq unat_inv)
  qed
  have sg: "push_bit n (signum (of_int c - of_int (x i))) = of_int (sgn (c - x i) * 2 ^ n)"
    if "0 \<le> c" "c < 4294967296" for c i n
  proof -
    have "sint (of_int (c - x i) :: i64) = c - x i" using that xr [of i] by (intro sint_of_int64) auto
    then have "sint (signum (of_int c - of_int (x i))) = sgn (c - x i)" by (simp add: sint_signum)
    then show ?thesis by (simp add: of_int_shl)
  qed
  define D where "D = map2 (-) order_words (map x [0..<8])"
  have t:
    "signum (1559614444 - load_4 s 0) = of_int (sgn (1559614444 - x 0) * 2 ^ 0)"
    "push_bit 1 (signum (1477600026 - load_4 s 4)) = of_int (sgn (1477600026 - x 1) * 2 ^ 1)"
    "push_bit 2 (signum (2734136534 - load_4 s 8)) = of_int (sgn (2734136534 - x 2) * 2 ^ 2)"
    "push_bit 3 (signum (350157278 - load_4 s 12)) = of_int (sgn (350157278 - x 3) * 2 ^ 3)"
    "push_bit 4 (signum (- load_4 s 16)) = of_int (sgn (0 - x 4) * 2 ^ 4)"
    "push_bit 5 (signum (- load_4 s 20)) = of_int (sgn (0 - x 5) * 2 ^ 5)"
    "push_bit 6 (signum (- load_4 s 24)) = of_int (sgn (0 - x 6) * 2 ^ 6)"
    "push_bit 7 (signum (268435456 - load_4 s 28)) = of_int (sgn (268435456 - x 7) * 2 ^ 7)"
    using ld [of 0] sg [of 1559614444 0 0] ld [of 1] sg [of 1477600026 1 1] ld [of 2] sg [of 2734136534 2 2]
      ld [of 3] sg [of 350157278 3 3] ld [of 4] sg [of 0 4 4] ld [of 5] sg [of 0 5 5] ld [of 6] sg [of 0 6 6]
      ld [of 7] sg [of 268435456 7 7] by simp_all
  have D: "D = [1559614444 - x 0, 1477600026 - x 1, 2734136534 - x 2, 350157278 - x 3, 0 - x 4, 0 - x 5, 0 - x 6, 268435456 - x 7]"
    by (simp add: D_def order_words_def upt_conv_Cons numeral_2_eq_2 [symmetric])
  have "\<bar>sign_sum D\<bar> \<le> 2 ^ 8 - 1" using sign_sum_bound [of D] by (simp add: D)
  then have r: "- 255 \<le> sign_sum D" "sign_sum D \<le> 255" by simp_all
  have "sc_check s = ucast (signed_drop_bit 8 (of_int (sign_sum D) :: i64))"
    unfolding sc_check_def Let_def t of_int_add [symmetric]
    by (rule arg_cong [of _ _ "\<lambda>z. ucast (signed_drop_bit 8 (of_int z :: i64))"]) (simp add: D)
  moreover have "signed_drop_bit 8 (of_int (sign_sum D) :: i64) = (if sign_sum D < 0 then - 1 else 0)"
  proof -
    have "sint (of_int (sign_sum D) :: i64) = sign_sum D" using r by (intro sint_of_int64) auto
    then have "sint (signed_drop_bit 8 (of_int (sign_sum D) :: i64)) = sign_sum D div 256" by (simp add: sint_signed_shr)
    moreover have "sign_sum D div 256 = (if sign_sum D < 0 then - 1 else 0)" using r by (auto simp: div_eq_minus1)
    ultimately have "(of_int (sint (signed_drop_bit 8 (of_int (sign_sum D) :: i64))) :: i64) = of_int (if sign_sum D < 0 then - 1 else 0)"
      by (simp only:)
    then show ?thesis by simp
  qed
  moreover have "sign_sum D < 0 \<longleftrightarrow> \<not> sc_int s < sc_order"
  proof -
    have N: "le_nat s < 2 ^ (32 * 8)" using le_nat_bound [of s] assms by simp
    have ab: "\<bar>c - x i\<bar> < 4294967296" if "0 \<le> c" "c < 4294967296" for c i
      using that xr [of i] by (simp add: abs_less_iff)
    have "\<forall>d\<in>set D. \<bar>d\<bar> < 4294967296"
      unfolding D list.set by (intro ballI, elim insertE emptyE; hypsubst; rule ab; simp)
    then have "sign_sum D < 0 \<longleftrightarrow> word_sum D < 0" by (rule sign_sum_less)
    moreover have "word_sum D = sc_order - 1 - sc_int s"
    proof -
      have "word_sum D = word_sum order_words - word_sum (map x [0..<8])"
        unfolding D_def by (rule word_sum_diff) (simp add: order_words_def)
      moreover have "word_sum (map x [0..<8]) = sc_int s"
        unfolding x_def using word_digits [of "le_nat s" 8] N by (simp only: mod_less)
      ultimately show ?thesis by (simp only: order_words_sum)
    qed
    ultimately show ?thesis by auto
  qed
  ultimately show ?thesis by (simp add: ucast_minus_one)
qed


lemma or_bytes_zero: "foldl (OR) b bs = 0 \<longleftrightarrow> b = 0 \<and> (\<forall>c\<in>set bs. c = (0 :: u8))"
  by (induction bs arbitrary: b) (auto simp: or_eq_0_iff)

lemma le_nat_zero: "le_nat bs = 0 \<longleftrightarrow> (\<forall>c\<in>set bs. c = 0)"
  by (induction bs) (auto simp: unat_eq_0)

lemma sc_isnonzero_value:
  assumes "length s = 32"
  shows "sc_isnonzero s = (if sc_int s = 0 then 0 else 1)"
proof -
  define b where "b = foldl (OR) (s ! 0) (map (nth s) [1..<32])"
  have "[0..<32] = 0 # [1..<32]" by (subst upt_conv_Cons) simp_all
  then have "set s = insert (s ! 0) (set (map (nth s) [1..<32]))"
    using arg_cong [OF map_nth [of s], of set] assms by (simp only: list.map list.set)
  then have z: "b = 0 \<longleftrightarrow> le_nat s = 0" unfolding le_nat_zero b_def or_bytes_zero by (simp only: ball_simps)
  have "sc_isnonzero s = signed_drop_bit 8 (ucast b - 1) + 1" by (simp add: sc_isnonzero_def b_def)
  also have "\<dots> = (if b = 0 then 0 else 1)"
  proof (cases "b = 0")
    case True
    have "signed_drop_bit 8 (ucast (0 :: u8) - 1 :: i32) + 1 = 0" by code_simp
    then show ?thesis using True by simp
  next
    case False
    then have "0 < unat b" by (simp add: unat_gt_0)
    have "(ucast b :: i32) = of_int (int (unat b))" by (metis of_int_of_nat_eq of_nat_unat)
    then have "ucast b - 1 = (of_int (int (unat b) - 1) :: i32)" by simp
    moreover have "sint (of_int (int (unat b) - 1) :: i32) = int (unat b) - 1"
      using unat_u8_lt [of b] by (intro sint_of_int32 conjI) linarith+
    ultimately have "sint (signed_drop_bit 8 (ucast b - 1) :: i32) = (int (unat b) - 1) div 256"
      by (simp only: sint_signed_shr) simp
    also have "\<dots> = 0" using \<open>0 < unat b\<close> unat_u8_lt [of b] by (intro div_pos_pos_trivial) linarith+
    finally have "(of_int (sint (signed_drop_bit 8 (ucast b - 1) :: i32)) :: i32) = of_int 0" by (simp only:)
    then show ?thesis using False by simp
  qed
  finally show ?thesis using z by simp
qed


lemma length_results [simp]:
  "length (sc_reduce s) = 32" "length (sc_reduce32 s) = 32" "length (sc_add a b) = 32" "length (sc_sub a b) = 32"
  "length (sc_mul a b) = 32" "length (sc_muladd a b c) = 32" "length (sc_mulsub a b c) = 32"
  by (simp_all add: sc_reduce_def sc_reduce32_def sc_add_def sc_sub_def sc_mul_def sc_muladd_def sc_mulsub_def)

lemmas sc_values = sc_reduce_value sc_reduce32_value sc_add_value sc_mul_value sc_muladd_value sc_mulsub_value

section \<open>Properties\<close>

text \<open>C21: the reductions are exact: \<open>sc_reduce\<close> and \<open>sc_reduce32\<close> return the remainder of the 64 and of the 32 byte
  number modulo the group order, fully reduced, although no limb is ever compared with the order.\<close>
theorem scalar_reduction:
  assumes "length s = 64" "length t = 32"
  shows "(int (le_nat (sc_reduce s)), int (le_nat (sc_reduce32 t))) = (int (le_nat s) mod sc_order, int (le_nat t) mod sc_order)"
  using sc_reduce_value [OF assms(1)] sc_reduce32_value [OF assms(2)] by simp

theorem scalar_reduction_witness:
  "(int (le_nat (sc_reduce (replicate 64 255))), int (le_nat (sc_reduce32 (replicate 32 255)))) =
   (int (le_nat (replicate 64 255)) mod sc_order, int (le_nat (replicate 32 255)) mod sc_order)"
  using scalar_reduction [of "replicate 64 255" "replicate 32 255"] by simp

text \<open>C20: the scalar operations are those of the ring of integers modulo the group order, on any 32 byte inputs,
  reduced or not: sum, difference, product, \<open>c + a b\<close> and \<open>c - a b\<close>.\<close>
theorem scalar_arithmetic:
  assumes "length a = 32" "length b = 32" "length c = 32"
  shows "map (\<lambda>r. int (le_nat r)) [sc_add a b, sc_sub a b, sc_mul a b, sc_muladd a b c, sc_mulsub a b c] =
    map (\<lambda>x. x mod sc_order)
      [int (le_nat a) + int (le_nat b), int (le_nat a) - int (le_nat b), int (le_nat a) * int (le_nat b),
       int (le_nat c) + int (le_nat a) * int (le_nat b), int (le_nat c) - int (le_nat a) * int (le_nat b)]"
  using assms by (simp only: list.map sc_values)

theorem scalar_arithmetic_witness:
  "map (\<lambda>r. int (le_nat r)) [sc_add (replicate 32 255) (replicate 32 1), sc_sub (replicate 32 255) (replicate 32 1),
      sc_mul (replicate 32 255) (replicate 32 1), sc_muladd (replicate 32 255) (replicate 32 1) (replicate 32 7),
      sc_mulsub (replicate 32 255) (replicate 32 1) (replicate 32 7)] =
    map (\<lambda>x. x mod sc_order)
      [int (le_nat (replicate 32 255)) + int (le_nat (replicate 32 1)),
       int (le_nat (replicate 32 255)) - int (le_nat (replicate 32 1)),
       int (le_nat (replicate 32 255)) * int (le_nat (replicate 32 1)),
       int (le_nat (replicate 32 7)) + int (le_nat (replicate 32 255)) * int (le_nat (replicate 32 1)),
       int (le_nat (replicate 32 7)) - int (le_nat (replicate 32 255)) * int (le_nat (replicate 32 1))]"
  by (rule scalar_arithmetic) simp_all

text \<open>C22: \<open>sc_check\<close> accepts a scalar, with 0, exactly if it is below the group order, and answers -1 otherwise.\<close>
theorem sc_check_exact:
  assumes "length s = 32"
  shows "sc_check s = (if int (le_nat s) < sc_order then 0 else - 1)"
  by (rule sc_check_value [OF assms])

theorem sc_check_exact_witness:
  "sc_check (replicate 32 255) = (if int (le_nat (replicate 32 255)) < sc_order then 0 else - 1)"
  by (rule sc_check_exact) simp

text \<open>every routine that returns a scalar returns 32 bytes that \<open>sc_check\<close> accepts, so that the results are
  canonical and can be fed to any other routine.\<close>
theorem scalar_results_canonical:
  assumes "length s = 64" "length a = 32" "length b = 32" "length c = 32"
  shows "list_all (\<lambda>r. length r = 32 \<and> sc_check r = 0)
    [sc_reduce s, sc_reduce32 a, sc_add a b, sc_sub a b, sc_mul a b, sc_muladd a b c, sc_mulsub a b c]"
  using assms by (simp add: sc_check_value sc_values sc_order_pos)

theorem scalar_results_canonical_witness:
  "list_all (\<lambda>r. length r = 32 \<and> sc_check r = 0)
    [sc_reduce (replicate 64 3), sc_reduce32 (replicate 32 5), sc_add (replicate 32 5) (replicate 32 6),
     sc_sub (replicate 32 5) (replicate 32 6), sc_mul (replicate 32 5) (replicate 32 6),
     sc_muladd (replicate 32 5) (replicate 32 6) (replicate 32 7), sc_mulsub (replicate 32 5) (replicate 32 6) (replicate 32 7)]"
  by (rule scalar_results_canonical) simp_all

end
