(* ===== verification/Field_Elements.thy ===== *)
theory Field_Elements
  imports Limbs Scalars
begin

text \<open>
  The field of \<open>2 ^ 255 - 19\<close> elements, \<open>fe_*\<close> of \<open>crypto/crypto-ops.c\<close>. A field element is an array of ten
  \<open>int32_t\<close>, of 26 and 25 bits in turn, signed and not unique; products are formed in \<open>int64_t\<close>.
  The arrays are lists. A failed assertion is \<open>None\<close>.
\<close>

type_synonym fe = "i32 list"

definition fe_0 :: fe where
  "fe_0 = [0, 0, 0, 0, 0, 0, 0, 0, 0, 0]"

definition fe_1 :: fe where
  "fe_1 = [1, 0, 0, 0, 0, 0, 0, 0, 0, 0]"

definition fe_add :: "fe \<Rightarrow> fe \<Rightarrow> fe" where
  "fe_add f g = map2 (+) f g"

definition fe_sub :: "fe \<Rightarrow> fe \<Rightarrow> fe" where
  "fe_sub f g = map2 (-) f g"

definition fe_neg :: "fe \<Rightarrow> fe" where
  "fe_neg f = map uminus f"

definition fe_copy :: "fe \<Rightarrow> fe" where
  "fe_copy f = f"

definition fe_cmov :: "fe \<Rightarrow> fe \<Rightarrow> u32 \<Rightarrow> fe option" where
  "fe_cmov f g b =
     (let x = map2 (XOR) f g
      in if ((b - 1) AND NOT b) OR ((b - 2) AND NOT (b - 1)) \<noteq> - 1 then None
         else
           let b = - b;
               x = map (\<lambda>x. x AND b) x
           in Some (map2 (XOR) f x))"

text \<open>A product of two \<open>int32_t\<close>, one of them cast to \<open>int64_t\<close>.\<close>

definition mul64 :: "i32 \<Rightarrow> i32 \<Rightarrow> i64" where
  "mul64 a b = scast a * scast b"

definition fe_mul_limbs :: "fe \<Rightarrow> fe \<Rightarrow> limbs" where
  "fe_mul_limbs f g =
     (let g1_19 = 19 * g ! 1;
          g2_19 = 19 * g ! 2;
          g3_19 = 19 * g ! 3;
          g4_19 = 19 * g ! 4;
          g5_19 = 19 * g ! 5;
          g6_19 = 19 * g ! 6;
          g7_19 = 19 * g ! 7;
          g8_19 = 19 * g ! 8;
          g9_19 = 19 * g ! 9;
          f1_2 = 2 * f ! 1;
          f3_2 = 2 * f ! 3;
          f5_2 = 2 * f ! 5;
          f7_2 = 2 * f ! 7;
          f9_2 = 2 * f ! 9
      in [mul64 (f ! 0) (g ! 0) + mul64 f1_2 g9_19 + mul64 (f ! 2) g8_19 + mul64 f3_2 g7_19 + mul64 (f ! 4) g6_19 +
           mul64 f5_2 g5_19 + mul64 (f ! 6) g4_19 + mul64 f7_2 g3_19 + mul64 (f ! 8) g2_19 + mul64 f9_2 g1_19,
          mul64 (f ! 0) (g ! 1) + mul64 (f ! 1) (g ! 0) + mul64 (f ! 2) g9_19 + mul64 (f ! 3) g8_19 + mul64 (f ! 4)
           g7_19 + mul64 (f ! 5) g6_19 + mul64 (f ! 6) g5_19 + mul64 (f ! 7) g4_19 + mul64 (f ! 8) g3_19 + mul64 (f !
           9) g2_19,
          mul64 (f ! 0) (g ! 2) + mul64 f1_2 (g ! 1) + mul64 (f ! 2) (g ! 0) + mul64 f3_2 g9_19 + mul64 (f ! 4) g8_19
           + mul64 f5_2 g7_19 + mul64 (f ! 6) g6_19 + mul64 f7_2 g5_19 + mul64 (f ! 8) g4_19 + mul64 f9_2 g3_19,
          mul64 (f ! 0) (g ! 3) + mul64 (f ! 1) (g ! 2) + mul64 (f ! 2) (g ! 1) + mul64 (f ! 3) (g ! 0) + mul64 (f !
           4) g9_19 + mul64 (f ! 5) g8_19 + mul64 (f ! 6) g7_19 + mul64 (f ! 7) g6_19 + mul64 (f ! 8) g5_19 + mul64 (f
           ! 9) g4_19,
          mul64 (f ! 0) (g ! 4) + mul64 f1_2 (g ! 3) + mul64 (f ! 2) (g ! 2) + mul64 f3_2 (g ! 1) + mul64 (f ! 4) (g !
           0) + mul64 f5_2 g9_19 + mul64 (f ! 6) g8_19 + mul64 f7_2 g7_19 + mul64 (f ! 8) g6_19 + mul64 f9_2 g5_19,
          mul64 (f ! 0) (g ! 5) + mul64 (f ! 1) (g ! 4) + mul64 (f ! 2) (g ! 3) + mul64 (f ! 3) (g ! 2) + mul64 (f !
           4) (g ! 1) + mul64 (f ! 5) (g ! 0) + mul64 (f ! 6) g9_19 + mul64 (f ! 7) g8_19 + mul64 (f ! 8) g7_19 + mul64
           (f ! 9) g6_19,
          mul64 (f ! 0) (g ! 6) + mul64 f1_2 (g ! 5) + mul64 (f ! 2) (g ! 4) + mul64 f3_2 (g ! 3) + mul64 (f ! 4) (g !
           2) + mul64 f5_2 (g ! 1) + mul64 (f ! 6) (g ! 0) + mul64 f7_2 g9_19 + mul64 (f ! 8) g8_19 + mul64 f9_2 g7_19,
          mul64 (f ! 0) (g ! 7) + mul64 (f ! 1) (g ! 6) + mul64 (f ! 2) (g ! 5) + mul64 (f ! 3) (g ! 4) + mul64 (f !
           4) (g ! 3) + mul64 (f ! 5) (g ! 2) + mul64 (f ! 6) (g ! 1) + mul64 (f ! 7) (g ! 0) + mul64 (f ! 8) g9_19 +
           mul64 (f ! 9) g8_19,
          mul64 (f ! 0) (g ! 8) + mul64 f1_2 (g ! 7) + mul64 (f ! 2) (g ! 6) + mul64 f3_2 (g ! 5) + mul64 (f ! 4) (g !
           4) + mul64 f5_2 (g ! 3) + mul64 (f ! 6) (g ! 2) + mul64 f7_2 (g ! 1) + mul64 (f ! 8) (g ! 0) + mul64 f9_2
           g9_19,
          mul64 (f ! 0) (g ! 9) + mul64 (f ! 1) (g ! 8) + mul64 (f ! 2) (g ! 7) + mul64 (f ! 3) (g ! 6) + mul64 (f !
           4) (g ! 5) + mul64 (f ! 5) (g ! 4) + mul64 (f ! 6) (g ! 3) + mul64 (f ! 7) (g ! 2) + mul64 (f ! 8) (g ! 1) +
           mul64 (f ! 9) (g ! 0)])"

text \<open>The carries of \<open>fe_mul\<close>, \<open>fe_sq\<close> and \<open>fe_sq2\<close>: even limbs hold 26 bits, odd ones 25; the carry out of the last limb comes
  back to the first multiplied by 19.\<close>

definition fe_carry :: "nat \<Rightarrow> limbs \<Rightarrow> limbs" where
  "fe_carry i h = (if even i then carry_step 26 (push_bit 25 1) i h else carry_step 25 (push_bit 24 1) i h)"

definition fe_carry9 :: "limbs \<Rightarrow> limbs" where
  "fe_carry9 h =
     (let carry9 = signed_drop_bit 25 (h ! 9 + push_bit 24 1)
      in h[0 := h ! 0 + carry9 * 19, 9 := h ! 9 - push_bit 25 carry9])"

definition fe_reduce :: "limbs \<Rightarrow> limbs" where
  "fe_reduce h =
     (let h = fold fe_carry [0, 4, 1, 5, 2, 6, 3, 7, 4, 8] h;
          h = fe_carry9 h
      in fe_carry 0 h)"

definition fe_mul :: "fe \<Rightarrow> fe \<Rightarrow> fe" where
  "fe_mul f g = map ucast (fe_reduce (fe_mul_limbs f g))"

definition fe_sq_limbs :: "fe \<Rightarrow> limbs" where
  "fe_sq_limbs f =
     (let f0_2 = 2 * f ! 0;
          f1_2 = 2 * f ! 1;
          f2_2 = 2 * f ! 2;
          f3_2 = 2 * f ! 3;
          f4_2 = 2 * f ! 4;
          f5_2 = 2 * f ! 5;
          f6_2 = 2 * f ! 6;
          f7_2 = 2 * f ! 7;
          f5_38 = 38 * f ! 5;
          f6_19 = 19 * f ! 6;
          f7_38 = 38 * f ! 7;
          f8_19 = 19 * f ! 8;
          f9_38 = 38 * f ! 9
      in [mul64 (f ! 0) (f ! 0) + mul64 f1_2 f9_38 + mul64 f2_2 f8_19 + mul64 f3_2 f7_38 + mul64 f4_2 f6_19 + mul64 (f
           ! 5) f5_38,
          mul64 f0_2 (f ! 1) + mul64 (f ! 2) f9_38 + mul64 f3_2 f8_19 + mul64 (f ! 4) f7_38 + mul64 f5_2 f6_19,
          mul64 f0_2 (f ! 2) + mul64 f1_2 (f ! 1) + mul64 f3_2 f9_38 + mul64 f4_2 f8_19 + mul64 f5_2 f7_38 + mul64 (f
           ! 6) f6_19,
          mul64 f0_2 (f ! 3) + mul64 f1_2 (f ! 2) + mul64 (f ! 4) f9_38 + mul64 f5_2 f8_19 + mul64 (f ! 6) f7_38,
          mul64 f0_2 (f ! 4) + mul64 f1_2 f3_2 + mul64 (f ! 2) (f ! 2) + mul64 f5_2 f9_38 + mul64 f6_2 f8_19 + mul64
           (f ! 7) f7_38,
          mul64 f0_2 (f ! 5) + mul64 f1_2 (f ! 4) + mul64 f2_2 (f ! 3) + mul64 (f ! 6) f9_38 + mul64 f7_2 f8_19,
          mul64 f0_2 (f ! 6) + mul64 f1_2 f5_2 + mul64 f2_2 (f ! 4) + mul64 f3_2 (f ! 3) + mul64 f7_2 f9_38 + mul64 (f
           ! 8) f8_19,
          mul64 f0_2 (f ! 7) + mul64 f1_2 (f ! 6) + mul64 f2_2 (f ! 5) + mul64 f3_2 (f ! 4) + mul64 (f ! 8) f9_38,
          mul64 f0_2 (f ! 8) + mul64 f1_2 f7_2 + mul64 f2_2 (f ! 6) + mul64 f3_2 f5_2 + mul64 (f ! 4) (f ! 4) + mul64
           (f ! 9) f9_38,
          mul64 f0_2 (f ! 9) + mul64 f1_2 (f ! 8) + mul64 f2_2 (f ! 7) + mul64 f3_2 (f ! 6) + mul64 f4_2 (f ! 5)])"

definition fe_sq :: "fe \<Rightarrow> fe" where
  "fe_sq f = map ucast (fe_reduce (fe_sq_limbs f))"

definition fe_sq2 :: "fe \<Rightarrow> fe" where
  "fe_sq2 f = map ucast (fe_reduce (map (\<lambda>h. h + h) (fe_sq_limbs f)))"

definition fe_invert :: "fe \<Rightarrow> fe" where
  "fe_invert z =
     (let t0 = fe_sq z;
          t1 = fe_sq t0;
          t1 = fe_sq t1;
          t1 = fe_mul z t1;
          t0 = fe_mul t0 t1;
          t2 = fe_sq t0;
          t1 = fe_mul t1 t2;
          t2 = fe_sq t1;
          t2 = (fe_sq ^^ 4) t2;
          t1 = fe_mul t2 t1;
          t2 = fe_sq t1;
          t2 = (fe_sq ^^ 9) t2;
          t2 = fe_mul t2 t1;
          t3 = fe_sq t2;
          t3 = (fe_sq ^^ 19) t3;
          t2 = fe_mul t3 t2;
          t2 = fe_sq t2;
          t2 = (fe_sq ^^ 9) t2;
          t1 = fe_mul t2 t1;
          t2 = fe_sq t1;
          t2 = (fe_sq ^^ 49) t2;
          t2 = fe_mul t2 t1;
          t3 = fe_sq t2;
          t3 = (fe_sq ^^ 99) t3;
          t2 = fe_mul t3 t2;
          t2 = fe_sq t2;
          t2 = (fe_sq ^^ 49) t2;
          t1 = fe_mul t2 t1;
          t1 = fe_sq t1;
          t1 = (fe_sq ^^ 4) t1
      in fe_mul t1 t0)"

text \<open>\<open>fe_tobytes\<close>: the quotient \<open>q\<close>, the carries, the bytes.\<close>

definition fe_quotient :: "fe \<Rightarrow> i32" where
  "fe_quotient h =
     (let q = signed_drop_bit 25 (19 * h ! 9 + push_bit 24 1);
          q = signed_drop_bit 26 (h ! 0 + q);
          q = signed_drop_bit 25 (h ! 1 + q);
          q = signed_drop_bit 26 (h ! 2 + q);
          q = signed_drop_bit 25 (h ! 3 + q);
          q = signed_drop_bit 26 (h ! 4 + q);
          q = signed_drop_bit 25 (h ! 5 + q);
          q = signed_drop_bit 26 (h ! 6 + q);
          q = signed_drop_bit 25 (h ! 7 + q);
          q = signed_drop_bit 26 (h ! 8 + q)
      in signed_drop_bit 25 (h ! 9 + q))"

definition fe_carry_floor :: "nat \<Rightarrow> fe \<Rightarrow> fe" where
  "fe_carry_floor i h = (if even i then carry_step 26 0 i h else carry_step 25 0 i h)"

definition fe_canonical :: "fe \<Rightarrow> fe" where
  "fe_canonical h =
     (let q = fe_quotient h;
          h = h[0 := h ! 0 + 19 * q];
          h = fold fe_carry_floor [0, 1, 2, 3, 4, 5, 6, 7, 8] h;
          carry9 = signed_drop_bit 25 (h ! 9)
      in h[9 := h ! 9 - push_bit 25 carry9])"

definition fe_bytes :: "fe \<Rightarrow> bytes" where
  "fe_bytes h =
    [ucast (signed_drop_bit 0 (h ! 0)),
     ucast (signed_drop_bit 8 (h ! 0)),
     ucast (signed_drop_bit 16 (h ! 0)),
     ucast (signed_drop_bit 24 (h ! 0) OR push_bit 2 (h ! 1)),
     ucast (signed_drop_bit 6 (h ! 1)),
     ucast (signed_drop_bit 14 (h ! 1)),
     ucast (signed_drop_bit 22 (h ! 1) OR push_bit 3 (h ! 2)),
     ucast (signed_drop_bit 5 (h ! 2)),
     ucast (signed_drop_bit 13 (h ! 2)),
     ucast (signed_drop_bit 21 (h ! 2) OR push_bit 5 (h ! 3)),
     ucast (signed_drop_bit 3 (h ! 3)),
     ucast (signed_drop_bit 11 (h ! 3)),
     ucast (signed_drop_bit 19 (h ! 3) OR push_bit 6 (h ! 4)),
     ucast (signed_drop_bit 2 (h ! 4)),
     ucast (signed_drop_bit 10 (h ! 4)),
     ucast (signed_drop_bit 18 (h ! 4)),
     ucast (signed_drop_bit 0 (h ! 5)),
     ucast (signed_drop_bit 8 (h ! 5)),
     ucast (signed_drop_bit 16 (h ! 5)),
     ucast (signed_drop_bit 24 (h ! 5) OR push_bit 1 (h ! 6)),
     ucast (signed_drop_bit 7 (h ! 6)),
     ucast (signed_drop_bit 15 (h ! 6)),
     ucast (signed_drop_bit 23 (h ! 6) OR push_bit 3 (h ! 7)),
     ucast (signed_drop_bit 5 (h ! 7)),
     ucast (signed_drop_bit 13 (h ! 7)),
     ucast (signed_drop_bit 21 (h ! 7) OR push_bit 4 (h ! 8)),
     ucast (signed_drop_bit 4 (h ! 8)),
     ucast (signed_drop_bit 12 (h ! 8)),
     ucast (signed_drop_bit 20 (h ! 8) OR push_bit 6 (h ! 9)),
     ucast (signed_drop_bit 2 (h ! 9)),
     ucast (signed_drop_bit 10 (h ! 9)),
     ucast (signed_drop_bit 18 (h ! 9))]"

definition fe_tobytes :: "fe \<Rightarrow> bytes" where
  "fe_tobytes h = fe_bytes (fe_canonical h)"

definition fe_isnegative :: "fe \<Rightarrow> i32" where
  "fe_isnegative f = (let s = fe_tobytes f in ucast (s ! 0) AND 1)"

definition fe_isnonzero :: "fe \<Rightarrow> i32" where
  "fe_isnonzero f =
     (let s = fe_tobytes f
      in signed_drop_bit 8 (ucast (foldl (OR) (s ! 0) (map (nth s) [1..<32])) - 1) + 1)"

definition fe_divpowm1 :: "fe \<Rightarrow> fe \<Rightarrow> fe" where
  "fe_divpowm1 u v =
     (let v3 = fe_sq v;
          v3 = fe_mul v3 v;
          uv7 = fe_sq v3;
          uv7 = fe_mul uv7 v;
          uv7 = fe_mul uv7 u;
          t0 = fe_sq uv7;
          t1 = fe_sq t0;
          t1 = fe_sq t1;
          t1 = fe_mul uv7 t1;
          t0 = fe_mul t0 t1;
          t0 = fe_sq t0;
          t0 = fe_mul t1 t0;
          t1 = fe_sq t0;
          t1 = (fe_sq ^^ 4) t1;
          t0 = fe_mul t1 t0;
          t1 = fe_sq t0;
          t1 = (fe_sq ^^ 9) t1;
          t1 = fe_mul t1 t0;
          t2 = fe_sq t1;
          t2 = (fe_sq ^^ 19) t2;
          t1 = fe_mul t2 t1;
          t1 = (fe_sq ^^ 10) t1;
          t0 = fe_mul t1 t0;
          t1 = fe_sq t0;
          t1 = (fe_sq ^^ 49) t1;
          t1 = fe_mul t1 t0;
          t2 = fe_sq t1;
          t2 = (fe_sq ^^ 99) t2;
          t1 = fe_mul t2 t1;
          t1 = (fe_sq ^^ 50) t1;
          t0 = fe_mul t1 t0;
          t0 = fe_sq t0;
          t0 = fe_sq t0;
          t0 = fe_mul t0 uv7;
          t0 = fe_mul t0 v3
      in fe_mul t0 u)"

text \<open>The constants of \<open>crypto-ops-data.c\<close>.\<close>

definition fe_d :: fe where
  "fe_d = [- 10913610, 13857413, - 15372611, 6949391, 114729, - 8787816, - 6275908, - 3247719, - 18696448, - 12055116]"

definition fe_sqrtm1 :: fe where
  "fe_sqrtm1 = [- 32595792, - 7943725, 9377950, 3500415, 12389472, - 272473, - 25146209, - 2005654, 326686, 11406482]"

definition fe_d2 :: fe where
  "fe_d2 = [- 21827239, - 5839606, - 30745221, 13898782, 229458, 15978800, - 12551817, - 6495438, 29715968, 9444199]"

definition fe_ma2 :: fe where
  "fe_ma2 = [- 12721188, - 3529, 0, 0, 0, 0, 0, 0, 0, 0]"

definition fe_ma :: fe where
  "fe_ma = [- 486662, 0, 0, 0, 0, 0, 0, 0, 0, 0]"

definition fe_fffb1 :: fe where
  "fe_fffb1 = [- 31702527, - 2466483, - 26106795, - 12203692, - 12169197, - 321052, 14850977, - 10296299, - 16929438, - 407568]"

definition fe_fffb2 :: fe where
  "fe_fffb2 = [8166131, - 6741800, - 17040804, 3154616, 21461005, 1466302, - 30876704, - 6368709, 10503587, - 13363080]"

definition fe_fffb3 :: fe where
  "fe_fffb3 = [- 13620103, 14639558, 4532995, 7679154, 16815101, - 15883539, - 22863840, - 14813421, 13716513, - 6477756]"

definition fe_fffb4 :: fe where
  "fe_fffb4 = [- 21786234, - 12173074, 21573800, 4524538, - 4645904, 16204591, 8012863, - 8444712, 3212926, 6885324]"

section \<open>The field\<close>

definition p25519 :: int where
  "p25519 = 2 ^ 255 - 19"

lemma p25519_pos: "0 < p25519" "1 < p25519"
  by (simp_all add: p25519_def)

typedef fp = "{0..<p25519}"
  using p25519_pos by (auto intro!: exI [of _ 0])

setup_lifting type_definition_fp

instantiation fp :: comm_ring_1
begin

lift_definition zero_fp :: fp is 0
  using p25519_pos by simp

lift_definition one_fp :: fp is 1
  using p25519_pos by simp

lift_definition plus_fp :: "fp \<Rightarrow> fp \<Rightarrow> fp" is "\<lambda>a b. (a + b) mod p25519"
  using p25519_pos by simp

lift_definition minus_fp :: "fp \<Rightarrow> fp \<Rightarrow> fp" is "\<lambda>a b. (a - b) mod p25519"
  using p25519_pos by simp

lift_definition uminus_fp :: "fp \<Rightarrow> fp" is "\<lambda>a. (- a) mod p25519"
  using p25519_pos by simp

lift_definition times_fp :: "fp \<Rightarrow> fp \<Rightarrow> fp" is "\<lambda>a b. (a * b) mod p25519"
  using p25519_pos by simp

instance
proof
  fix a b c :: fp
  show "a + b + c = a + (b + c)" by transfer (simp add: mod_simps add.assoc)
  show "a + b = b + a" by transfer (simp add: add.commute)
  show "0 + a = a" by transfer simp
  show "- a + a = 0" by transfer (simp add: mod_simps)
  show "a - b = a + - b" by transfer (simp add: mod_simps)
  show "a * b * c = a * (b * c)" by transfer (simp add: mod_simps mult.assoc)
  show "a * b = b * a" by transfer (simp add: mult.commute)
  show "1 * a = a" by transfer simp
  show "(a + b) * c = a * c + b * c" by transfer (simp add: mod_simps distrib_right)
  show "(0 :: fp) \<noteq> 1" by transfer simp
qed

end

lemma Rep_fp_of_nat: "Rep_fp (of_nat n) = int n mod p25519"
proof (induction n)
  case 0
  show ?case by (simp add: zero_fp.rep_eq)
next
  case (Suc n)
  then show ?case by (simp add: plus_fp.rep_eq one_fp.rep_eq mod_simps add.commute)
qed

lemma Rep_fp_of_int: "Rep_fp (of_int n) = n mod p25519"
proof (cases n)
  case (nonneg m)
  then show ?thesis by (simp add: Rep_fp_of_nat)
next
  case (neg m)
  then have "(of_int n :: fp) = - of_nat (Suc m)" by simp
  then show ?thesis using neg by (simp only: uminus_fp.rep_eq Rep_fp_of_nat mod_minus_eq)
qed

lemma of_int_fp_eq: "(of_int a :: fp) = of_int b \<longleftrightarrow> a mod p25519 = b mod p25519"
  by (simp add: Rep_fp_inject [symmetric] Rep_fp_of_int)

lemma of_int_p25519 [simp]: "(of_int p25519 :: fp) = 0"
  using of_int_fp_eq [of p25519 0] by simp

lemma of_int_mod_fp: "(of_int (a mod p25519) :: fp) = of_int a"
  by (simp add: of_int_fp_eq)

section \<open>The value of a field element\<close>

definition fw :: "nat \<Rightarrow> int" where
  "fw i = 2 ^ ((51 * i + 1) div 2)"

abbreviation fe_int :: "'a::len word list \<Rightarrow> int" where
  "fe_int \<equiv> lval fw 10"

definition fe_val :: "fe \<Rightarrow> fp" where
  "fe_val f = of_int (fe_int f)"

definition fe_limit :: "nat \<Rightarrow> int" where
  "fe_limit i = (if even i then 36909875 else 18454937)"

definition fe_bounded :: "int \<Rightarrow> fe \<Rightarrow> bool" where
  "fe_bounded m f \<longleftrightarrow> length f = 10 \<and> (\<forall>i<10. \<bar>sint (f ! i)\<bar> \<le> m * fe_limit i)"

lemma fe_boundedD:
  assumes "fe_bounded m f"
  shows "length f = 10" "i < 10 \<Longrightarrow> \<bar>sint (f ! i)\<bar> \<le> m * fe_limit i"
  using assms by (auto simp: fe_bounded_def)

lemma fe_limit_pos: "0 < fe_limit i"
  by (simp add: fe_limit_def)

lemma fe_bounded_mono: "fe_bounded m f \<Longrightarrow> m \<le> n \<Longrightarrow> fe_bounded n f"
  unfolding fe_bounded_def by (meson fe_limit_pos less_imp_le mult_right_mono order_trans)

lemma fe_bounded_int32:
  assumes "fe_bounded m f" "i < 10" "m \<le> 3" "0 \<le> c" "c \<le> 19"
  shows "int32 (c * sint (f ! i))"
proof -
  have "\<bar>sint (f ! i)\<bar> \<le> 3 * 36909875"
    using fe_boundedD(2) [OF assms(1,2)] assms(3) fe_limit_pos [of i] mult_mono [of m 3 "fe_limit i" 36909875]
    by (simp add: fe_limit_def split: if_splits)
  then have "\<bar>c * sint (f ! i)\<bar> \<le> 19 * (3 * 36909875)" unfolding abs_mult using assms(4,5) by (intro mult_mono) auto
  then show ?thesis by (simp add: abs_le_iff)
qed


section \<open>Sums\<close>

lemma fe_entry32:
  assumes "\<bar>x\<bar> \<le> m * fe_limit i" "m \<le> 4"
  shows "int32 x"
proof -
  have "m * fe_limit i \<le> 4 * fe_limit i" using assms(2) fe_limit_pos [of i] by (intro mult_right_mono) auto
  then have "\<bar>x\<bar> \<le> 4 * fe_limit i" using assms(1) by linarith
  then show ?thesis by (auto simp: fe_limit_def abs_le_iff split: if_splits)
qed

lemma fe_add_sound:
  assumes f: "fe_bounded m f" and g: "fe_bounded n g" and mn: "m + n \<le> 4"
  shows "fe_bounded (m + n) (fe_add f g)" "fe_val (fe_add f g) = fe_val f + fe_val g"
    and "fe_bounded (m + n) (fe_sub f g)" "fe_val (fe_sub f g) = fe_val f - fe_val g"
proof -
  have e: "\<bar>sint (f ! i) + sint (g ! i)\<bar> \<le> (m + n) * fe_limit i" "\<bar>sint (f ! i) - sint (g ! i)\<bar> \<le> (m + n) * fe_limit i"
    if "i < 10" for i
    using fe_boundedD(2) [OF f that] fe_boundedD(2) [OF g that] unfolding distrib_right by linarith+
  have a: "sint (fe_add f g ! i) = sint (f ! i) + sint (g ! i)" if "i < 10" for i
    using that fe_boundedD(1) [OF f] fe_boundedD(1) [OF g] sint_of_int32 [OF fe_entry32 [OF e(1) [OF that] mn]]
    by (simp add: fe_add_def)
  have d: "sint (fe_sub f g ! i) = sint (f ! i) - sint (g ! i)" if "i < 10" for i
    using that fe_boundedD(1) [OF f] fe_boundedD(1) [OF g] sint_of_int32 [OF fe_entry32 [OF e(2) [OF that] mn]]
    by (simp add: fe_sub_def)
  show "fe_bounded (m + n) (fe_add f g)" "fe_bounded (m + n) (fe_sub f g)"
    using e fe_boundedD(1) [OF f] fe_boundedD(1) [OF g] by (auto simp: fe_bounded_def a d) (simp_all add: fe_add_def fe_sub_def)
  have "fe_int (fe_add f g) = fe_int f + fe_int g"
    unfolding lval_def sum.distrib [symmetric] by (rule sum.cong) (simp_all only: a lessThan_iff distrib_right)
  then show "fe_val (fe_add f g) = fe_val f + fe_val g" by (simp add: fe_val_def)
  have "fe_int (fe_sub f g) = fe_int f - fe_int g"
    unfolding lval_def sum_subtractf [symmetric] by (rule sum.cong) (simp_all only: d lessThan_iff left_diff_distrib)
  then show "fe_val (fe_sub f g) = fe_val f - fe_val g" by (simp add: fe_val_def)
qed

lemma fe_neg_sound:
  assumes f: "fe_bounded m f" and m: "m \<le> 4"
  shows "fe_bounded m (fe_neg f)" "fe_val (fe_neg f) = - fe_val f"
proof -
  have e: "\<bar>- sint (f ! i)\<bar> \<le> m * fe_limit i" if "i < 10" for i using fe_boundedD(2) [OF f that] by simp
  have n: "sint (fe_neg f ! i) = - sint (f ! i)" if "i < 10" for i
    using that fe_boundedD(1) [OF f] sint_of_int32 [OF fe_entry32 [OF e [OF that] m]] by (simp add: fe_neg_def)
  show "fe_bounded m (fe_neg f)" using e fe_boundedD(1) [OF f] by (auto simp: fe_bounded_def n) (simp add: fe_neg_def)
  have "fe_int (fe_neg f) = - fe_int f"
    unfolding lval_def sum_negf [symmetric] by (rule sum.cong) (simp_all only: n lessThan_iff minus_mult_left)
  then show "fe_val (fe_neg f) = - fe_val f" by (simp add: fe_val_def)
qed

section \<open>Products\<close>

definition fe_coef :: "nat \<Rightarrow> nat \<Rightarrow> int" where
  "fe_coef i j = (if odd i \<and> odd j then 2 else 1) * (if 10 \<le> i + j then 19 else 1)"

definition fe_conv :: "fe \<Rightarrow> fe \<Rightarrow> nat \<Rightarrow> int" where
  "fe_conv f g k = (\<Sum>i\<leftarrow>[0..<10]. fe_coef i ((k + 10 - i) mod 10) * (sint (f ! i) * sint (g ! ((k + 10 - i) mod 10))))"

lemma mul64_int: "mul64 a b = of_int (sint a * sint b)"
  by (simp only: mul64_def scast_eq of_int_mult)

lemma sint_scale:
  assumes "fe_bounded 3 f" "i < 10"
  shows "sint (2 * f ! i) = 2 * sint (f ! i)" "sint (19 * f ! i) = 19 * sint (f ! i)"
    and "odd i \<Longrightarrow> sint (38 * f ! i) = 38 * sint (f ! i)"
proof -
  have s: "sint (of_int c * f ! i) = c * sint (f ! i)" if "int32 (c * sint (f ! i))" for c
    using sint_of_int32 [OF that] by simp
  show "sint (2 * f ! i) = 2 * sint (f ! i)" "sint (19 * f ! i) = 19 * sint (f ! i)"
    using s [of 2] s [of 19] fe_bounded_int32 [OF assms, of 2] fe_bounded_int32 [OF assms, of 19] by simp_all
  assume "odd i"
  then have "\<bar>sint (f ! i)\<bar> \<le> 55364811" using fe_boundedD(2) [OF assms] by (simp add: fe_limit_def)
  then have "int32 (38 * sint (f ! i))" by (simp add: abs_le_iff)
  then show "sint (38 * f ! i) = 38 * sint (f ! i)" using s [of 38] by simp
qed

lemma fe_mul_limbs_conv:
  assumes "fe_bounded 3 f" "fe_bounded 3 g"
  shows "fe_mul_limbs f g = map (\<lambda>k. of_int (fe_conv f g k)) [0..<10]"
  unfolding fe_mul_limbs_def Let_def mul64_int using assms
  by (simp add: sint_scale fe_conv_def fe_coef_def upt_conv_Cons numeral_2_eq_2 [symmetric] add.assoc)


lemma fe_sq_limbs_conv:
  assumes "fe_bounded 3 f"
  shows "fe_sq_limbs f = map (\<lambda>k. of_int (fe_conv f f k)) [0..<10]"
  unfolding fe_sq_limbs_def Let_def mul64_int using assms
  by (simp add: sint_scale fe_conv_def fe_coef_def upt_conv_Cons numeral_2_eq_2 [symmetric])

lemma fe_conv_sum: "fe_conv f g k = (\<Sum>i<10. fe_coef i ((k + 10 - i) mod 10) * (sint (f ! i) * sint (g ! ((k + 10 - i) mod 10))))"
  unfolding fe_conv_def sum_list_distinct_conv_sum_set [OF distinct_upt] set_upt by (simp add: atLeast0LessThan)

text \<open>Modulo the prime, the weight of a product of limbs is the weight of the limb it is added to, times its coefficient.\<close>

lemma fw_mult: "fw i * fw j = (if odd i \<and> odd j then 2 else 1) * fw (i + j)"
proof -
  have e: "fw (2 * a) = 2 ^ (51 * a)" "fw (Suc (2 * a)) = 2 ^ (51 * a + 26)" for a
    by (simp_all add: fw_def) (simp add: algebra_simps)?
  consider a b where "i = 2 * a" "j = 2 * b" | a b where "i = 2 * a" "j = Suc (2 * b)"
    | a b where "i = Suc (2 * a)" "j = 2 * b" | a b where "i = Suc (2 * a)" "j = Suc (2 * b)"
    by (metis evenE oddE Suc_eq_plus1)
  then show ?thesis
  proof cases
    case 1
    then show ?thesis using e(1) [of "a + b"] by (simp add: e power_add [symmetric] distrib_left)
  next
    case 2
    then show ?thesis using e(2) [of "a + b"] by (simp add: e power_add [symmetric] distrib_left add_ac)
  next
    case 3
    then show ?thesis using e(2) [of "a + b"] by (simp add: e power_add [symmetric] distrib_left add_ac)
  next
    case 4
    show ?thesis using 4 e(1) [of "a + b + 1"] by (simp add: e power_add distrib_left add_ac)
  qed
qed

lemma fw_products:
  assumes "i < 10" "j < 10"
  shows "(fe_coef i j * fw ((i + j) mod 10)) mod p25519 = fw i * fw j mod p25519"
proof (cases "i + j < 10")
  case True
  then show ?thesis by (simp add: fw_mult fe_coef_def)
next
  case False
  then obtain k where k: "i + j = k + 10" by (metis le_add_diff_inverse2 not_less)
  have "(51 * (k + 10) + 1) div 2 = (51 * k + 1) div 2 + 255" by simp
  then have "fw (i + j) = 2 ^ 255 * fw k" unfolding k fw_def by (simp add: power_add)
  also have "\<dots> = 19 * fw k + p25519 * fw k" by (simp add: p25519_def algebra_simps)
  finally have f: "fw (i + j) = 19 * fw k + p25519 * fw k" .
  have m: "(i + j) mod 10 = k" using k assms by (simp add: mod_if)
  have "fw i * fw j = fe_coef i j * fw k + p25519 * ((if odd i \<and> odd j then 2 else 1) * fw k)"
    unfolding fw_mult f fe_coef_def using False by (simp add: algebra_simps)
  then show ?thesis unfolding m by (simp only: mod_mult_self2)
qed

lemma fe_conv_value:
  "(of_int (\<Sum>k<10. fe_conv f g k * fw k) :: fp) = of_int (fe_int f) * of_int (fe_int g)"
proof -
  define F G where "F i = sint (f ! i)" and "G i = sint (g ! i)" for i
  have "(\<Sum>k<10. fe_conv f g k * fw k) =
      (\<Sum>i<10. \<Sum>k<10. fe_coef i ((k + 10 - i) mod 10) * (F i * G ((k + 10 - i) mod 10)) * fw k)"
    unfolding fe_conv_sum sum_distrib_right F_def G_def by (rule sum.swap)
  also have "\<dots> = (\<Sum>i<10. \<Sum>j<10. fe_coef i j * (F i * G j) * fw ((i + j) mod 10))"
  proof (rule sum.cong [OF refl])
    fix i :: nat assume "i \<in> {..<10}"
    then have i: "i < 10" by simp
    have inv: "((i + j) mod 10 + 10 - i) mod 10 = j" if "j < 10" for j
      using i that by (auto simp: mod_if)
    have inv': "(i + (k + 10 - i) mod 10) mod 10 = k" if "k < 10" for k
      using i that by (auto simp: mod_if)
    show "(\<Sum>k<10. fe_coef i ((k + 10 - i) mod 10) * (F i * G ((k + 10 - i) mod 10)) * fw k) =
        (\<Sum>j<10. fe_coef i j * (F i * G j) * fw ((i + j) mod 10))"
      by (rule sum.reindex_bij_witness [of _ "\<lambda>j. (i + j) mod 10" "\<lambda>k. (k + 10 - i) mod 10"]) (auto simp: inv inv')
  qed
  finally have "(of_int (\<Sum>k<10. fe_conv f g k * fw k) :: fp) =
      (\<Sum>i<10. \<Sum>j<10. of_int (F i * G j) * of_int (fe_coef i j * fw ((i + j) mod 10)))"
    by (simp add: mult_ac)
  also have "\<dots> = (\<Sum>i<10. \<Sum>j<10. of_int (F i * G j) * of_int (fw i * fw j))"
  proof (intro sum.cong refl)
    fix i j :: nat assume "i \<in> {..<10}" "j \<in> {..<10}"
    then have "(of_int (fe_coef i j * fw ((i + j) mod 10)) :: fp) = of_int (fw i * fw j)"
      unfolding of_int_fp_eq by (intro fw_products) simp_all
    then show "of_int (F i * G j) * of_int (fe_coef i j * fw ((i + j) mod 10)) = (of_int (F i * G j) * of_int (fw i * fw j) :: fp)"
      by (simp only:)
  qed
  also have "\<dots> = of_int (\<Sum>i<10. F i * fw i) * of_int (\<Sum>j<10. G j * fw j)"
    by (simp add: sum_product mult_ac)
  finally show ?thesis by (simp add: lval_def F_def G_def)
qed


section \<open>The carries after a product\<close>

definition fe_carry_bounds :: "nat \<Rightarrow> bounds \<Rightarrow> bounds option" where
  "fe_carry_bounds i = (if even i then carry_bounds max64 26 33554432 i else carry_bounds max64 25 16777216 i)"

definition fe_carry9_bounds :: "bounds \<Rightarrow> bounds option" where
  "fe_carry9_bounds B =
     (let lo = fst (B ! 9) + 16777216; hi = snd (B ! 9) + 16777216;
          b = (fst (B ! 0) + lo div 33554432 * 19, snd (B ! 0) + hi div 33554432 * 19)
      in if fits max64 (lo, hi) \<and> fits max64 b then Some (B[0 := b, 9 := (- 16777216, 16777215)]) else None)"

definition fe_reduce_bounds :: "bounds \<Rightarrow> bounds option" where
  "fe_reduce_bounds B =
     Option.bind (each fe_carry_bounds [0, 4, 1, 5, 2, 6, 3, 7, 4, 8] B) (\<lambda>B.
     Option.bind (fe_carry9_bounds B) (fe_carry_bounds 0))"

abbreviation fe_sound :: "(limbs \<Rightarrow> limbs) \<Rightarrow> (bounds \<Rightarrow> bounds option) \<Rightarrow> bool" where
  "fe_sound \<equiv> sound p25519 fw 10 10 10"

lemma fw_Suc: "fw (Suc i) = (if even i then 2 ^ 26 else 2 ^ 25) * fw i"
proof (cases "even i")
  case True
  then show ?thesis using fw_mult [of i 1] by (simp add: fw_def)
next
  case False
  then obtain a where "i = Suc (2 * a)" by (metis oddE Suc_eq_plus1)
  then have "(51 * Suc i + 1) div 2 = (51 * i + 1) div 2 + 25" by simp
  then show ?thesis using False unfolding fw_def by (simp add: power_add)
qed

lemma sound_fe_carry: "i < 9 \<Longrightarrow> fe_sound (fe_carry i) (fe_carry_bounds i)"
proof (cases "even i")
  case True
  assume "i < 9"
  then have "fe_sound (carry_step 26 (push_bit 25 1) i) (carry_bounds max64 26 33554432 i)"
    by (intro sound_carry_step) (simp_all add: fw_Suc True)
  then show ?thesis using True by (simp add: fe_carry_def [abs_def] fe_carry_bounds_def)
next
  case False
  assume "i < 9"
  then have "fe_sound (carry_step 25 (push_bit 24 1) i) (carry_bounds max64 25 16777216 i)"
    by (intro sound_carry_step) (simp_all add: fw_Suc False)
  then show ?thesis using False by (simp add: fe_carry_def [abs_def] fe_carry_bounds_def)
qed

lemma sound_fe_carry9: "fe_sound fe_carry9 fe_carry9_bounds"
proof (rule soundI)
  fix B B' and s :: limbs assume B: "fe_carry9_bounds B = Some B'" "bounded B s" "length s = 10"
  define x y where "x = s ! 9" and "y = s ! 0"
  define c where "c = signed_drop_bit 25 (x + push_bit 24 1)"
  define lo hi where "lo = fst (B ! 9) + 16777216" and "hi = snd (B ! 9) + 16777216"
  define b where "b = (fst (B ! 0) + lo div 33554432 * 19, snd (B ! 0) + hi div 33554432 * 19)"
  have fb: "fits max64 (lo, hi)" "fits max64 b" and B': "B' = B[0 := b, 9 := (- 16777216, 16777215)]"
    using B(1) by (auto simp: fe_carry9_bounds_def Let_def lo_def hi_def b_def split: if_splits)
  have bx: "lo \<le> sint x + 16777216" "sint x + 16777216 \<le> hi"
    using bounded_nth [OF B(2), of 9] B(3) by (auto simp: x_def lo_def hi_def)
  define k where "k = (sint x + 16777216) div 33554432"
  have yb: "fst b \<le> sint y + k * 19" "sint y + k * 19 \<le> snd b"
    using bounded_nth [OF B(2), of 0] B(3) bx zdiv_mono1 [of lo "sint x + 16777216" 33554432]
      zdiv_mono1 [of "sint x + 16777216" hi 33554432] by (auto simp: b_def y_def k_def)
  have "- max64 \<le> sint x + 16777216" "sint x + 16777216 < max64" using fb bx by (auto simp: fits_def)
  moreover have "- max64 \<le> sint (0::i64) + (sint x + 16777216) div 2 ^ 25" "sint (0::i64) + (sint x + 16777216) div 2 ^ 25 < max64"
    using calculation zdiv_mono1 [of "- max64" "sint x + 16777216" 33554432] zdiv_mono1 [of "sint x + 16777216" max64 33554432] by simp_all
  ultimately have cl: "sint (x - push_bit 25 c) = sint x - k * 33554432" "- 16777216 \<le> sint (x - push_bit 25 c)"
      "sint (x - push_bit 25 c) \<le> 16777215" "sint c = k"
    using carry_limbs [OF machine64, of 16777216 25 "push_bit 24 1" x 0] unfolding c_def k_def by simp_all
  have "y + c * 19 = of_int (sint y + k * 19)" by (simp flip: cl(4))
  then have v: "sint (y + c * 19) = sint y + k * 19"
    using sint_of_int64 [of "sint y + k * 19"] fb(2) yb by (simp add: fits_def)
  have st: "fe_carry9 s = s[0 := y + c * 19, 9 := x - push_bit 25 c]"
    by (simp add: fe_carry9_def Let_def x_def y_def c_def)
  show "bounded B' (fe_carry9 s)" unfolding st B' using cl by (intro bounded_update B(2)) (simp_all add: v yb)
  have "fe_int (fe_carry9 s) = fe_int s + k * 19 * fw 0 - k * 33554432 * fw 9"
    unfolding st using B(3) by (simp add: lval_update v cl(1) x_def [symmetric] y_def [symmetric])
  also have "\<dots> = fe_int s + (- k) * p25519" by (simp add: fw_def p25519_def)
  finally show "\<exists>q. fe_int (fe_carry9 s) = fe_int s + q * p25519" ..
qed (simp add: fe_carry9_def Let_def)

lemma sound_fe_reduce: "fe_sound fe_reduce fe_reduce_bounds"
proof -
  have "fe_sound (fold fe_carry [0, 4, 1, 5, 2, 6, 3, 7, 4, 8]) (each fe_carry_bounds [0, 4, 1, 5, 2, 6, 3, 7, 4, 8])"
    by (rule sound_each) (auto intro: sound_fe_carry)
  from sound_comp [OF this sound_comp [OF sound_fe_carry9 sound_fe_carry [of 0]]]
  show ?thesis by (simp add: fe_reduce_def [abs_def] fe_reduce_bounds_def [abs_def] Let_def)
qed


definition fe_conv_limit :: "nat \<Rightarrow> int" where
  "fe_conv_limit k = (\<Sum>i\<leftarrow>[0..<10]. fe_coef i ((k + 10 - i) mod 10) * (3 * fe_limit i * (3 * fe_limit ((k + 10 - i) mod 10))))"

lemma fe_conv_range:
  assumes "fe_bounded 3 f" "fe_bounded 3 g"
  shows "\<bar>fe_conv f g k\<bar> \<le> fe_conv_limit k"
proof -
  let ?j = "\<lambda>i. (k + 10 - i) mod 10"
  have "\<bar>fe_conv f g k\<bar> \<le> (\<Sum>i<10. \<bar>fe_coef i (?j i) * (sint (f ! i) * sint (g ! ?j i))\<bar>)"
    unfolding fe_conv_sum by (rule sum_abs)
  also have "\<dots> \<le> (\<Sum>i<10. fe_coef i (?j i) * (3 * fe_limit i * (3 * fe_limit (?j i))))"
  proof (rule sum_mono)
    fix i :: nat assume "i \<in> {..<10}"
    then have "\<bar>sint (f ! i)\<bar> * \<bar>sint (g ! ?j i)\<bar> \<le> 3 * fe_limit i * (3 * fe_limit (?j i))"
      using fe_boundedD(2) [OF assms(1), of i] fe_boundedD(2) [OF assms(2), of "?j i"] fe_limit_pos [of i]
      by (intro mult_mono) auto
    moreover have "0 \<le> fe_coef i (?j i)" by (simp add: fe_coef_def)
    ultimately show "\<bar>fe_coef i (?j i) * (sint (f ! i) * sint (g ! ?j i))\<bar> \<le> fe_coef i (?j i) * (3 * fe_limit i * (3 * fe_limit (?j i)))"
      by (simp add: abs_mult mult_left_mono)
  qed
  also have "\<dots> = fe_conv_limit k"
    unfolding fe_conv_limit_def sum_list_distinct_conv_sum_set [OF distinct_upt] set_upt by (simp add: atLeast0LessThan)
  finally show ?thesis .
qed

definition fe_product_bounds :: "int \<Rightarrow> bounds" where
  "fe_product_bounds m = map (\<lambda>k. (- (m * fe_conv_limit k), m * fe_conv_limit k)) [0..<10]"

definition fe_reduce_ok :: "int \<Rightarrow> bool" where
  "fe_reduce_ok m \<longleftrightarrow> list_all (fits max64) (fe_product_bounds m) \<and>
     (case fe_reduce_bounds (fe_product_bounds m) of None \<Rightarrow> False
      | Some B \<Rightarrow> list_all (\<lambda>i. - fe_limit i \<le> fst (B ! i) \<and> snd (B ! i) \<le> fe_limit i) [0..<10])"

lemma fe_reduce_ok_12: "fe_reduce_ok 1" "fe_reduce_ok 2"
  by code_simp+

lemma ucast_of_int: "(ucast (of_int x :: i64) :: i32) = of_int x"
  by (rule bit_word_eqI) (simp add: bit_simps)

text \<open>Storing the 64 bit limbs in the 32 bit ones of the result.\<close>

lemma fe_narrow:
  fixes t :: limbs
  assumes "length t = 10" "\<And>i. i < 10 \<Longrightarrow> \<bar>sint (t ! i)\<bar> \<le> fe_limit i"
  shows "fe_bounded 1 (map ucast t)" "fe_int (map ucast t :: fe) = fe_int t"
proof -
  have c: "sint (map ucast t ! i :: i32) = sint (t ! i)" if "i < 10" for i
  proof -
    have "(ucast (t ! i) :: i32) = of_int (sint (t ! i))" using ucast_of_int [of "sint (t ! i)"] by simp
    moreover have "int32 (sint (t ! i))" by (rule fe_entry32 [of _ 1 i]) (use assms(2) [OF that] in simp_all)
    ultimately show ?thesis using sint_of_int32 [of "sint (t ! i)"] assms(1) that by simp
  qed
  show "fe_bounded 1 (map ucast t)" using assms by (simp add: fe_bounded_def c del: nth_map)
  show "fe_int (map ucast t :: fe) = fe_int t" unfolding lval_def by (rule sum.cong) (simp_all only: c lessThan_iff)
qed

lemma fe_reduce_value:
  assumes ok: "fe_reduce_ok m" and e: "\<And>k. k < 10 \<Longrightarrow> \<bar>e k\<bar> \<le> m * fe_conv_limit k"
    and h: "h = map (\<lambda>k. of_int (e k)) [0..<10]"
  shows "fe_bounded 1 (map ucast (fe_reduce h))"
    and "fe_val (map ucast (fe_reduce h)) = of_int (\<Sum>k<10. e k * fw k)"
proof -
  obtain B where B: "fe_reduce_bounds (fe_product_bounds m) = Some B"
    "\<And>i. i < 10 \<Longrightarrow> - fe_limit i \<le> fst (B ! i) \<and> snd (B ! i) \<le> fe_limit i"
    using ok by (auto simp: fe_reduce_ok_def list_all_iff split: option.splits)
  have v: "sint (h ! k) = e k" if "k < 10" for k
  proof -
    have "fits max64 (fe_product_bounds m ! k)"
      using ok that unfolding fe_reduce_ok_def list_all_length by (simp add: fe_product_bounds_def)
    then have "int64 (e k)" using e [OF that] that by (simp add: fits_def fe_product_bounds_def abs_le_iff)
    then show ?thesis using that by (simp add: h sint_of_int64)
  qed
  have len: "length h = 10" by (simp add: h)
  have hb: "bounded (fe_product_bounds m) h"
    using v e len by (auto simp: bounded_def list_all2_conv_all_nth within_def fe_product_bounds_def abs_le_iff) (metis minus_le_iff)
  note s = soundD [OF sound_fe_reduce len]
  have lim: "\<bar>sint (fe_reduce h ! i)\<bar> \<le> fe_limit i" if "i < 10" for i
    using bounded_nth [OF s(2) [OF B(1) hb], of i] B(2) [OF that] s(1) that by (auto simp: abs_le_iff)
  note n = fe_narrow [OF s(1) lim]
  show "fe_bounded 1 (map ucast (fe_reduce h))" by (rule n(1))
  obtain q where "fe_int (fe_reduce h) = fe_int h + q * p25519" using s(3) [OF B(1) hb] by blast
  moreover note n(2)
  moreover have "fe_int h = (\<Sum>k<10. e k * fw k)" unfolding lval_def by (rule sum.cong) (simp_all only: v lessThan_iff)
  ultimately show "fe_val (map ucast (fe_reduce h)) = of_int (\<Sum>k<10. e k * fw k)" by (simp add: fe_val_def)
qed

lemma fe_mul_sound:
  assumes "fe_bounded 3 f" "fe_bounded 3 g"
  shows "fe_bounded 1 (fe_mul f g)" "fe_val (fe_mul f g) = fe_val f * fe_val g"
proof -
  have e: "\<bar>fe_conv f g k\<bar> \<le> 1 * fe_conv_limit k" if "k < 10" for k using fe_conv_range [OF assms] by simp
  note r = fe_reduce_value [OF fe_reduce_ok_12(1) e fe_mul_limbs_conv [OF assms]]
  show "fe_bounded 1 (fe_mul f g)" "fe_val (fe_mul f g) = fe_val f * fe_val g"
    using r by (simp_all only: fe_mul_def fe_conv_value fe_val_def)
qed

lemma fe_sq_sound:
  assumes "fe_bounded 3 f"
  shows "fe_bounded 1 (fe_sq f)" "fe_val (fe_sq f) = fe_val f * fe_val f"
proof -
  have e: "\<bar>fe_conv f f k\<bar> \<le> 1 * fe_conv_limit k" if "k < 10" for k using fe_conv_range [OF assms assms] by simp
  note r = fe_reduce_value [OF fe_reduce_ok_12(1) e fe_sq_limbs_conv [OF assms]]
  show "fe_bounded 1 (fe_sq f)" "fe_val (fe_sq f) = fe_val f * fe_val f"
    using r by (simp_all only: fe_sq_def fe_conv_value fe_val_def)
qed

lemma fe_sq2_sound:
  assumes "fe_bounded 3 f"
  shows "fe_bounded 1 (fe_sq2 f)" "fe_val (fe_sq2 f) = 2 * (fe_val f * fe_val f)"
proof -
  have e: "\<bar>2 * fe_conv f f k\<bar> \<le> 2 * fe_conv_limit k" if "k < 10" for k
    using fe_conv_range [OF assms assms, of k] by (simp add: abs_mult)
  have h: "map (\<lambda>h. h + h) (fe_sq_limbs f) = map (\<lambda>k. of_int (2 * fe_conv f f k)) [0..<10]"
    unfolding fe_sq_limbs_conv [OF assms] by simp
  note r = fe_reduce_value [OF fe_reduce_ok_12(2) e h]
  have "(\<Sum>k<10. 2 * fe_conv f f k * fw k) = 2 * (\<Sum>k<10. fe_conv f f k * fw k)" by (simp add: sum_distrib_left mult.assoc)
  then show "fe_bounded 1 (fe_sq2 f)" "fe_val (fe_sq2 f) = 2 * (fe_val f * fe_val f)"
    using r by (simp_all only: fe_sq2_def of_int_mult fe_conv_value fe_val_def of_int_numeral)
qed

section \<open>Powers\<close>

definition fe_pow :: "fe \<Rightarrow> nat \<Rightarrow> fe \<Rightarrow> bool" where
  "fe_pow z k t \<longleftrightarrow> fe_bounded 3 t \<and> fe_val t = fe_val z ^ k"

lemma fe_tight_loose: "fe_bounded 1 f \<Longrightarrow> fe_bounded 3 f"
  by (erule fe_bounded_mono) simp

lemma fe_pow_base: "fe_bounded 3 z \<Longrightarrow> fe_pow z 1 z"
  by (simp add: fe_pow_def)

lemma fe_pow_sq: "fe_pow z k t \<Longrightarrow> fe_pow z (2 * k) (fe_sq t)"
  by (auto simp: fe_pow_def fe_sq_sound fe_tight_loose mult_2 power_add)

lemma fe_pow_sqn: "fe_pow z k t \<Longrightarrow> fe_pow z (2 ^ n * k) ((fe_sq ^^ n) t)"
  by (induction n) (auto dest: fe_pow_sq simp: mult.assoc)

lemma fe_pow_mul: "fe_pow z k s \<Longrightarrow> fe_pow z l t \<Longrightarrow> fe_pow z (k + l) (fe_mul s t)"
  by (auto simp: fe_pow_def fe_mul_sound fe_tight_loose power_add)

lemma fe_pow_mul_bounded: "fe_pow z k s \<Longrightarrow> fe_pow z l t \<Longrightarrow> fe_bounded 1 (fe_mul s t)"
  by (simp add: fe_pow_def fe_mul_sound)

lemma fe_invert_sound:
  assumes "fe_bounded 3 z"
  shows "fe_bounded 1 (fe_invert z)" "fe_val (fe_invert z) = fe_val z ^ (2 ^ 255 - 21)"
proof -
  note z = fe_pow_base [OF assms]
  note a0 = fe_pow_sq [OF z]
  note a1 = fe_pow_mul [OF z fe_pow_sq [OF fe_pow_sq [OF a0]]]
  note a2 = fe_pow_mul [OF a0 a1]
  note a3 = fe_pow_mul [OF a1 fe_pow_sq [OF a2]]
  note a4 = fe_pow_mul [OF fe_pow_sqn [OF fe_pow_sq [OF a3], of 4] a3]
  note a5 = fe_pow_mul [OF fe_pow_sqn [OF fe_pow_sq [OF a4], of 9] a4]
  note a6 = fe_pow_mul [OF fe_pow_sqn [OF fe_pow_sq [OF a5], of 19] a5]
  note a7 = fe_pow_mul [OF fe_pow_sqn [OF fe_pow_sq [OF a6], of 9] a4]
  note a8 = fe_pow_mul [OF fe_pow_sqn [OF fe_pow_sq [OF a7], of 49] a7]
  note a9 = fe_pow_mul [OF fe_pow_sqn [OF fe_pow_sq [OF a8], of 99] a8]
  note a10 = fe_pow_mul [OF fe_pow_sqn [OF fe_pow_sq [OF a9], of 49] a7]
  note a11 = fe_pow_sqn [OF fe_pow_sq [OF a10], of 4]
  show "fe_bounded 1 (fe_invert z)" unfolding fe_invert_def Let_def by (rule fe_pow_mul_bounded [OF a11 a2])
  show "fe_val (fe_invert z) = fe_val z ^ (2 ^ 255 - 21)"
    using fe_pow_mul [OF a11 a2] unfolding fe_invert_def Let_def fe_pow_def by simp
qed

lemma fe_divpowm1_sound:
  assumes u: "fe_bounded 3 u" and v: "fe_bounded 3 v"
  shows "fe_bounded 1 (fe_divpowm1 u v)"
    "fe_val (fe_divpowm1 u v) = fe_val u * fe_val v ^ 3 * (fe_val u * fe_val v ^ 7) ^ (2 ^ 252 - 3)"
proof -
  define v3 where "v3 = fe_mul (fe_sq v) v"
  have v3: "fe_pow v 3 v3"
    using fe_pow_mul [OF fe_pow_sq [OF fe_pow_base [OF v]] fe_pow_base [OF v]] by (simp add: v3_def)
  have v7: "fe_pow v 7 (fe_mul (fe_sq v3) v)" using fe_pow_mul [OF fe_pow_sq [OF v3] fe_pow_base [OF v]] by simp
  define w where "w = fe_mul (fe_mul (fe_sq v3) v) u"
  have w: "fe_bounded 3 w" "fe_val w = fe_val u * fe_val v ^ 7"
    using v7 u by (simp_all add: w_def fe_pow_def fe_mul_sound fe_tight_loose mult.commute)
  note z = fe_pow_base [OF w(1)]
  note a0 = fe_pow_sq [OF z]
  note a1 = fe_pow_mul [OF z fe_pow_sq [OF fe_pow_sq [OF a0]]]
  note a2 = fe_pow_mul [OF a1 fe_pow_sq [OF fe_pow_mul [OF a0 a1]]]
  note a3 = fe_pow_mul [OF fe_pow_sqn [OF fe_pow_sq [OF a2], of 4] a2]
  note a4 = fe_pow_mul [OF fe_pow_sqn [OF fe_pow_sq [OF a3], of 9] a3]
  note a5 = fe_pow_mul [OF fe_pow_sqn [OF fe_pow_sq [OF a4], of 19] a4]
  note a6 = fe_pow_mul [OF fe_pow_sqn [OF a5, of 10] a3]
  note a7 = fe_pow_mul [OF fe_pow_sqn [OF fe_pow_sq [OF a6], of 49] a6]
  note a8 = fe_pow_mul [OF fe_pow_sqn [OF fe_pow_sq [OF a7], of 99] a7]
  note a9 = fe_pow_mul [OF fe_pow_sqn [OF a8, of 50] a6]
  note a10 = fe_pow_mul [OF fe_pow_sq [OF fe_pow_sq [OF a9]] z]
  define t where "t = fe_divpowm1 u v"
  obtain s where s: "t = fe_mul (fe_mul s v3) u" "fe_pow w (2 ^ 252 - 3) s"
    unfolding t_def fe_divpowm1_def Let_def v3_def [symmetric] w_def [symmetric] using a10 by simp
  have b: "fe_bounded 3 s" "fe_bounded 3 v3" using s(2) v3 by (simp_all add: fe_pow_def)
  show "fe_bounded 1 (fe_divpowm1 u v)" unfolding t_def [symmetric] s(1)
    using b u by (simp add: fe_mul_sound fe_tight_loose)
  show "fe_val (fe_divpowm1 u v) = fe_val u * fe_val v ^ 3 * (fe_val u * fe_val v ^ 7) ^ (2 ^ 252 - 3)"
    unfolding t_def [symmetric] s(1) using b u v3 s(2) w(2)
    by (simp add: fe_mul_sound fe_tight_loose fe_pow_def mult_ac)
qed

section \<open>The canonical encoding\<close>

lemma fe_pack_sum:
  fixes p0 q0 r0 t0 p1 q1 r1 t1 p2 q2 r2 t2 p3 q3 r3 t3 p4 q4 r4 t4 p5 q5 r5 t5 p6 q6 r6 t6 p7 q7 r7 t7 p8 q8
    r8 t8 p9 q9 r9 t9 :: nat
  shows "foldr (\<lambda>b n. b + 256 * n) [p0, q0, r0, t0 + p1 * 4, q1, r1, t1 + p2 * 8, q2, r2, t2 + p3 * 32, q3, r3, t3 + p4 * 64, q4, r4, t4,
    p5, q5, r5, t5 + p6 * 2, q6, r6, t6 + p7 * 8, q7, r7, t7 + p8 * 16, q8, r8, t8 + p9 * 64, q9, r9, t9] 0 =
    (p0 + 256 * q0 + 65536 * r0 + 16777216 * t0) * 2 ^ 0 +
    (p1 + 64 * q1 + 16384 * r1 + 4194304 * t1) * 2 ^ 26 +
    (p2 + 32 * q2 + 8192 * r2 + 2097152 * t2) * 2 ^ 51 +
    (p3 + 8 * q3 + 2048 * r3 + 524288 * t3) * 2 ^ 77 +
    (p4 + 4 * q4 + 1024 * r4 + 262144 * t4) * 2 ^ 102 +
    (p5 + 256 * q5 + 65536 * r5 + 16777216 * t5) * 2 ^ 128 +
    (p6 + 128 * q6 + 32768 * r6 + 8388608 * t6) * 2 ^ 153 +
    (p7 + 32 * q7 + 8192 * r7 + 2097152 * t7) * 2 ^ 179 +
    (p8 + 16 * q8 + 4096 * r8 + 1048576 * t8) * 2 ^ 204 +
    (p9 + 4 * q9 + 1024 * r9 + 262144 * t9) * 2 ^ 230"
  by simp

lemma sum10: "(\<Sum>i<10. f i) = f 0 + f 1 + f 2 + f 3 + f 4 + f 5 + f 6 + f 7 + f 8 + f 9" for f :: "nat \<Rightarrow> nat"
  by (simp add: numeral_eq_Suc)

lemma fe_bytes_nat:
  assumes s: "\<And>i. i < 10 \<Longrightarrow> 0 \<le> sint (h ! i)" and x: "\<And>i. i < 10 \<Longrightarrow> unat (h ! i) < (if even i then 2 ^ 26 else 2 ^ 25)"
  shows "le_nat (fe_bytes h) = (\<Sum>i<10. unat (h ! i) * 2 ^ ((51 * i + 1) div 2))"
proof -
  define x where "x i = unat (h ! i)" for i
  have b: "unat (ucast (signed_drop_bit n (h ! i)) :: u8) = x i div 2 ^ n mod 256" if "i < 10" for i n
    unfolding x_def by (rule byte_shr [OF s [OF that]])
  have j: "unat (ucast (signed_drop_bit n (h ! i) OR push_bit m (h ! Suc i)) :: u8) = x i div 2 ^ n + x (Suc i) mod 2 ^ (8 - m) * 2 ^ m"
    if "Suc i < 10" "(if even i then 26 else 25) = n + m" "m \<le> 8" for i n m
  proof (unfold x_def, rule byte_join)
    show "0 \<le> sint (h ! i)" using s that(1) by simp
    have "unat (h ! i) < 2 ^ m * 2 ^ n" unfolding power_add [symmetric] using x [of i] that by (simp add: add.commute split: if_splits)
    then show "unat (h ! i) div 2 ^ n < 2 ^ m" by (rule less_mult_imp_div_less)
    show "m + (8 - m) = 8" using that(3) by simp
    show "8 \<le> LENGTH(32)" by simp
  qed
  have top: "x 4 div 262144 mod 256 = x 4 div 262144" "x 9 div 262144 mod 256 = x 9 div 262144" using x [of 4] x [of 9] by (simp_all add: x_def)
  have cuts:
    "x 0 = x 0 mod 256 + 256 * (x 0 div 256 mod 256) + 65536 * (x 0 div 65536 mod 256) + 16777216 * (x 0 div 16777216)"
    "x 1 = x 1 mod 64 + 64 * (x 1 div 64 mod 256) + 16384 * (x 1 div 16384 mod 256) + 4194304 * (x 1 div 4194304)"
    "x 2 = x 2 mod 32 + 32 * (x 2 div 32 mod 256) + 8192 * (x 2 div 8192 mod 256) + 2097152 * (x 2 div 2097152)"
    "x 3 = x 3 mod 8 + 8 * (x 3 div 8 mod 256) + 2048 * (x 3 div 2048 mod 256) + 524288 * (x 3 div 524288)"
    "x 4 = x 4 mod 4 + 4 * (x 4 div 4 mod 256) + 1024 * (x 4 div 1024 mod 256) + 262144 * (x 4 div 262144)"
    "x 5 = x 5 mod 256 + 256 * (x 5 div 256 mod 256) + 65536 * (x 5 div 65536 mod 256) + 16777216 * (x 5 div 16777216)"
    "x 6 = x 6 mod 128 + 128 * (x 6 div 128 mod 256) + 32768 * (x 6 div 32768 mod 256) + 8388608 * (x 6 div 8388608)"
    "x 7 = x 7 mod 32 + 32 * (x 7 div 32 mod 256) + 8192 * (x 7 div 8192 mod 256) + 2097152 * (x 7 div 2097152)"
    "x 8 = x 8 mod 16 + 16 * (x 8 div 16 mod 256) + 4096 * (x 8 div 4096 mod 256) + 1048576 * (x 8 div 1048576)"
    "x 9 = x 9 mod 4 + 4 * (x 9 div 4 mod 256) + 1024 * (x 9 div 1024 mod 256) + 262144 * (x 9 div 262144)"
    by (rule cut_bytes2; simp)+
  note joins = j [of 0 24 2, simplified] j [of 1 22 3, simplified] j [of 2 21 5, simplified] j [of 3 19 6,
       simplified] j [of 5 24 1, simplified] j [of 6 23 3, simplified] j [of 7 21 4, simplified] j [of 8
       20 6, simplified]
  have bytes: "map unat (fe_bytes h) =
      [x 0 mod 256, x 0 div 256 mod 256, x 0 div 65536 mod 256, x 0 div 16777216 + x 1 mod 64 * 4, x 1
       div 64 mod 256, x 1 div 16384 mod 256, x 1 div 4194304 + x 2 mod 32 * 8, x 2 div 32 mod 256, x 2
       div 8192 mod 256, x 2 div 2097152 + x 3 mod 8 * 32, x 3 div 8 mod 256, x 3 div 2048 mod 256, x 3
       div 524288 + x 4 mod 4 * 64, x 4 div 4 mod 256, x 4 div 1024 mod 256, x 4 div 262144, x 5 mod 256,
       x 5 div 256 mod 256, x 5 div 65536 mod 256, x 5 div 16777216 + x 6 mod 128 * 2, x 6 div 128 mod
       256, x 6 div 32768 mod 256, x 6 div 8388608 + x 7 mod 32 * 8, x 7 div 32 mod 256, x 7 div 8192 mod
       256, x 7 div 2097152 + x 8 mod 16 * 16, x 8 div 16 mod 256, x 8 div 4096 mod 256, x 8 div 1048576
       + x 9 mod 4 * 64, x 9 div 4 mod 256, x 9 div 1024 mod 256, x 9 div 262144]"
    unfolding fe_bytes_def by (simp add: b b [of _ 0, simplified] joins joins [folded numeral_2_eq_2] top)
  show ?thesis
    unfolding le_nat_foldr bytes fe_pack_sum cuts [symmetric] x_def [symmetric] sum10 by simp
qed


lemma lval_Suc: "lval w (Suc n) s = lval w n s + w n * sint (s ! n)"
  by (simp add: lval_def mult.commute)

lemma fw10: "fw 10 = 2 ^ 255"
  by (simp add: fw_def)

lemma nested_floor: "0 < m \<Longrightarrow> 0 < n \<Longrightarrow> (b + a div m) div n = (a + m * b) div (m * n)" for a b m n :: int
  by (simp add: zdiv_zmult2_eq less_imp_le add.commute)

lemma fe_quotient_fold:
  "fe_quotient h = fold (\<lambda>i q. signed_drop_bit (if even i then 26 else 25) (h ! i + q)) [0..<10]
     (signed_drop_bit 25 (19 * h ! 9 + push_bit 24 1))"
  by (simp add: fe_quotient_def Let_def upt_conv_Cons flip: One_nat_def)

lemma fe_quotient_start:
  assumes "fe_bounded 4 h"
  shows "sint (signed_drop_bit 25 (19 * h ! 9 + push_bit 24 1)) = (19 * sint (h ! 9) + 16777216) div 33554432"
proof -
  have "19 * h ! 9 + push_bit 24 1 = of_int (19 * sint (h ! 9) + 16777216)" by simp
  moreover have "int32 (19 * sint (h ! 9) + 16777216)"
    using fe_boundedD(2) [OF assms, of 9] by (simp add: fe_limit_def abs_le_iff)
  ultimately show ?thesis by (simp only: sint_signed_shr sint_of_int32) simp
qed

lemma fe_quotient_steps:
  assumes "fe_bounded 4 h" "\<bar>sint q\<bar> \<le> 64" "k \<le> 10"
  defines "c \<equiv> fold (\<lambda>i q. signed_drop_bit (if even i then 26 else 25) (h ! i + q)) [0..<k] q"
  shows "sint c = (lval fw k h + sint q) div fw k \<and> \<bar>sint c\<bar> \<le> 64"
  unfolding c_def using assms(3)
proof (induction k)
  case 0
  then show ?case using assms(2) by (simp add: lval_def fw_def)
next
  case (Suc k)
  define c where "c = fold (\<lambda>i q. signed_drop_bit (if even i then 26 else 25) (h ! i + q)) [0..<k] q"
  have c: "sint c = (lval fw k h + sint q) div fw k" "\<bar>sint c\<bar> \<le> 64"
    unfolding c_def using Suc.IH Suc.prems by (meson Suc_leD)+
  have h: "\<bar>sint (h ! k)\<bar> \<le> 4 * 36909875"
    using fe_boundedD(2) [OF assms(1), of k] Suc.prems by (simp add: fe_limit_def split: if_splits)
  define n :: nat where "n = (if even k then 26 else 25)"
  have n: "(2::int) ^ n = (if even k then 67108864 else 33554432)" by (simp add: n_def)
  have "h ! k + c = of_int (sint (h ! k) + sint c)" by simp
  moreover have "int32 (sint (h ! k) + sint c)" using h c(2) by (simp add: abs_le_iff)
  ultimately have v: "sint (signed_drop_bit n (h ! k + c)) = (sint (h ! k) + sint c) div 2 ^ n"
    by (simp only: sint_signed_shr sint_of_int32)
  have "\<bar>(sint (h ! k) + sint c) div 2 ^ n\<bar> \<le> 64"
    unfolding n using h c(2) by (auto simp: abs_le_iff minus_le_iff)
  moreover have "(sint (h ! k) + sint c) div 2 ^ n = (lval fw (Suc k) h + sint q) div fw (Suc k)"
  proof -
    have "0 < fw k" by (simp add: fw_def)
    moreover note lval_Suc [of fw k h]
    moreover have "fw (Suc k) = fw k * 2 ^ n" by (simp add: fw_Suc n_def mult.commute)
    ultimately show ?thesis unfolding c(1) by (simp add: nested_floor ac_simps)
  qed
  ultimately show ?case by (simp add: c_def [symmetric] n_def [symmetric] v del: upt_Suc add: upt_Suc_append)
qed

lemma fe_low_limbs:
  assumes "fe_bounded 4 h"
  shows "\<bar>lval fw 9 h\<bar> \<le> 2 ^ 232"
proof -
  have "\<bar>lval fw 9 h\<bar> \<le> (\<Sum>i<9. \<bar>sint (h ! i) * fw i\<bar>)" unfolding lval_def by (rule sum_abs)
  also have "\<dots> \<le> (\<Sum>i<9. 4 * fe_limit i * fw i)"
    using fe_boundedD(2) [OF assms] by (intro sum_mono) (auto simp: abs_mult fw_def)
  also have "\<dots> = (\<Sum>i\<leftarrow>[0..<9]. 4 * fe_limit i * fw i)" by (simp add: interv_sum_list_conv_sum_set_nat atLeast0LessThan)
  also have "\<dots> \<le> 2 ^ 232" by code_simp
  finally show ?thesis .
qed

text \<open>The quotient by \<open>p\<close> estimated from the limbs is exact.\<close>

lemma quotient_exact:
  fixes h9 r q0 q s :: int
  assumes "\<bar>r\<bar> \<le> 2 ^ 232" "\<bar>q0\<bar> \<le> 64" "33554432 * q0 \<le> 19 * h9 + 16777216" "19 * h9 + 16777216 < 33554432 * q0 + 33554432"
    and "2 ^ 230 * h9 + r + q0 = 2 ^ 255 * q + s" "0 \<le> s" "s < 2 ^ 255"
  shows "0 \<le> s - q0 + 19 * q" "s - q0 + 19 * q < p25519"
  using assms unfolding p25519_def by simp_all

lemma fe_quotient_value:
  assumes "fe_bounded 4 h"
  shows "sint (fe_quotient h) = fe_int h div p25519" "\<bar>sint (fe_quotient h)\<bar> \<le> 64"
proof -
  define q0 where "q0 = (19 * sint (h ! 9) + 16777216) div 33554432"
  define q where "q = sint (fe_quotient h)"
  have b: "\<bar>q0\<bar> \<le> 64"
    using fe_boundedD(2) [OF assms, of 9] by (auto simp: q0_def fe_limit_def abs_le_iff minus_le_iff)
  note st = fe_quotient_start [OF assms, folded q0_def]
  have q: "q = (fe_int h + q0) div 2 ^ 255 \<and> \<bar>q\<bar> \<le> 64"
    using fe_quotient_steps [OF assms, of "signed_drop_bit 25 (19 * h ! 9 + push_bit 24 1)" 10,
        unfolded st fe_quotient_fold [symmetric] fw10, OF b order_refl] unfolding q_def .
  have sp: "fe_int h = 2 ^ 230 * sint (h ! 9) + lval fw 9 h"
    using lval_Suc [of fw 9 h] by (simp add: fw_def)
  define s where "s = (fe_int h + q0) mod 2 ^ 255"
  have s: "2 ^ 230 * sint (h ! 9) + lval fw 9 h + q0 = 2 ^ 255 * q + s" "0 \<le> s" "s < 2 ^ 255"
    using q unfolding s_def sp by simp_all
  have q0: "33554432 * q0 \<le> 19 * sint (h ! 9) + 16777216" "19 * sint (h ! 9) + 16777216 < 33554432 * q0 + 33554432"
    using mult_div_mod_eq [of 33554432 "19 * sint (h ! 9) + 16777216"]
      pos_mod_bound [of 33554432 "19 * sint (h ! 9) + 16777216"] pos_mod_sign [of 33554432 "19 * sint (h ! 9) + 16777216"]
    unfolding q0_def by linarith+
  note e = quotient_exact [OF fe_low_limbs [OF assms] b q0 s]
  have "fe_int h = (s - q0 + 19 * q) + q * p25519" using s(1) unfolding sp p25519_def by simp
  then have "fe_int h div p25519 = q" using e by (simp add: p25519_def)
  then show "sint (fe_quotient h) = fe_int h div p25519" by (simp add: q_def)
  show "\<bar>sint (fe_quotient h)\<bar> \<le> 64" using q unfolding q_def by (rule conjunct2)
qed

definition fe_floor_bounds :: "nat \<Rightarrow> bounds \<Rightarrow> bounds option" where
  "fe_floor_bounds i = carry_bounds max32 (if even i then 26 else 25) 0 i"

lemma sound_fe_carry_floor: "i < 9 \<Longrightarrow> sound 0 fw 10 10 10 (fe_carry_floor i) (fe_floor_bounds i)"
  by (cases "even i") (auto simp: fe_carry_floor_def [abs_def] fe_floor_bounds_def fw_Suc intro!: sound_carry_step)

definition fe_start_bounds :: bounds where
  "fe_start_bounds = map (\<lambda>i. (- 4 * fe_limit i - (if i = 0 then 1216 else 0), 4 * fe_limit i + (if i = 0 then 1216 else 0))) [0..<10]"

definition fe_floor_result :: bounds where
  "fe_floor_result = map (\<lambda>i. (0, (if even i then 67108863 else 33554431))) [0..<9] @ [(- 73819751, 73819750)]"

lemma fe_floor_ok: "each fe_floor_bounds [0, 1, 2, 3, 4, 5, 6, 7, 8] fe_start_bounds = Some fe_floor_result"
  by code_simp



lemma fe_start_bounded:
  assumes "fe_bounded 4 h"
  shows "bounded fe_start_bounds (h[0 := h ! 0 + 19 * fe_quotient h])" "fe_int (h[0 := h ! 0 + 19 * fe_quotient h]) = fe_int h + 19 * sint (fe_quotient h)"
proof -
  have "h ! 0 + 19 * fe_quotient h = of_int (sint (h ! 0) + 19 * sint (fe_quotient h))" by simp
  moreover have r: "\<bar>sint (h ! 0) + 19 * sint (fe_quotient h)\<bar> \<le> 4 * fe_limit 0 + 1216"
    using fe_boundedD(2) [OF assms, of 0] fe_quotient_value(2) [OF assms] by (simp add: fe_limit_def)
  ultimately have v: "sint (h ! 0 + 19 * fe_quotient h) = sint (h ! 0) + 19 * sint (fe_quotient h)"
    using sint_of_int32 [of "sint (h ! 0) + 19 * sint (fe_quotient h)"] by (simp add: fe_limit_def abs_le_iff)
  show "bounded fe_start_bounds (h[0 := h ! 0 + 19 * fe_quotient h])"
    unfolding bounded_def list_all2_conv_all_nth within_def
  proof (intro conjI allI impI)
    show "length fe_start_bounds = length (h[0 := h ! 0 + 19 * fe_quotient h])"
      using fe_boundedD(1) [OF assms] by (simp add: fe_start_bounds_def)
    fix i assume "i < length fe_start_bounds"
    then have i: "i < 10" by (simp add: fe_start_bounds_def)
    have "- (4 * fe_limit i) \<le> sint (h ! i)" "sint (h ! i) \<le> 4 * fe_limit i" using fe_boundedD(2) [OF assms i] by linarith+
    moreover have "- (4 * fe_limit 0 + 1216) \<le> sint (h ! 0) + 19 * sint (fe_quotient h)" "sint (h ! 0) + 19 * sint (fe_quotient h) \<le> 4 * fe_limit 0 + 1216"
      using r by linarith+
    ultimately show "fst (fe_start_bounds ! i) \<le> sint (h[0 := h ! 0 + 19 * fe_quotient h] ! i)" "sint (h[0 := h ! 0 + 19 * fe_quotient h] ! i) \<le> snd (fe_start_bounds ! i)"
      using fe_boundedD(1) [OF assms] i v unfolding fe_start_bounds_def by (cases "i = 0"; simp)+
  qed
  show "fe_int (h[0 := h ! 0 + 19 * fe_quotient h]) = fe_int h + 19 * sint (fe_quotient h)"
    using fe_boundedD(1) [OF assms] by (simp add: lval_update v fw_def)
qed

lemma fe_digits:
  assumes "\<forall>i<n. 0 \<le> sint (s ! i) \<and> sint (s ! i) < (if even i then 2 ^ 26 else 2 ^ 25)"
  shows "0 \<le> lval fw n s" "lval fw n s < fw n"
proof -
  have "0 \<le> lval fw n s \<and> lval fw n s < fw n" using assms
  proof (induction n)
    case 0
    show ?case by (simp add: lval_def fw_def)
  next
    case (Suc n)
    define m :: int where "m = (if even n then 2 ^ 26 else 2 ^ 25)"
    have d: "0 \<le> sint (s ! n)" "sint (s ! n) \<le> m - 1" using Suc.prems by (auto simp: m_def)
    have w: "0 < fw n" by (simp add: fw_def)
    have "0 \<le> fw n * sint (s ! n)" "fw n * sint (s ! n) \<le> fw n * (m - 1)" using d w by simp_all
    moreover have "fw (Suc n) = fw n * (m - 1) + fw n" by (simp add: fw_Suc m_def)
    moreover have "0 \<le> lval fw n s" "lval fw n s < fw n" using Suc by simp_all
    ultimately show ?case unfolding lval_Suc by linarith
  qed
  then show "0 \<le> lval fw n s" "lval fw n s < fw n" by simp_all
qed

lemma fe_canonical_limbs:
  assumes "fe_bounded 4 h"
  shows "\<forall>i<10. 0 \<le> sint (fe_canonical h ! i) \<and> sint (fe_canonical h ! i) < (if even i then 2 ^ 26 else 2 ^ 25)"
    and "fe_int (fe_canonical h) = fe_int h mod p25519"
proof -
  define s where "s = fold fe_carry_floor [0, 1, 2, 3, 4, 5, 6, 7, 8] (h[0 := h ! 0 + 19 * fe_quotient h])"
  have snd: "sound 0 fw 10 10 10 (fold fe_carry_floor [0, 1, 2, 3, 4, 5, 6, 7, 8]) (each fe_floor_bounds [0, 1, 2, 3, 4, 5, 6, 7, 8])"
    by (rule sound_each) (auto intro: sound_fe_carry_floor)
  have l: "length (h[0 := h ! 0 + 19 * fe_quotient h]) = 10" using fe_boundedD(1) [OF assms] by simp
  note sd = soundD [OF snd l, folded s_def]
  have s: "length s = 10" "bounded fe_floor_result s" "fe_int s = fe_int h + 19 * sint (fe_quotient h)"
    using sd(1) sd(2) [OF fe_floor_ok fe_start_bounded(1) [OF assms]] sd(3) [OF fe_floor_ok fe_start_bounded(1) [OF assms]]
      fe_start_bounded(2) [OF assms] by simp_all
  have b: "0 \<le> sint (s ! i) \<and> sint (s ! i) < (if even i then 2 ^ 26 else 2 ^ 25)" if "i < 9" for i
    using bounded_nth [OF s(2), of i] s(1) that by (auto simp: fe_floor_result_def nth_append)
  have b9: "- 73819751 \<le> sint (s ! 9)" "sint (s ! 9) \<le> 73819750"
    using bounded_nth [OF s(2), of 9] s(1) by (auto simp: fe_floor_result_def nth_append)
  define c where "c = signed_drop_bit 25 (s ! 9)"
  have z: "- 3 \<le> sint (s ! 9) div 33554432" "sint (s ! 9) div 33554432 \<le> 2" using b9 by auto
  have cl: "sint (s ! 9 - push_bit 25 c) = sint (s ! 9) - sint (s ! 9) div 33554432 * 33554432" "0 \<le> sint (s ! 9 - push_bit 25 c)"
      "sint (s ! 9 - push_bit 25 c) \<le> 33554431"
    using carry_limbs [OF machine32, of 0 25 0 "s ! 9" 0] b9 z unfolding c_def by simp_all
  have fc: "fe_canonical h = s[9 := s ! 9 - push_bit 25 c]"
    by (simp add: fe_canonical_def Let_def s_def c_def)
  show w: "\<forall>i<10. 0 \<le> sint (fe_canonical h ! i) \<and> sint (fe_canonical h ! i) < (if even i then 2 ^ 26 else 2 ^ 25)"
  proof (intro allI impI)
    fix i :: nat assume "i < 10"
    then show "0 \<le> sint (fe_canonical h ! i) \<and> sint (fe_canonical h ! i) < (if even i then 2 ^ 26 else 2 ^ 25)"
      using b [of i] cl s(1) unfolding fc by (cases "i = 9") simp_all
  qed
  define q where "q = sint (fe_quotient h)"
  have "fe_int (fe_canonical h) = fe_int h + 19 * q + (- (sint (s ! 9) div 33554432)) * 2 ^ 255"
    unfolding fc using s(1,3) by (simp add: lval_update cl(1) fw_def q_def)
  then have "fe_int (fe_canonical h) mod 2 ^ 255 = (fe_int h + 19 * q) mod 2 ^ 255" by (simp only: mod_mult_self1)
  moreover have "fe_int (fe_canonical h) mod 2 ^ 255 = fe_int (fe_canonical h)"
    using fe_digits [of 10 "fe_canonical h"] w unfolding fw10 by (intro mod_pos_pos_trivial) auto
  moreover have "fe_int h + 19 * q = fe_int h mod p25519 + q * 2 ^ 255"
    using mult_div_mod_eq [of p25519 "fe_int h"] fe_quotient_value(1) [OF assms] unfolding q_def [symmetric] by (simp add: p25519_def)
  moreover have "0 \<le> fe_int h mod p25519" "fe_int h mod p25519 < p25519" using p25519_pos by simp_all
  moreover have "p25519 < 2 ^ 255" by (simp add: p25519_def)
  ultimately show "fe_int (fe_canonical h) = fe_int h mod p25519" by (simp only: mod_mult_self1) (rule mod_pos_pos_trivial; linarith)
qed

lemma fe_tobytes_loose:
  assumes "fe_bounded 4 h"
  shows "int (le_nat (fe_tobytes h)) = fe_int h mod p25519"
proof -
  note c = fe_canonical_limbs [OF assms]
  have "unat (fe_canonical h ! i) = nat (sint (fe_canonical h ! i))" if "i < 10" for i
    using c(1) that by (simp add: unat_nonneg)
  then have u: "int (unat (fe_canonical h ! i)) = sint (fe_canonical h ! i)"
    "unat (fe_canonical h ! i) < (if even i then 2 ^ 26 else 2 ^ 25)" if "i < 10" for i
    using c(1) that by (auto simp: nat_less_iff)
  have "int (le_nat (fe_tobytes h)) = (\<Sum>i<10. int (unat (fe_canonical h ! i)) * 2 ^ ((51 * i + 1) div 2))"
    unfolding fe_tobytes_def using fe_bytes_nat [of "fe_canonical h"] c(1) u(2) by simp
  also have "\<dots> = fe_int (fe_canonical h)" unfolding lval_def fw_def by (rule sum.cong [OF refl]) (simp only: u lessThan_iff)
  finally show ?thesis using c(2) by simp
qed

lemma fe_tobytes_value: "fe_bounded 3 h \<Longrightarrow> int (le_nat (fe_tobytes h)) = fe_int h mod p25519"
  by (rule fe_tobytes_loose [OF fe_bounded_mono], assumption, simp)

lemma Rep_fe_val: "Rep_fp (fe_val f) = fe_int f mod p25519"
  by (simp add: fe_val_def Rep_fp_of_int)

lemma length_fe_tobytes [simp]: "length (fe_tobytes h) = 32"
  by (simp add: fe_tobytes_def fe_bytes_def)

lemma fe_isnonzero_loose:
  assumes "fe_bounded 4 f"
  shows "fe_isnonzero f = (if fe_val f = 0 then 0 else 1)"
proof -
  have "fe_isnonzero f = sc_isnonzero (fe_tobytes f)" by (simp add: fe_isnonzero_def sc_isnonzero_def Let_def)
  moreover have "fe_val f = 0 \<longleftrightarrow> Rep_fp (fe_val f) = 0" by (simp add: Rep_fp_inject [symmetric] zero_fp.rep_eq)
  ultimately show ?thesis by (simp add: sc_isnonzero_value fe_tobytes_loose [OF assms] Rep_fe_val)
qed

lemma fe_isnonzero_value: "fe_bounded 3 f \<Longrightarrow> fe_isnonzero f = (if fe_val f = 0 then 0 else 1)"
  by (rule fe_isnonzero_loose [OF fe_bounded_mono], assumption, simp)

lemma fe_isnegative_value:
  assumes "fe_bounded 3 f"
  shows "fe_isnegative f = (if odd (Rep_fp (fe_val f)) then 1 else 0)"
proof -
  obtain b bs where b: "fe_tobytes f = b # bs" using length_fe_tobytes [of f] by (cases "fe_tobytes f") simp_all
  have "odd (Rep_fp (fe_val f)) \<longleftrightarrow> odd (unat b)"
    unfolding Rep_fe_val fe_tobytes_value [OF assms, symmetric] even_of_nat b by simp
  moreover have "fe_isnegative f = of_nat (unat b mod 2)"
    by (rule word_unat_eq_iff [THEN iffD2]) (simp add: fe_isnegative_def b and_one_eq unat_mod_distrib unat_ucast_wrap unat_of_nat)
  ultimately show ?thesis by (simp add: mod_2_eq_odd)
qed

lemma trailing_ones_odd: "odd w \<Longrightarrow> (w - 1) AND NOT w = 0" for w :: "'a::len word"
proof -
  assume "odd w"
  then have "NOT w AND 1 = 0" by (simp add: and_one_eq mod_2_eq_odd)
  then have "w - 1 = w AND NOT 1" by (rule disjunctive_diff_eq_and_not)
  moreover have "(w AND NOT 1) AND NOT w = 0" by (rule bit_eqI) (simp add: bit_and_iff bit_not_iff)
  ultimately show ?thesis by simp
qed

lemma cmov_assertion: "((b - 1) AND NOT b) OR ((b - 2) AND NOT (b - 1)) = - 1 \<longleftrightarrow> b = 0 \<or> b = 1" for b :: u32
proof
  assume a: "((b - 1) AND NOT b) OR ((b - 2) AND NOT (b - 1)) = - 1"
  have n: "c = 0" if "x AND NOT c = - 1" for x c :: u32
    using arg_cong [OF that, of "\<lambda>w. bit w k" for k] by (intro bit_eqI) (auto simp: bit_and_iff bit_not_iff)
  show "b = 0 \<or> b = 1"
  proof (cases "odd b")
    case True
    then show ?thesis using a n [of "b - 2" "b - 1"] by (simp add: trailing_ones_odd)
  next
    case False
    then have "odd (b - 1)" by simp
    then have "(b - 2) AND NOT (b - 1) = 0" using trailing_ones_odd [of "b - 1"] by simp
    then show ?thesis using a n [of "b - 1" b] by simp
  qed
next
  assume "b = 0 \<or> b = 1"
  then show "((b - 1) AND NOT b) OR ((b - 2) AND NOT (b - 1)) = - 1" by auto
qed

lemma fe_cmov_value:
  assumes "length f = length g"
  shows "fe_cmov f g b = (if b = 0 then Some f else if b = 1 then Some g else None)"
proof -
  have z: "map2 (XOR) f (map (\<lambda>x. x AND 0) (map2 (XOR) f g)) = f" using assms by (auto intro: nth_equalityI)
  have o: "map2 (XOR) f (map (\<lambda>x. x AND - 1) (map2 (XOR) f g)) = g"
    using assms by (auto intro!: nth_equalityI simp flip: xor.assoc)
  show ?thesis using z o by (simp add: fe_cmov_def Let_def cmov_assertion del: map_map)
qed

section \<open>Constants\<close>

lemma of_int_fpI: "a mod p25519 = b mod p25519 \<Longrightarrow> (of_int a :: fp) = of_int b"
  by (simp add: of_int_fp_eq)

lemma fe_d_values:
  "121666 * fe_val fe_d = - 121665" "fe_val fe_d2 = 2 * fe_val fe_d"
proof -
  have "(of_int (121666 * fe_int fe_d) :: fp) = of_int (- 121665)" by (rule of_int_fpI) code_simp
  then show "121666 * fe_val fe_d = - 121665" by (simp add: fe_val_def)
  have "(of_int (fe_int fe_d2) :: fp) = of_int (2 * fe_int fe_d)" by (rule of_int_fpI) code_simp
  then show "fe_val fe_d2 = 2 * fe_val fe_d" by (simp add: fe_val_def)
qed

lemma fe_sqrtm1_square: "fe_val fe_sqrtm1 ^ 2 = - 1"
proof -
  have "(of_int (fe_int fe_sqrtm1 ^ 2) :: fp) = of_int (- 1)" by (rule of_int_fpI) code_simp
  then show ?thesis by (simp add: fe_val_def)
qed

lemma fe_ma_values: "fe_val fe_ma = - 486662" "fe_val fe_ma2 = - (486662 ^ 2)"
proof -
  have "(of_int (fe_int fe_ma) :: fp) = of_int (- 486662)" by (rule of_int_fpI) code_simp
  then show "fe_val fe_ma = - 486662" by (simp add: fe_val_def)
  have "(of_int (fe_int fe_ma2) :: fp) = of_int (- (486662 ^ 2))" by (rule of_int_fpI) code_simp
  then show "fe_val fe_ma2 = - (486662 ^ 2)" by (simp add: fe_val_def)
qed

lemma fe_fffb_squares:
  "fe_val fe_fffb1 ^ 2 = - 2 * 486662 * (486662 + 2)" "fe_val fe_fffb2 ^ 2 = 2 * 486662 * (486662 + 2)"
  "fe_val fe_fffb3 ^ 2 = - fe_val fe_sqrtm1 * 486662 * (486662 + 2)" "fe_val fe_fffb4 ^ 2 = fe_val fe_sqrtm1 * 486662 * (486662 + 2)"
proof -
  have "(of_int (fe_int fe_fffb1 ^ 2) :: fp) = of_int (- 2 * 486662 * (486662 + 2))" by (rule of_int_fpI) code_simp
  then show "fe_val fe_fffb1 ^ 2 = - 2 * 486662 * (486662 + 2)" by (simp add: fe_val_def)
  have "(of_int (fe_int fe_fffb2 ^ 2) :: fp) = of_int (2 * 486662 * (486662 + 2))" by (rule of_int_fpI) code_simp
  then show "fe_val fe_fffb2 ^ 2 = 2 * 486662 * (486662 + 2)" by (simp add: fe_val_def)
  have "(of_int (fe_int fe_fffb3 ^ 2) :: fp) = of_int (- fe_int fe_sqrtm1 * 486662 * (486662 + 2))" by (rule of_int_fpI) code_simp
  then show "fe_val fe_fffb3 ^ 2 = - fe_val fe_sqrtm1 * 486662 * (486662 + 2)" by (simp add: fe_val_def)
  have "(of_int (fe_int fe_fffb4 ^ 2) :: fp) = of_int (fe_int fe_sqrtm1 * 486662 * (486662 + 2))" by (rule of_int_fpI) code_simp
  then show "fe_val fe_fffb4 ^ 2 = fe_val fe_sqrtm1 * 486662 * (486662 + 2)" by (simp add: fe_val_def)
qed

section \<open>Properties\<close>

text \<open>C23: On operands up to three times the size of a product, \<open>fe_mul\<close>, \<open>fe_sq\<close> and \<open>fe_sq2\<close> compute the product, the
  square and twice the square modulo 2^255 - 19, with no signed overflow on the way, and their results are within the
  size bounds again.\<close>

theorem fe_products_correct:
  assumes "fe_bounded 3 f" "fe_bounded 3 g"
  shows "fe_val (fe_mul f g) = fe_val f * fe_val g \<and> fe_val (fe_sq f) = fe_val f ^ 2 \<and> fe_val (fe_sq2 f) = 2 * fe_val f ^ 2 \<and>
    fe_bounded 1 (fe_mul f g) \<and> fe_bounded 1 (fe_sq f) \<and> fe_bounded 1 (fe_sq2 f)"
  using fe_mul_sound [OF assms] fe_sq_sound [OF assms(1)] fe_sq2_sound [OF assms(1)] by (simp add: power2_eq_square)

theorem fe_products_correct_witness:
  "fe_val (fe_mul fe_sqrtm1 fe_d) = fe_val fe_sqrtm1 * fe_val fe_d \<and> fe_bounded 1 (fe_mul fe_sqrtm1 fe_d)"
proof -
  have "fe_bounded 3 fe_sqrtm1" "fe_bounded 3 fe_d" by code_simp+
  from fe_products_correct [OF this] show ?thesis by simp
qed

text \<open>C24: \<open>fe_tobytes\<close> writes the canonical representative of the field element, the one in [0, 2^255 - 19), as 32 bytes in
  little-endian order, whichever of the many limb representations it is given.\<close>

theorem fe_tobytes_canonical:
  assumes "fe_bounded 3 h"
  shows "length (fe_tobytes h) = 32 \<and> int (le_nat (fe_tobytes h)) = Rep_fp (fe_val h)"
  using fe_tobytes_value [OF assms] by (simp add: Rep_fe_val)

theorem fe_tobytes_canonical_witness:
  "int (le_nat (fe_tobytes fe_sqrtm1)) = Rep_fp (fe_val fe_sqrtm1)"
proof -
  have "fe_bounded 3 fe_sqrtm1" by code_simp
  from fe_tobytes_canonical [OF this] show ?thesis by simp
qed

text \<open>The addition chains of \<open>fe_invert\<close> and \<open>fe_divpowm1\<close> compute the powers they are meant to: \<open>z^(p - 2)\<close>, and
  \<open>u v^3 (u v^7)^((p - 5) / 8)\<close>, for \<open>p = 2^255 - 19\<close>.\<close>

theorem fe_power_chains:
  assumes "fe_bounded 3 u" "fe_bounded 3 v"
  shows "fe_val (fe_invert u) = fe_val u ^ nat (p25519 - 2) \<and>
    fe_val (fe_divpowm1 u v) = fe_val u * fe_val v ^ 3 * (fe_val u * fe_val v ^ 7) ^ nat ((p25519 - 5) div 8)"
proof -
  have e: "nat (p25519 - 2) = 2 ^ 255 - 21" "nat ((p25519 - 5) div 8) = 2 ^ 252 - 3" by (simp_all add: p25519_def)
  show ?thesis unfolding e using fe_invert_sound(2) [OF assms(1)] fe_divpowm1_sound(2) [OF assms] by (rule conjI)
qed

theorem fe_power_chains_witness:
  "fe_val (fe_invert fe_d) = fe_val fe_d ^ nat (p25519 - 2)"
proof -
  have "fe_bounded 3 fe_d" by code_simp
  from fe_power_chains [OF this this] show ?thesis by simp
qed

end
