(* ===== verification/Curve_Points.thy ===== *)
theory Curve_Points
  imports Field_Elements
begin

text \<open>
  Points of the twisted Edwards curve of \<open>crypto/crypto-ops.c\<close> in the code's five coordinate systems, and the
  operations on them: additions, doublings, conversions and the tables of odd multiples. A function of the code
  that fills a result through a pointer returns it here.

  A point \<open>(x, y)\<close> of the curve is held as \<open>X = x Z\<close>, \<open>Y = y Z\<close> (and \<open>T = x y Z\<close>) in \<open>ge_p2\<close> (\<open>ge_p3\<close>), and as
  \<open>X = x Z\<close>, \<open>Y = y T\<close> in \<open>ge_p1p1\<close>. The lemmas show that every operation computes the curve's addition law in these
  coordinates and that its field elements stay small enough for the field arithmetic.
\<close>

unbundle bit_operations_syntax

section \<open>Coordinates\<close>

record ge_p2 =
  p2_X :: fe
  p2_Y :: fe
  p2_Z :: fe

record ge_p3 =
  p3_X :: fe
  p3_Y :: fe
  p3_Z :: fe
  p3_T :: fe

record ge_p1p1 =
  p1_X :: fe
  p1_Y :: fe
  p1_Z :: fe
  p1_T :: fe

record ge_precomp =
  yplusx :: fe
  yminusx :: fe
  xy2d :: fe

record ge_cached =
  YplusX :: fe
  YminusX :: fe
  cached_Z :: fe
  T2d :: fe

type_synonym ge_dsmp = "ge_cached list"

section \<open>Operations\<close>

definition ge_add :: "ge_p3 \<Rightarrow> ge_cached \<Rightarrow> ge_p1p1" where
  "ge_add p q =
     (let X = fe_add (p3_Y p) (p3_X p);
          Y = fe_sub (p3_Y p) (p3_X p);
          Z = fe_mul X (YplusX q);
          Y = fe_mul Y (YminusX q);
          T = fe_mul (T2d q) (p3_T p);
          X = fe_mul (p3_Z p) (cached_Z q);
          t0 = fe_add X X;
          X = fe_sub Z Y;
          Y = fe_add Z Y;
          Z = fe_add t0 T;
          T = fe_sub t0 T
      in \<lparr>p1_X = X, p1_Y = Y, p1_Z = Z, p1_T = T\<rparr>)"

definition ge_sub :: "ge_p3 \<Rightarrow> ge_cached \<Rightarrow> ge_p1p1" where
  "ge_sub p q =
     (let X = fe_add (p3_Y p) (p3_X p);
          Y = fe_sub (p3_Y p) (p3_X p);
          Z = fe_mul X (YminusX q);
          Y = fe_mul Y (YplusX q);
          T = fe_mul (T2d q) (p3_T p);
          X = fe_mul (p3_Z p) (cached_Z q);
          t0 = fe_add X X;
          X = fe_sub Z Y;
          Y = fe_add Z Y;
          Z = fe_sub t0 T;
          T = fe_add t0 T
      in \<lparr>p1_X = X, p1_Y = Y, p1_Z = Z, p1_T = T\<rparr>)"

definition ge_madd :: "ge_p3 \<Rightarrow> ge_precomp \<Rightarrow> ge_p1p1" where
  "ge_madd p q =
     (let X = fe_add (p3_Y p) (p3_X p);
          Y = fe_sub (p3_Y p) (p3_X p);
          Z = fe_mul X (yplusx q);
          Y = fe_mul Y (yminusx q);
          T = fe_mul (xy2d q) (p3_T p);
          t0 = fe_add (p3_Z p) (p3_Z p);
          X = fe_sub Z Y;
          Y = fe_add Z Y;
          Z = fe_add t0 T;
          T = fe_sub t0 T
      in \<lparr>p1_X = X, p1_Y = Y, p1_Z = Z, p1_T = T\<rparr>)"

definition ge_msub :: "ge_p3 \<Rightarrow> ge_precomp \<Rightarrow> ge_p1p1" where
  "ge_msub p q =
     (let X = fe_add (p3_Y p) (p3_X p);
          Y = fe_sub (p3_Y p) (p3_X p);
          Z = fe_mul X (yminusx q);
          Y = fe_mul Y (yplusx q);
          T = fe_mul (xy2d q) (p3_T p);
          t0 = fe_add (p3_Z p) (p3_Z p);
          X = fe_sub Z Y;
          Y = fe_add Z Y;
          Z = fe_sub t0 T;
          T = fe_add t0 T
      in \<lparr>p1_X = X, p1_Y = Y, p1_Z = Z, p1_T = T\<rparr>)"

definition ge_p1p1_to_p2 :: "ge_p1p1 \<Rightarrow> ge_p2" where
  "ge_p1p1_to_p2 p =
     \<lparr>p2_X = fe_mul (p1_X p) (p1_T p), p2_Y = fe_mul (p1_Y p) (p1_Z p), p2_Z = fe_mul (p1_Z p) (p1_T p)\<rparr>"

definition ge_p1p1_to_p3 :: "ge_p1p1 \<Rightarrow> ge_p3" where
  "ge_p1p1_to_p3 p =
     \<lparr>p3_X = fe_mul (p1_X p) (p1_T p), p3_Y = fe_mul (p1_Y p) (p1_Z p), p3_Z = fe_mul (p1_Z p) (p1_T p),
      p3_T = fe_mul (p1_X p) (p1_Y p)\<rparr>"

definition ge_p2_0 :: ge_p2 where
  "ge_p2_0 = \<lparr>p2_X = fe_0, p2_Y = fe_1, p2_Z = fe_1\<rparr>"

definition ge_p2_dbl :: "ge_p2 \<Rightarrow> ge_p1p1" where
  "ge_p2_dbl p =
     (let X = fe_sq (p2_X p);
          Z = fe_sq (p2_Y p);
          T = fe_sq2 (p2_Z p);
          Y = fe_add (p2_X p) (p2_Y p);
          t0 = fe_sq Y;
          Y = fe_add Z X;
          Z = fe_sub Z X;
          X = fe_sub t0 Y;
          T = fe_sub T Z
      in \<lparr>p1_X = X, p1_Y = Y, p1_Z = Z, p1_T = T\<rparr>)"

definition ge_p3_0 :: ge_p3 where
  "ge_p3_0 = \<lparr>p3_X = fe_0, p3_Y = fe_1, p3_Z = fe_1, p3_T = fe_0\<rparr>"

definition ge_p3_to_p2 :: "ge_p3 \<Rightarrow> ge_p2" where
  "ge_p3_to_p2 p = \<lparr>p2_X = fe_copy (p3_X p), p2_Y = fe_copy (p3_Y p), p2_Z = fe_copy (p3_Z p)\<rparr>"

definition ge_p3_dbl :: "ge_p3 \<Rightarrow> ge_p1p1" where
  "ge_p3_dbl p = (let q = ge_p3_to_p2 p in ge_p2_dbl q)"

definition ge_p3_to_cached :: "ge_p3 \<Rightarrow> ge_cached" where
  "ge_p3_to_cached p =
     \<lparr>YplusX = fe_add (p3_Y p) (p3_X p), YminusX = fe_sub (p3_Y p) (p3_X p), cached_Z = fe_copy (p3_Z p),
      T2d = fe_mul (p3_T p) fe_d2\<rparr>"

definition ge_p3_tobytes :: "ge_p3 \<Rightarrow> bytes" where
  "ge_p3_tobytes h =
     (let recip = fe_invert (p3_Z h);
          x = fe_mul (p3_X h) recip;
          y = fe_mul (p3_Y h) recip;
          s = fe_tobytes y
      in s[31 := s ! 31 XOR ucast (push_bit 7 (fe_isnegative x))])"

definition ge_tobytes :: "ge_p2 \<Rightarrow> bytes" where
  "ge_tobytes h =
     (let recip = fe_invert (p2_Z h);
          x = fe_mul (p2_X h) recip;
          y = fe_mul (p2_Y h) recip;
          s = fe_tobytes y
      in s[31 := s ! 31 XOR ucast (push_bit 7 (fe_isnegative x))])"

definition ge_precomp_0 :: ge_precomp where
  "ge_precomp_0 = \<lparr>yplusx = fe_1, yminusx = fe_1, xy2d = fe_0\<rparr>"

definition ge_cached_0 :: ge_cached where
  "ge_cached_0 = \<lparr>YplusX = fe_1, YminusX = fe_1, cached_Z = fe_1, T2d = fe_0\<rparr>"

definition ge_mul8 :: "ge_p2 \<Rightarrow> ge_p1p1" where
  "ge_mul8 t =
     (let r = ge_p2_dbl t;
          u = ge_p1p1_to_p2 r;
          r = ge_p2_dbl u;
          u = ge_p1p1_to_p2 r
      in ge_p2_dbl u)"

text \<open>\<open>dsm_next s2 c\<close> is the line of \<open>ge_dsm_precomp\<close> that makes a table entry from the one before.\<close>

definition dsm_next :: "ge_p3 \<Rightarrow> ge_cached \<Rightarrow> ge_cached" where
  "dsm_next s2 c = (let t = ge_add s2 c; u = ge_p1p1_to_p3 t in ge_p3_to_cached u)"

definition ge_dsm_precomp :: "ge_p3 \<Rightarrow> ge_dsmp" where
  "ge_dsm_precomp s =
     (let r0 = ge_p3_to_cached s;
          t = ge_p3_dbl s;
          s2 = ge_p1p1_to_p3 t;
          r1 = dsm_next s2 r0;
          r2 = dsm_next s2 r1;
          r3 = dsm_next s2 r2;
          r4 = dsm_next s2 r3;
          r5 = dsm_next s2 r4;
          r6 = dsm_next s2 r5;
          r7 = dsm_next s2 r6
      in [r0, r1, r2, r3, r4, r5, r6, r7])"

definition ge_p3_is_point_at_infinity :: "ge_p3 \<Rightarrow> bool" where
  "ge_p3_is_point_at_infinity p =
     list_all (\<lambda>n. p3_X p ! n OR p3_T p ! n = 0 \<and> p3_Y p ! n = p3_Z p ! n) [0..<10]"

definition ge_p3_identity :: ge_p3 where
  "ge_p3_identity =
     \<lparr>p3_X = replicate 10 0, p3_Y = 1 # replicate 9 0, p3_Z = 1 # replicate 9 0, p3_T = replicate 10 0\<rparr>"

definition ge_p3_H :: ge_p3 where
  "ge_p3_H =
     \<lparr>p3_X = [7329926, - 15101362, 31411471, 7614783, 27996851, - 3197071, - 11157635, - 6878293, 466949, - 7986503],
      p3_Y = [5858699, 5096796, 21321203, - 7536921, - 5553480, - 11439507, - 5627669, 15045946, 19977121, 5275251],
      p3_Z = 1 # replicate 9 0,
      p3_T = [23443568, - 5110398, - 8776029, - 4345135, 6889568, - 14710814, 7474843, 3279062, 14550766, - 7453428]\<rparr>"

section \<open>The field operations as an interface\<close>

text \<open>
  What the point operations rely on: every operand has a size class, 1 for a reduced element and up to 3 for
  sums of reduced elements; sums add the classes, products take classes up to 3 and return class 1.
\<close>

locale field_ops =
  fixes val :: "'a \<Rightarrow> 'r::comm_ring_1" and bnd :: "int \<Rightarrow> 'a \<Rightarrow> bool"
    and add sub mul :: "'a \<Rightarrow> 'a \<Rightarrow> 'a" and sq sq2 :: "'a \<Rightarrow> 'a"
  assumes bnd_mono: "bnd m f \<Longrightarrow> m \<le> n \<Longrightarrow> bnd n f"
    and bnd_sum: "bnd m f \<Longrightarrow> bnd n g \<Longrightarrow> m + n \<le> 3 \<Longrightarrow> bnd (m + n) (add f g)"
      "bnd m f \<Longrightarrow> bnd n g \<Longrightarrow> m + n \<le> 3 \<Longrightarrow> bnd (m + n) (sub f g)"
    and val_sum: "bnd m f \<Longrightarrow> bnd n g \<Longrightarrow> m + n \<le> 3 \<Longrightarrow> val (add f g) = val f + val g"
      "bnd m f \<Longrightarrow> bnd n g \<Longrightarrow> m + n \<le> 3 \<Longrightarrow> val (sub f g) = val f - val g"
    and bnd_prod: "bnd 3 f \<Longrightarrow> bnd 3 g \<Longrightarrow> bnd 1 (mul f g)" "bnd 3 f \<Longrightarrow> bnd 1 (sq f)" "bnd 3 f \<Longrightarrow> bnd 1 (sq2 f)"
    and val_prod: "bnd 3 f \<Longrightarrow> bnd 3 g \<Longrightarrow> val (mul f g) = val f * val g"
      "bnd 3 f \<Longrightarrow> val (sq f) = val f * val f" "bnd 3 f \<Longrightarrow> val (sq2 f) = 2 * (val f * val f)"
begin

lemma bnd_up: "bnd 1 f \<Longrightarrow> bnd 2 f" "bnd 1 f \<Longrightarrow> bnd 3 f" "bnd 2 f \<Longrightarrow> bnd 3 f"
  by (rule bnd_mono, assumption, simp)+

lemma sum_11:
  assumes "bnd 1 f" "bnd 1 g"
  shows "bnd 2 (add f g)" "val (add f g) = val f + val g" "bnd 2 (sub f g)" "val (sub f g) = val f - val g"
  using bnd_sum [OF assms] val_sum [OF assms] by simp_all

lemma sum_21:
  assumes "bnd 2 f" "bnd 1 g"
  shows "bnd 3 (add f g)" "val (add f g) = val f + val g" "bnd 3 (sub f g)" "val (sub f g) = val f - val g"
  using bnd_sum [OF assms] val_sum [OF assms] by simp_all

lemma sum_12:
  assumes "bnd 1 f" "bnd 2 g"
  shows "bnd 3 (add f g)" "val (add f g) = val f + val g" "bnd 3 (sub f g)" "val (sub f g) = val f - val g"
  using bnd_sum [OF assms] val_sum [OF assms] by simp_all

lemmas arith = sum_11 sum_21 sum_12 bnd_prod val_prod bnd_up

text \<open>The part the four additions share: \<open>Z = (Y1 + X1) p\<close>, \<open>Y = (Y1 - X1) m\<close>, then \<open>Z - Y\<close> and \<open>Z + Y\<close>.\<close>

lemma addition_XY:
  assumes "bnd 1 X1" "bnd 1 Y1" "bnd 2 p" "bnd 2 m"
  defines "Z \<equiv> mul (add Y1 X1) p" and "Y \<equiv> mul (sub Y1 X1) m"
  shows "bnd 2 (sub Z Y)" "val (sub Z Y) = val Y1 * (val p - val m) + val X1 * (val p + val m)"
    and "bnd 2 (add Z Y)" "val (add Z Y) = val Y1 * (val p + val m) + val X1 * (val p - val m)"
  unfolding Z_def Y_def using assms(1-4) by (simp_all add: arith algebra_simps)

text \<open>The doubling, on projective coordinates.\<close>

lemma doubling:
  assumes "bnd 1 X1" "bnd 1 Y1" "bnd 1 Z1"
  defines "Y \<equiv> add (sq Y1) (sq X1)" and "Z \<equiv> sub (sq Y1) (sq X1)"
  defines "X \<equiv> sub (sq (add X1 Y1)) Y" and "T \<equiv> sub (sq2 Z1) Z"
  shows "bnd 3 X" "bnd 3 Y" "bnd 3 Z" "bnd 3 T"
    and "val X = 2 * (val X1 * val Y1)" "val Y = val Y1 * val Y1 + val X1 * val X1" "val Z = val Y1 * val Y1 - val X1 * val X1"
    and "val T = 2 * (val Z1 * val Z1) - (val Y1 * val Y1 - val X1 * val X1)"
  unfolding X_def T_def Y_def Z_def using assms(1-3) by (simp_all add: arith algebra_simps)

end

interpretation feo: field_ops fe_val fe_bounded fe_add fe_sub fe_mul fe_sq fe_sq2
  by unfold_locales (auto intro: fe_bounded_mono simp: fe_add_sound fe_mul_sound fe_sq_sound fe_sq2_sound)

section \<open>Points\<close>

definition p3_rep :: "ge_p3 \<Rightarrow> fp \<Rightarrow> fp \<Rightarrow> fp \<Rightarrow> bool" where
  "p3_rep p x y z \<longleftrightarrow> fe_bounded 1 (p3_X p) \<and> fe_bounded 1 (p3_Y p) \<and> fe_bounded 1 (p3_Z p) \<and> fe_bounded 1 (p3_T p) \<and>
     fe_val (p3_X p) = x * z \<and> fe_val (p3_Y p) = y * z \<and> fe_val (p3_Z p) = z \<and> fe_val (p3_T p) = x * y * z"

definition p2_rep :: "ge_p2 \<Rightarrow> fp \<Rightarrow> fp \<Rightarrow> fp \<Rightarrow> bool" where
  "p2_rep p x y z \<longleftrightarrow> fe_bounded 1 (p2_X p) \<and> fe_bounded 1 (p2_Y p) \<and> fe_bounded 1 (p2_Z p) \<and>
     fe_val (p2_X p) = x * z \<and> fe_val (p2_Y p) = y * z \<and> fe_val (p2_Z p) = z"

definition cached_rep :: "ge_cached \<Rightarrow> fp \<Rightarrow> fp \<Rightarrow> fp \<Rightarrow> bool" where
  "cached_rep q x y z \<longleftrightarrow> fe_bounded 2 (YplusX q) \<and> fe_bounded 2 (YminusX q) \<and> fe_bounded 1 (cached_Z q) \<and> fe_bounded 1 (T2d q) \<and>
     fe_val (YplusX q) = (y + x) * z \<and> fe_val (YminusX q) = (y - x) * z \<and> fe_val (cached_Z q) = z \<and>
     fe_val (T2d q) = 2 * fe_val fe_d * x * y * z"

definition precomp_rep :: "ge_precomp \<Rightarrow> fp \<Rightarrow> fp \<Rightarrow> bool" where
  "precomp_rep q x y \<longleftrightarrow> fe_bounded 1 (yplusx q) \<and> fe_bounded 1 (yminusx q) \<and> fe_bounded 1 (xy2d q) \<and>
     fe_val (yplusx q) = y + x \<and> fe_val (yminusx q) = y - x \<and> fe_val (xy2d q) = 2 * fe_val fe_d * x * y"

text \<open>A completed point: \<open>x = a / b\<close> and \<open>y = c / e\<close>, with a common factor \<open>k\<close>.\<close>

definition p1_rep :: "ge_p1p1 \<Rightarrow> fp \<Rightarrow> fp \<Rightarrow> fp \<Rightarrow> fp \<Rightarrow> fp \<Rightarrow> bool" where
  "p1_rep r k a b c e \<longleftrightarrow> fe_bounded 3 (p1_X r) \<and> fe_bounded 3 (p1_Y r) \<and> fe_bounded 3 (p1_Z r) \<and> fe_bounded 3 (p1_T r) \<and>
     fe_val (p1_X r) = k * a \<and> fe_val (p1_Z r) = k * b \<and> fe_val (p1_Y r) = k * c \<and> fe_val (p1_T r) = k * e"

lemmas rep_defs = p3_rep_def p2_rep_def cached_rep_def precomp_rep_def p1_rep_def

abbreviation ed_prod :: "fp \<Rightarrow> fp \<Rightarrow> fp \<Rightarrow> fp \<Rightarrow> fp" where
  "ed_prod x1 y1 x2 y2 \<equiv> fe_val fe_d * x1 * x2 * y1 * y2"

lemma ge_add_rep:
  assumes "p3_rep p x1 y1 z1" "cached_rep q x2 y2 z2"
  shows "p1_rep (ge_add p q) (2 * z1 * z2) (x1 * y2 + y1 * x2) (1 + ed_prod x1 y1 x2 y2) (y1 * y2 + x1 * x2) (1 - ed_prod x1 y1 x2 y2)"
  using assms feo.addition_XY [of "p3_X p" "p3_Y p" "YplusX q" "YminusX q"]
  by (auto simp: rep_defs ge_add_def Let_def feo.arith) (simp_all add: algebra_simps)

lemma ge_sub_rep:
  assumes "p3_rep p x1 y1 z1" "cached_rep q x2 y2 z2"
  shows "p1_rep (ge_sub p q) (2 * z1 * z2) (x1 * y2 - y1 * x2) (1 - ed_prod x1 y1 x2 y2) (y1 * y2 - x1 * x2) (1 + ed_prod x1 y1 x2 y2)"
  using assms feo.addition_XY [of "p3_X p" "p3_Y p" "YminusX q" "YplusX q"]
  by (auto simp: rep_defs ge_sub_def Let_def feo.arith) (simp_all add: algebra_simps)

lemma ge_madd_rep:
  assumes "p3_rep p x1 y1 z1" "precomp_rep q x2 y2"
  shows "p1_rep (ge_madd p q) (2 * z1) (x1 * y2 + y1 * x2) (1 + ed_prod x1 y1 x2 y2) (y1 * y2 + x1 * x2) (1 - ed_prod x1 y1 x2 y2)"
  using assms feo.addition_XY [of "p3_X p" "p3_Y p" "yplusx q" "yminusx q"]
  by (auto simp: rep_defs ge_madd_def Let_def feo.arith) (simp_all add: algebra_simps)

lemma ge_msub_rep:
  assumes "p3_rep p x1 y1 z1" "precomp_rep q x2 y2"
  shows "p1_rep (ge_msub p q) (2 * z1) (x1 * y2 - y1 * x2) (1 - ed_prod x1 y1 x2 y2) (y1 * y2 - x1 * x2) (1 + ed_prod x1 y1 x2 y2)"
  using assms feo.addition_XY [of "p3_X p" "p3_Y p" "yminusx q" "yplusx q"]
  by (auto simp: rep_defs ge_msub_def Let_def feo.arith) (simp_all add: algebra_simps)

lemma ge_p2_dbl_rep:
  assumes "p2_rep p x y z"
  shows "p1_rep (ge_p2_dbl p) (z * z) (2 * (x * y)) (y * y - x * x) (y * y + x * x) (2 - (y * y - x * x))"
  using assms feo.doubling [of "p2_X p" "p2_Y p" "p2_Z p"]
  by (auto simp: rep_defs ge_p2_dbl_def Let_def) (simp_all add: algebra_simps)

lemma ge_p1p1_to_p3_rep:
  assumes "p1_rep r k a b c e" "a = x * b" "c = y * e"
  shows "p3_rep (ge_p1p1_to_p3 r) x y (k * k * b * e)"
  using assms by (auto simp: rep_defs ge_p1p1_to_p3_def feo.arith)

lemma ge_p1p1_to_p2_rep:
  assumes "p1_rep r k a b c e" "a = x * b" "c = y * e"
  shows "p2_rep (ge_p1p1_to_p2 r) x y (k * k * b * e)"
  using assms by (auto simp: rep_defs ge_p1p1_to_p2_def feo.arith)

lemma fe_d2_bounded: "fe_bounded 1 fe_d2"
  by code_simp

lemma ge_p3_to_cached_rep: "p3_rep p x y z \<Longrightarrow> cached_rep (ge_p3_to_cached p) x y z"
  by (auto simp: rep_defs ge_p3_to_cached_def feo.arith fe_d2_bounded fe_d_values fe_copy_def) (simp_all add: algebra_simps)

lemma ge_p3_to_p2_rep: "p3_rep p x y z \<Longrightarrow> p2_rep (ge_p3_to_p2 p) x y z"
  by (simp add: rep_defs ge_p3_to_p2_def fe_copy_def)

lemma fe_01: "fe_bounded 1 fe_0" "fe_bounded 1 fe_1" "fe_val fe_0 = 0" "fe_val fe_1 = 1"
proof -
  show "fe_bounded 1 fe_0" "fe_bounded 1 fe_1" by code_simp+
  have "fe_int fe_0 = 0" "fe_int fe_1 = 1" by code_simp+
  then show "fe_val fe_0 = 0" "fe_val fe_1 = 1" by (simp_all add: fe_val_def)
qed

lemma identity_reps:
  "p3_rep ge_p3_0 0 1 1" "p2_rep ge_p2_0 0 1 1" "cached_rep ge_cached_0 0 1 1" "precomp_rep ge_precomp_0 0 1" "p3_rep ge_p3_identity 0 1 1"
proof -
  show "p3_rep ge_p3_0 0 1 1" "p2_rep ge_p2_0 0 1 1" "cached_rep ge_cached_0 0 1 1" "precomp_rep ge_precomp_0 0 1"
    by (simp_all add: rep_defs ge_p3_0_def ge_p2_0_def ge_cached_0_def ge_precomp_0_def fe_01 feo.bnd_up)
  have "ge_p3_identity = ge_p3_0" by (simp add: ge_p3_identity_def ge_p3_0_def fe_0_def fe_1_def numeral_eq_Suc)
  with \<open>p3_rep ge_p3_0 0 1 1\<close> show "p3_rep ge_p3_identity 0 1 1" by simp
qed

section \<open>The addition law\<close>

text \<open>The curve is \<open>-x^2 + y^2 = 1 + d x^2 y^2\<close>; the sum of two of its points is given by the fractions below.\<close>

definition on_curve :: "fp \<Rightarrow> fp \<Rightarrow> bool" where
  "on_curve x y \<longleftrightarrow> y * y - x * x = 1 + fe_val fe_d * (x * x) * (y * y)"

definition edwards_sum :: "fp \<Rightarrow> fp \<Rightarrow> fp \<Rightarrow> fp \<Rightarrow> fp \<Rightarrow> fp \<Rightarrow> bool" where
  "edwards_sum x1 y1 x2 y2 x3 y3 \<longleftrightarrow>
     x3 * (1 + ed_prod x1 y1 x2 y2) = x1 * y2 + y1 * x2 \<and> y3 * (1 - ed_prod x1 y1 x2 y2) = y1 * y2 + x1 * x2"

lemma edwards_sum_0: "edwards_sum x y 0 1 x y" "edwards_sum 0 1 x y x y"
  by (simp_all add: edwards_sum_def)

definition sum_Z :: "fp \<Rightarrow> fp \<Rightarrow> fp \<Rightarrow> fp" where
  "sum_Z k b e = k * k * b * e"

lemma ge_add_p3:
  assumes "p3_rep p x1 y1 z1" "cached_rep q x2 y2 z2" "edwards_sum x1 y1 x2 y2 x3 y3"
  shows "p3_rep (ge_p1p1_to_p3 (ge_add p q)) x3 y3 (sum_Z (2 * z1 * z2) (1 + ed_prod x1 y1 x2 y2) (1 - ed_prod x1 y1 x2 y2))"
  unfolding sum_Z_def using assms(3) by (intro ge_p1p1_to_p3_rep [OF ge_add_rep [OF assms(1,2)]]) (simp_all add: edwards_sum_def)

lemma ge_sub_p3:
  assumes "p3_rep p x1 y1 z1" "cached_rep q x2 y2 z2" "edwards_sum x1 y1 (- x2) y2 x3 y3"
  shows "p3_rep (ge_p1p1_to_p3 (ge_sub p q)) x3 y3 (sum_Z (2 * z1 * z2) (1 - ed_prod x1 y1 x2 y2) (1 + ed_prod x1 y1 x2 y2))"
  unfolding sum_Z_def using assms(3) by (intro ge_p1p1_to_p3_rep [OF ge_sub_rep [OF assms(1,2)]]) (simp_all add: edwards_sum_def)

lemma ge_madd_p3:
  assumes "p3_rep p x1 y1 z1" "precomp_rep q x2 y2" "edwards_sum x1 y1 x2 y2 x3 y3"
  shows "p3_rep (ge_p1p1_to_p3 (ge_madd p q)) x3 y3 (sum_Z (2 * z1) (1 + ed_prod x1 y1 x2 y2) (1 - ed_prod x1 y1 x2 y2))"
  unfolding sum_Z_def using assms(3) by (intro ge_p1p1_to_p3_rep [OF ge_madd_rep [OF assms(1,2)]]) (simp_all add: edwards_sum_def)

lemma ge_msub_p3:
  assumes "p3_rep p x1 y1 z1" "precomp_rep q x2 y2" "edwards_sum x1 y1 (- x2) y2 x3 y3"
  shows "p3_rep (ge_p1p1_to_p3 (ge_msub p q)) x3 y3 (sum_Z (2 * z1) (1 - ed_prod x1 y1 x2 y2) (1 + ed_prod x1 y1 x2 y2))"
  unfolding sum_Z_def using assms(3) by (intro ge_p1p1_to_p3_rep [OF ge_msub_rep [OF assms(1,2)]]) (simp_all add: edwards_sum_def)

lemma doubling_fractions:
  assumes "on_curve x y" "edwards_sum x y x y x3 y3"
  shows "2 * (x * y) = x3 * (y * y - x * x)" "y * y + x * x = y3 * (2 - (y * y - x * x))"
proof -
  have c: "y * y - x * x = 1 + ed_prod x y x y" using assms(1) by (simp add: on_curve_def ac_simps)
  then have e: "2 - (y * y - x * x) = 1 - ed_prod x y x y" by simp
  show "2 * (x * y) = x3 * (y * y - x * x)" unfolding c using assms(2) by (simp add: edwards_sum_def algebra_simps)
  show "y * y + x * x = y3 * (2 - (y * y - x * x))" unfolding e using assms(2) by (simp add: edwards_sum_def)
qed

lemma ge_p2_dbl_p2:
  assumes "p2_rep p x y z" "on_curve x y" "edwards_sum x y x y x3 y3"
  shows "p2_rep (ge_p1p1_to_p2 (ge_p2_dbl p)) x3 y3 (sum_Z (z * z) (y * y - x * x) (2 - (y * y - x * x)))"
  unfolding sum_Z_def by (rule ge_p1p1_to_p2_rep [OF ge_p2_dbl_rep [OF assms(1)] doubling_fractions [OF assms(2,3)]])

lemma ge_p2_dbl_p3:
  assumes "p2_rep p x y z" "on_curve x y" "edwards_sum x y x y x3 y3"
  shows "p3_rep (ge_p1p1_to_p3 (ge_p2_dbl p)) x3 y3 (sum_Z (z * z) (y * y - x * x) (2 - (y * y - x * x)))"
  unfolding sum_Z_def by (rule ge_p1p1_to_p3_rep [OF ge_p2_dbl_rep [OF assms(1)] doubling_fractions [OF assms(2,3)]])

section \<open>The constant points\<close>

lemma ge_p3_H_rep: "p3_rep ge_p3_H (fe_val (p3_X ge_p3_H)) (fe_val (p3_Y ge_p3_H)) 1"
proof -
  have b: "fe_bounded 1 (p3_X ge_p3_H)" "fe_bounded 1 (p3_Y ge_p3_H)" "fe_bounded 1 (p3_Z ge_p3_H)" "fe_bounded 1 (p3_T ge_p3_H)"
    by code_simp+
  have "fe_int (p3_Z ge_p3_H) = 1" by code_simp
  moreover have "(of_int (fe_int (p3_T ge_p3_H)) :: fp) = of_int (fe_int (p3_X ge_p3_H) * fe_int (p3_Y ge_p3_H))"
    by (rule of_int_fpI) code_simp
  ultimately show ?thesis using b by (simp add: p3_rep_def fe_val_def)
qed

lemma ge_p3_H_on_curve: "on_curve (fe_val (p3_X ge_p3_H)) (fe_val (p3_Y ge_p3_H))"
proof -
  define x y t where "x = fe_int (p3_X ge_p3_H)" and "y = fe_int (p3_Y ge_p3_H)" and "t = fe_int (p3_T ge_p3_H)"
  have t: "(of_int t :: fp) = of_int x * of_int y"
    using ge_p3_H_rep by (simp add: p3_rep_def fe_val_def x_def y_def t_def)
  have "(of_int (y * y - x * x) :: fp) = of_int (1 + fe_int fe_d * (t * t mod p25519))"
    unfolding x_def y_def t_def by (rule of_int_fpI) code_simp
  then have "(of_int y * of_int y - of_int x * of_int x :: fp) = 1 + of_int (fe_int fe_d) * (of_int t * of_int t)"
    by (simp add: of_int_mod_fp)
  then show ?thesis unfolding on_curve_def fe_val_def x_def [symmetric] y_def [symmetric] by (simp add: t ac_simps)
qed

section \<open>Sizes\<close>

text \<open>The size classes of the coordinates alone; every operation keeps to them.\<close>

definition p3_ok :: "ge_p3 \<Rightarrow> bool" where
  "p3_ok p \<longleftrightarrow> fe_bounded 1 (p3_X p) \<and> fe_bounded 1 (p3_Y p) \<and> fe_bounded 1 (p3_Z p) \<and> fe_bounded 1 (p3_T p)"

definition p2_ok :: "ge_p2 \<Rightarrow> bool" where
  "p2_ok p \<longleftrightarrow> fe_bounded 1 (p2_X p) \<and> fe_bounded 1 (p2_Y p) \<and> fe_bounded 1 (p2_Z p)"

definition p1_ok :: "ge_p1p1 \<Rightarrow> bool" where
  "p1_ok r \<longleftrightarrow> fe_bounded 3 (p1_X r) \<and> fe_bounded 3 (p1_Y r) \<and> fe_bounded 3 (p1_Z r) \<and> fe_bounded 3 (p1_T r)"

definition cached_ok :: "ge_cached \<Rightarrow> bool" where
  "cached_ok q \<longleftrightarrow> fe_bounded 2 (YplusX q) \<and> fe_bounded 2 (YminusX q) \<and> fe_bounded 1 (cached_Z q) \<and> fe_bounded 1 (T2d q)"

definition precomp_ok :: "ge_precomp \<Rightarrow> bool" where
  "precomp_ok q \<longleftrightarrow> fe_bounded 1 (yplusx q) \<and> fe_bounded 1 (yminusx q) \<and> fe_bounded 1 (xy2d q)"

lemmas ok_defs = p3_ok_def p2_ok_def p1_ok_def cached_ok_def precomp_ok_def

lemma addition_ok:
  "p3_ok p \<Longrightarrow> cached_ok q \<Longrightarrow> p1_ok (ge_add p q)" "p3_ok p \<Longrightarrow> cached_ok q \<Longrightarrow> p1_ok (ge_sub p q)"
  "p3_ok p \<Longrightarrow> precomp_ok c \<Longrightarrow> p1_ok (ge_madd p c)" "p3_ok p \<Longrightarrow> precomp_ok c \<Longrightarrow> p1_ok (ge_msub p c)"
  by (simp_all add: ok_defs ge_add_def ge_sub_def ge_madd_def ge_msub_def Let_def feo.arith)

lemma doubling_ok: "p2_ok r \<Longrightarrow> p1_ok (ge_p2_dbl r)" "p3_ok p \<Longrightarrow> p1_ok (ge_p3_dbl p)"
  by (simp_all add: ok_defs ge_p2_dbl_def ge_p3_dbl_def ge_p3_to_p2_def fe_copy_def Let_def feo.arith)

lemma conversion_ok:
  "p1_ok t \<Longrightarrow> p2_ok (ge_p1p1_to_p2 t)" "p1_ok t \<Longrightarrow> p3_ok (ge_p1p1_to_p3 t)" "p3_ok p \<Longrightarrow> cached_ok (ge_p3_to_cached p)"
  by (simp_all add: ok_defs ge_p1p1_to_p2_def ge_p1p1_to_p3_def ge_p3_to_cached_def fe_copy_def fe_d2_bounded feo.arith)

lemma identity_ok: "p3_ok ge_p3_0" "p2_ok ge_p2_0" "cached_ok ge_cached_0" "precomp_ok ge_precomp_0"
  using identity_reps by (simp_all add: ok_defs rep_defs)

lemmas point_ok = addition_ok doubling_ok conversion_ok identity_ok

end
