(* ===== verification/Scalar_Mult.thy ===== *)
theory Scalar_Mult
  imports Curve_Points Curve_Tables
begin

text \<open>
  Scalar multiplication as in \<open>crypto/crypto-ops.c\<close>: the signed digit recodings of a scalar (\<open>slide\<close>, and the radix 16
  digits of \<open>ge_scalarmult_base\<close> and \<open>ge_scalarmult\<close>), the constant-time table lookups, and the loops over the
  digits. A \<open>signed char\<close> is a word of 8 bits read with \<open>sint\<close>; \<open>None\<close> is the failed assertion of \<open>fe_cmov\<close>.
\<close>

unbundle bit_operations_syntax

type_synonym i8 = "8 word"

section \<open>Sliding windows\<close>

text \<open>The loop over \<open>k\<close> that adds one at position \<open>k\<close>.\<close>

function slide_carry :: "nat \<Rightarrow> i8 list \<Rightarrow> i8 list" where
  "slide_carry k r =
     (if k < 256 then
        if r ! k = 0 then r[k := 1]
        else slide_carry (Suc k) (r[k := 0])
      else r)"
  by pat_completeness auto
termination by (relation "measure (\<lambda>(k, r). 256 - k)") auto

text \<open>The loop over \<open>b\<close> for the digit at \<open>i\<close>; the sums of the comparisons are taken in \<open>int\<close>.\<close>

function slide_window :: "nat \<Rightarrow> nat \<Rightarrow> i8 list \<Rightarrow> i8 list" where
  "slide_window i b r =
     (if b \<le> 6 \<and> i + b < 256 then
        if r ! (i + b) \<noteq> 0 then
          if sint (r ! i) + sint (r ! (i + b)) * 2 ^ b \<le> 15 then
            slide_window i (Suc b) (r[i := r ! i + push_bit b (r ! (i + b)), i + b := 0])
          else if sint (r ! i) - sint (r ! (i + b)) * 2 ^ b \<ge> - 15 then
            slide_window i (Suc b) (slide_carry (i + b) (r[i := r ! i - push_bit b (r ! (i + b))]))
          else r
        else slide_window i (Suc b) r
      else r)"
  by pat_completeness auto
termination by (relation "measure (\<lambda>(i, b, r). 7 - b)") auto

declare slide_carry.simps [simp del] slide_window.simps [simp del]

definition slide_bits :: "bytes \<Rightarrow> i8 list" where
  "slide_bits a = map (\<lambda>i. 1 AND drop_bit (i mod 8) (a ! (i div 8))) [0..<256]"

definition slide :: "bytes \<Rightarrow> i8 list" where
  "slide a = fold (\<lambda>i r. if r ! i \<noteq> 0 then slide_window i 1 r else r) [0..<256] (slide_bits a)"

section \<open>Multiplication with precomputed odd multiples\<close>

text \<open>The statements of the loop bodies for one digit: with a table of cached points, and with \<open>ge_Bi\<close>.\<close>

definition dsm_digit :: "ge_dsmp \<Rightarrow> i8 \<Rightarrow> ge_p1p1 \<Rightarrow> ge_p1p1" where
  "dsm_digit Ai d t =
     (if sint d > 0 then
        let u = ge_p1p1_to_p3 t in ge_add u (Ai ! nat (sint d div 2))
      else if sint d < 0 then
        let u = ge_p1p1_to_p3 t in ge_sub u (Ai ! nat (- sint d div 2))
      else t)"

definition dsm_digit_base :: "i8 \<Rightarrow> ge_p1p1 \<Rightarrow> ge_p1p1" where
  "dsm_digit_base d t =
     (if sint d > 0 then
        let u = ge_p1p1_to_p3 t in ge_madd u (ge_Bi ! nat (sint d div 2))
      else if sint d < 0 then
        let u = ge_p1p1_to_p3 t in ge_msub u (ge_Bi ! nat (- sint d div 2))
      else t)"

text \<open>The first loop: the number of positions up to the highest one where some digit is not zero.\<close>

fun top_digit :: "(nat \<Rightarrow> bool) \<Rightarrow> nat \<Rightarrow> nat" where
  "top_digit nz 0 = 0"
| "top_digit nz (Suc i) = (if nz i then Suc i else top_digit nz i)"

text \<open>The second loop, from position \<open>n - 1\<close> down to 0.\<close>

fun dsm_loop :: "(nat \<Rightarrow> ge_p1p1 \<Rightarrow> ge_p1p1) \<Rightarrow> nat \<Rightarrow> ge_p2 \<Rightarrow> ge_p2" where
  "dsm_loop digits 0 r = r"
| "dsm_loop digits (Suc i) r =
     (let t = ge_p2_dbl r;
          t = digits i t
      in dsm_loop digits i (ge_p1p1_to_p2 t))"

text \<open>The loop of the variants that return a \<open>ge_p3\<close>: the last iteration writes the result, which no other does.\<close>

fun dsm_loop_p3 :: "(nat \<Rightarrow> ge_p1p1 \<Rightarrow> ge_p1p1) \<Rightarrow> nat \<Rightarrow> ge_p2 \<Rightarrow> ge_p3 \<Rightarrow> ge_p3" where
  "dsm_loop_p3 digits 0 r r3 = r3"
| "dsm_loop_p3 digits (Suc i) r r3 =
     (let t = ge_p2_dbl r;
          t = digits i t
      in if i = 0 then dsm_loop_p3 digits i r (ge_p1p1_to_p3 t)
         else dsm_loop_p3 digits i (ge_p1p1_to_p2 t) r3)"

definition ge_double_scalarmult_base_vartime :: "bytes \<Rightarrow> ge_p3 \<Rightarrow> bytes \<Rightarrow> ge_p2" where
  "ge_double_scalarmult_base_vartime a A b =
     (let aslide = slide a;
          bslide = slide b;
          Ai = ge_dsm_precomp A;
          n = top_digit (\<lambda>i. aslide ! i \<noteq> 0 \<or> bslide ! i \<noteq> 0) 256
      in dsm_loop (\<lambda>i t. dsm_digit_base (bslide ! i) (dsm_digit Ai (aslide ! i) t)) n ge_p2_0)"

definition ge_triple_scalarmult_base_vartime :: "bytes \<Rightarrow> bytes \<Rightarrow> ge_dsmp \<Rightarrow> bytes \<Rightarrow> ge_dsmp \<Rightarrow> ge_p2" where
  "ge_triple_scalarmult_base_vartime a b Bi c Ci =
     (let aslide = slide a;
          bslide = slide b;
          cslide = slide c;
          n = top_digit (\<lambda>i. aslide ! i \<noteq> 0 \<or> bslide ! i \<noteq> 0 \<or> cslide ! i \<noteq> 0) 256
      in dsm_loop (\<lambda>i t. dsm_digit Ci (cslide ! i) (dsm_digit Bi (bslide ! i) (dsm_digit_base (aslide ! i) t))) n ge_p2_0)"

definition ge_double_scalarmult_base_vartime_p3 :: "ge_p3 \<Rightarrow> bytes \<Rightarrow> ge_p3 \<Rightarrow> bytes \<Rightarrow> ge_p3" where
  "ge_double_scalarmult_base_vartime_p3 r3 a A b =
     (let aslide = slide a;
          bslide = slide b;
          Ai = ge_dsm_precomp A;
          n = top_digit (\<lambda>i. aslide ! i \<noteq> 0 \<or> bslide ! i \<noteq> 0) 256
      in dsm_loop_p3 (\<lambda>i t. dsm_digit_base (bslide ! i) (dsm_digit Ai (aslide ! i) t)) n ge_p2_0 r3)"

definition ge_double_scalarmult_precomp_vartime2 :: "bytes \<Rightarrow> ge_dsmp \<Rightarrow> bytes \<Rightarrow> ge_dsmp \<Rightarrow> ge_p2" where
  "ge_double_scalarmult_precomp_vartime2 a Ai b Bi =
     (let aslide = slide a;
          bslide = slide b;
          n = top_digit (\<lambda>i. aslide ! i \<noteq> 0 \<or> bslide ! i \<noteq> 0) 256
      in dsm_loop (\<lambda>i t. dsm_digit Bi (bslide ! i) (dsm_digit Ai (aslide ! i) t)) n ge_p2_0)"

definition ge_triple_scalarmult_precomp_vartime ::
    "bytes \<Rightarrow> ge_dsmp \<Rightarrow> bytes \<Rightarrow> ge_dsmp \<Rightarrow> bytes \<Rightarrow> ge_dsmp \<Rightarrow> ge_p2" where
  "ge_triple_scalarmult_precomp_vartime a Ai b Bi c Ci =
     (let aslide = slide a;
          bslide = slide b;
          cslide = slide c;
          n = top_digit (\<lambda>i. aslide ! i \<noteq> 0 \<or> bslide ! i \<noteq> 0 \<or> cslide ! i \<noteq> 0) 256
      in dsm_loop (\<lambda>i t. dsm_digit Ci (cslide ! i) (dsm_digit Bi (bslide ! i) (dsm_digit Ai (aslide ! i) t))) n ge_p2_0)"

definition ge_double_scalarmult_precomp_vartime2_p3 :: "ge_p3 \<Rightarrow> bytes \<Rightarrow> ge_dsmp \<Rightarrow> bytes \<Rightarrow> ge_dsmp \<Rightarrow> ge_p3" where
  "ge_double_scalarmult_precomp_vartime2_p3 r3 a Ai b Bi =
     (let aslide = slide a;
          bslide = slide b;
          n = top_digit (\<lambda>i. aslide ! i \<noteq> 0 \<or> bslide ! i \<noteq> 0) 256
      in dsm_loop_p3 (\<lambda>i t. dsm_digit Bi (bslide ! i) (dsm_digit Ai (aslide ! i) t)) n ge_p2_0 r3)"

definition ge_double_scalarmult_precomp_vartime :: "bytes \<Rightarrow> ge_p3 \<Rightarrow> bytes \<Rightarrow> ge_dsmp \<Rightarrow> ge_p2" where
  "ge_double_scalarmult_precomp_vartime a A b Bi =
     (let Ai = ge_dsm_precomp A in ge_double_scalarmult_precomp_vartime2 a Ai b Bi)"

section \<open>Constant-time lookups\<close>

definition equal :: "i8 \<Rightarrow> i8 \<Rightarrow> u8" where
  "equal b c =
     (let ub = b;
          uc = c;
          x = ub XOR uc;
          y = (ucast x :: u32);
          y = y - 1;
          y = drop_bit 31 y
      in ucast y)"

definition negative :: "i8 \<Rightarrow> u8" where
  "negative b = (let x = (scast b :: u64); x = drop_bit 63 x in ucast x)"

text \<open>\<open>babs = b - (((-bnegative) & b) << 1)\<close>, computed in \<open>int\<close> and stored in an \<open>unsigned char\<close>.\<close>

definition babs :: "i8 \<Rightarrow> u8" where
  "babs b =
     (let bnegative = (ucast (negative b) :: i32)
      in ucast (scast b - push_bit 1 ((- bnegative) AND scast b) :: i32))"

definition ge_precomp_cmov :: "ge_precomp \<Rightarrow> ge_precomp \<Rightarrow> u8 \<Rightarrow> ge_precomp option" where
  "ge_precomp_cmov t u b =
     Option.bind (fe_cmov (yplusx t) (yplusx u) (ucast b)) (\<lambda>f1.
     Option.bind (fe_cmov (yminusx t) (yminusx u) (ucast b)) (\<lambda>f2.
     Option.bind (fe_cmov (xy2d t) (xy2d u) (ucast b)) (\<lambda>f3.
     Some \<lparr>yplusx = f1, yminusx = f2, xy2d = f3\<rparr>)))"

definition ge_cached_cmov :: "ge_cached \<Rightarrow> ge_cached \<Rightarrow> u8 \<Rightarrow> ge_cached option" where
  "ge_cached_cmov t u b =
     Option.bind (fe_cmov (YplusX t) (YplusX u) (ucast b)) (\<lambda>f1.
     Option.bind (fe_cmov (YminusX t) (YminusX u) (ucast b)) (\<lambda>f2.
     Option.bind (fe_cmov (cached_Z t) (cached_Z u) (ucast b)) (\<lambda>f3.
     Option.bind (fe_cmov (T2d t) (T2d u) (ucast b)) (\<lambda>f4.
     Some \<lparr>YplusX = f1, YminusX = f2, cached_Z = f3, T2d = f4\<rparr>))))"

text \<open>The eight conditional moves in a row: entry \<open>j\<close> of the table when the digit is \<open>j + 1\<close>.\<close>

fun cmov_all :: "('t \<Rightarrow> 't \<Rightarrow> u8 \<Rightarrow> 't option) \<Rightarrow> 't list \<Rightarrow> u8 \<Rightarrow> nat list \<Rightarrow> 't \<Rightarrow> 't option" where
  "cmov_all cmov tab d [] t = Some t"
| "cmov_all cmov tab d (j # js) t =
     Option.bind (cmov t (tab ! j) (equal d (of_nat (Suc j)))) (cmov_all cmov tab d js)"

definition select :: "nat \<Rightarrow> i8 \<Rightarrow> ge_precomp option" where
  "select pos b =
     (let bnegative = negative b
      in Option.bind (cmov_all ge_precomp_cmov (ge_base ! pos) (babs b) [0, 1, 2, 3, 4, 5, 6, 7] ge_precomp_0) (\<lambda>t.
         let minust = \<lparr>yplusx = fe_copy (yminusx t), yminusx = fe_copy (yplusx t), xy2d = fe_neg (xy2d t)\<rparr>
         in ge_precomp_cmov t minust bnegative))"

section \<open>Multiplication of the base point\<close>

definition base_nibbles :: "bytes \<Rightarrow> i8 list" where
  "base_nibbles a = concat (map (\<lambda>i. [drop_bit 0 (a ! i) AND 15, drop_bit 4 (a ! i) AND 15]) [0..<32])"

definition base_carry :: "nat \<Rightarrow> i8 list \<times> i8 \<Rightarrow> i8 list \<times> i8" where
  "base_carry i s =
     (let e = fst s;
          carry = snd s;
          e = e[i := e ! i + carry];
          carry = e ! i + 8;
          carry = signed_drop_bit 4 carry;
          e = e[i := e ! i - push_bit 4 carry]
      in (e, carry))"

definition base_digits :: "bytes \<Rightarrow> i8 list" where
  "base_digits a =
     (let s = fold base_carry [0..<63] (base_nibbles a, 0);
          e = fst s;
          carry = snd s
      in e[63 := e ! 63 + carry])"

text \<open>One of the two loops: it adds the table entries of the digits at the given positions.\<close>

fun base_adds :: "i8 list \<Rightarrow> nat list \<Rightarrow> ge_p3 \<Rightarrow> ge_p3 option" where
  "base_adds e [] h = Some h"
| "base_adds e (i # is) h =
     Option.bind (select (i div 2) (e ! i)) (\<lambda>t.
       let r = ge_madd h t in base_adds e is (ge_p1p1_to_p3 r))"

definition ge_scalarmult_base :: "bytes \<Rightarrow> ge_p3 option" where
  "ge_scalarmult_base a =
     (let e = base_digits a;
          h = ge_p3_0
      in Option.bind (base_adds e (map (\<lambda>i. 2 * i + 1) [0..<32]) h) (\<lambda>h.
         let r = ge_p3_dbl h; s = ge_p1p1_to_p2 r;
             r = ge_p2_dbl s; s = ge_p1p1_to_p2 r;
             r = ge_p2_dbl s; s = ge_p1p1_to_p2 r;
             r = ge_p2_dbl s; h = ge_p1p1_to_p3 r
         in base_adds e (map (\<lambda>i. 2 * i) [0..<32]) h))"

section \<open>Multiplication of an arbitrary point\<close>

text \<open>The recoding loop, over the first 31 bytes; it leaves the digits and the carry.\<close>

fun scalar_digits_loop :: "bytes \<Rightarrow> nat \<Rightarrow> i8 list \<times> i32" where
  "scalar_digits_loop a 0 = ([], 0)"
| "scalar_digits_loop a (Suc i) =
     (let s = scalar_digits_loop a i;
          carry = snd s + ucast (a ! i);
          carry2 = signed_drop_bit 4 (carry + 8);
          e0 = ucast (carry - push_bit 4 carry2);
          carry = signed_drop_bit 4 (carry2 + 8);
          e1 = ucast (carry2 - push_bit 4 carry)
      in (fst s @ [e0, e1], carry))"

definition scalar_digits :: "bytes \<Rightarrow> i8 list" where
  "scalar_digits a =
     (let s = scalar_digits_loop a 31;
          carry = snd s + ucast (a ! 31);
          carry2 = signed_drop_bit 4 (carry + 8);
          e62 = ucast (carry - push_bit 4 carry2);
          e63 = ucast carry2
      in fst s @ [e62, e63])"

text \<open>The multiples 1 to 8 of the point.\<close>

fun scalar_table :: "ge_p3 \<Rightarrow> nat \<Rightarrow> ge_cached list" where
  "scalar_table A 0 = [ge_p3_to_cached A]"
| "scalar_table A (Suc i) =
     (let Ai = scalar_table A i;
          t = ge_add A (Ai ! i);
          u = ge_p1p1_to_p3 t
      in Ai @ [ge_p3_to_cached u])"

text \<open>One iteration for the digit \<open>b\<close>, up to the addition.\<close>

definition scalar_step :: "ge_cached list \<Rightarrow> i8 \<Rightarrow> ge_p2 \<Rightarrow> ge_p1p1 option" where
  "scalar_step Ai b r =
     (let bnegative = negative b;
          t = ge_p2_dbl r; r = ge_p1p1_to_p2 t;
          t = ge_p2_dbl r; r = ge_p1p1_to_p2 t;
          t = ge_p2_dbl r; r = ge_p1p1_to_p2 t;
          t = ge_p2_dbl r; u = ge_p1p1_to_p3 t
      in Option.bind (cmov_all ge_cached_cmov Ai (babs b) [0, 1, 2, 3, 4, 5, 6, 7] ge_cached_0) (\<lambda>cur.
         let minuscur = \<lparr>YplusX = fe_copy (YminusX cur), YminusX = fe_copy (YplusX cur), cached_Z = fe_copy (cached_Z cur),
                         T2d = fe_neg (T2d cur)\<rparr>
         in Option.bind (ge_cached_cmov cur minuscur bnegative) (\<lambda>cur. Some (ge_add u cur))))"

fun scalar_loop :: "ge_cached list \<Rightarrow> i8 list \<Rightarrow> nat \<Rightarrow> ge_p2 \<Rightarrow> ge_p2 option" where
  "scalar_loop Ai e 0 r = Some r"
| "scalar_loop Ai e (Suc i) r =
     Option.bind (scalar_step Ai (e ! i) r) (\<lambda>t. scalar_loop Ai e i (ge_p1p1_to_p2 t))"

definition ge_scalarmult :: "bytes \<Rightarrow> ge_p3 \<Rightarrow> ge_p2 option" where
  "ge_scalarmult a A = (let e = scalar_digits a; Ai = scalar_table A 7 in scalar_loop Ai e 64 ge_p2_0)"

fun scalar_loop_p3 :: "ge_cached list \<Rightarrow> i8 list \<Rightarrow> nat \<Rightarrow> ge_p2 \<Rightarrow> ge_p3 \<Rightarrow> ge_p3 option" where
  "scalar_loop_p3 Ai e 0 r r3 = Some r3"
| "scalar_loop_p3 Ai e (Suc i) r r3 =
     Option.bind (scalar_step Ai (e ! i) r) (\<lambda>t.
       if i = 0 then scalar_loop_p3 Ai e i r (ge_p1p1_to_p3 t)
       else scalar_loop_p3 Ai e i (ge_p1p1_to_p2 t) r3)"

definition ge_scalarmult_p3 :: "ge_p3 \<Rightarrow> bytes \<Rightarrow> ge_p3 \<Rightarrow> ge_p3 option" where
  "ge_scalarmult_p3 r3 a A = (let e = scalar_digits a; Ai = scalar_table A 7 in scalar_loop_p3 Ai e 64 ge_p2_0 r3)"

section \<open>The sliding window digits\<close>

abbreviation digit_val :: "nat \<Rightarrow> i8 list \<Rightarrow> int" where
  "digit_val \<equiv> lval (\<lambda>k. 2 ^ k)"

lemma sint_of_int8: "- 128 \<le> x \<Longrightarrow> x < 128 \<Longrightarrow> sint (of_int x :: i8) = x"
  by (rule machine_sint [of 128]) (simp_all add: machine_def)

abbreviation bit_digit :: "i8 \<Rightarrow> bool" where
  "bit_digit w \<equiv> w = 0 \<or> w = 1"

lemma digit_val_cong: "(\<And>k. k < n \<Longrightarrow> r ! k = s ! k) \<Longrightarrow> digit_val n r = digit_val n s"
  unfolding lval_def by (rule sum.cong) simp_all

lemma slide_carry_eqs:
  "k < 256 \<Longrightarrow> r ! k = 0 \<Longrightarrow> slide_carry k r = r[k := 1]"
  "k < 256 \<Longrightarrow> r ! k \<noteq> 0 \<Longrightarrow> slide_carry k r = slide_carry (Suc k) (r[k := 0])"
  by (subst slide_carry.simps, simp)+

lemma slide_carry_length [simp]: "length (slide_carry k r) = length r"
  by (induction k r rule: slide_carry.induct) (subst slide_carry.simps, simp)

lemma slide_carry_below: "j < k \<Longrightarrow> slide_carry k r ! j = r ! j"
  by (induction k r rule: slide_carry.induct) (subst slide_carry.simps, simp)

lemma slide_carry_bits:
  assumes "length r = 256" "\<And>j. k \<le> j \<Longrightarrow> j < 256 \<Longrightarrow> bit_digit (r ! j)" "k \<le> j" "j < 256"
  shows "bit_digit (slide_carry k r ! j)"
  using assms
proof (induction k r rule: slide_carry.induct)
  case (1 k r)
  have k: "k < 256" using 1(4,5) by simp
  show ?case
  proof (cases "r ! k = 0")
    case True
    then show ?thesis using 1(2-5) by (auto simp: slide_carry_eqs k nth_list_update)
  next
    case nz: False
    show ?thesis
    proof (cases "j = k")
      case True
      then show ?thesis using nz k 1(2) by (simp add: slide_carry_eqs slide_carry_below)
    next
      case False
      then show ?thesis unfolding slide_carry_eqs(2) [OF k nz] using nz k 1(2-5) by (intro 1(1)) (auto simp: nth_list_update)
    qed
  qed
qed

lemma slide_carry_val:
  assumes "length r = 256" "\<And>j. k \<le> j \<Longrightarrow> j < 256 \<Longrightarrow> bit_digit (r ! j)" "k \<le> z" "z < 256" "r ! z = 0"
  shows "digit_val 256 (slide_carry k r) = digit_val 256 r + 2 ^ k"
  using assms
proof (induction k r rule: slide_carry.induct)
  case (1 k r)
  have k: "k < 256" using 1(4,5) by simp
  show ?case
  proof (cases "r ! k = 0")
    case True
    then show ?thesis using k 1(2) by (simp add: slide_carry_eqs lval_update)
  next
    case False
    then have one: "r ! k = 1" using 1(3) k by auto
    have z: "Suc k \<le> z" using 1(4,6) False by (cases "z = k") auto
    have "digit_val 256 (slide_carry k r) = digit_val 256 (slide_carry (Suc k) (r[k := 0]))"
      using False k by (simp add: slide_carry_eqs)
    also have "\<dots> = digit_val 256 (r[k := 0]) + 2 ^ Suc k"
      using False k 1(2,3,5,6) z by (intro 1(1)) (auto simp: nth_list_update)
    also have "digit_val 256 (r[k := 0]) = digit_val 256 r - 2 ^ k" using k 1(2) one by (simp add: lval_update)
    finally show ?thesis by simp
  qed
qed

lemma slide_carry_first: "length r = 256 \<Longrightarrow> k < 256 \<Longrightarrow> r ! k \<noteq> 0 \<Longrightarrow> slide_carry k r ! k = 0"
  by (subst slide_carry.simps) (simp add: slide_carry_below)

lemma sum_pow2: "m \<le> n \<Longrightarrow> (\<Sum>k = m..<n. (2::int) ^ k) = 2 ^ n - 2 ^ m"
  by (induction n rule: dec_induct) simp_all

lemma digit_val_split: "m \<le> n \<Longrightarrow> digit_val n r = digit_val m r + (\<Sum>k = m..<n. sint (r ! k) * 2 ^ k)"
  unfolding lval_def atLeast0LessThan [symmetric] by (rule sum.atLeastLessThan_concat [symmetric]) simp_all

text \<open>A number below \<open>2 ^ 255\<close> leaves room for the carry.\<close>

lemma slide_room:
  assumes v: "digit_val 256 r < 2 ^ 255" and low: "\<bar>digit_val i r\<bar> < 2 ^ i" and i: "i + 4 < 256" "0 < sint (r ! i)"
    and z: "\<And>k. i < k \<Longrightarrow> k < i + 4 \<Longrightarrow> r ! k = 0" and bits: "\<And>k. i < k \<Longrightarrow> k < 256 \<Longrightarrow> bit_digit (r ! k)"
  shows "\<exists>z. i + 4 \<le> z \<and> z < 256 \<and> r ! z = 0"
proof (rule ccontr)
  assume "\<not> ?thesis"
  then have one: "r ! k = 1" if "i + 4 \<le> k" "k < 256" for k using bits [of k] that by auto
  have "digit_val 256 r = digit_val (Suc i) r + (\<Sum>k = Suc i..<i + 4. sint (r ! k) * 2 ^ k) + (\<Sum>k = i + 4..<256. sint (r ! k) * 2 ^ k)"
    using digit_val_split [of "Suc i" "i + 4" r] digit_val_split [of "i + 4" 256 r] i(1) by simp
  moreover have "(\<Sum>k = Suc i..<i + 4. sint (r ! k) * 2 ^ k) = 0" by (rule sum.neutral) (auto simp: z)
  moreover have "(\<Sum>k = i + 4..<256. sint (r ! k) * 2 ^ k) = 2 ^ 256 - 2 ^ (i + 4)"
  proof -
    have "(\<Sum>k = i + 4..<256. sint (r ! k) * 2 ^ k) = (\<Sum>k = i + 4..<256. 2 ^ k)" by (rule sum.cong) (simp_all add: one)
    then show ?thesis using sum_pow2 [of "i + 4" 256] i(1) by simp
  qed
  moreover have "digit_val (Suc i) r \<ge> digit_val i r + 2 ^ i" using i(2) by (simp add: lval_Suc)
  moreover have "(2::int) ^ (i + 4) \<le> 2 ^ 255" using i(1) by (intro power_increasing) simp_all
  ultimately have "digit_val 256 r \<ge> 2 ^ 256 - 2 ^ 255" using low by linarith
  then show False using v by simp
qed

definition slide_inv :: "nat \<Rightarrow> int \<Rightarrow> nat \<Rightarrow> i8 list \<Rightarrow> bool" where
  "slide_inv i A b r \<longleftrightarrow> length r = 256 \<and> digit_val 256 r = A \<and> (\<forall>k. i < k \<longrightarrow> k < 256 \<longrightarrow> bit_digit (r ! k)) \<and>
     (\<forall>k. i < k \<longrightarrow> k < i + b \<longrightarrow> k < 256 \<longrightarrow> r ! k = 0) \<and> odd (sint (r ! i)) \<and> \<bar>sint (r ! i)\<bar> \<le> 15 \<and>
     (b \<le> 4 \<longrightarrow> 0 < sint (r ! i) \<and> sint (r ! i) < 2 ^ b)"

lemma slide_inv_skip: "slide_inv i A b r \<Longrightarrow> i + b < 256 \<Longrightarrow> r ! (i + b) = 0 \<Longrightarrow> slide_inv i A (Suc b) r"
  by (auto simp: slide_inv_def less_Suc_eq intro: order.strict_trans2)

text \<open>Up to the third following bit the digit takes the bit in.\<close>

lemma slide_inv_add:
  assumes "slide_inv i A b r" "i + b < 256" "r ! (i + b) = 1" "1 \<le> b" "b \<le> 3"
  shows "sint (r ! i) + sint (r ! (i + b)) * 2 ^ b \<le> 15"
    and "slide_inv i A (Suc b) (r[i := r ! i + push_bit b (r ! (i + b)), i + b := 0])"
proof -
  have p: "(2::int) ^ Suc b \<le> 2 ^ 4" using assms(5) by (intro power_increasing) simp_all
  have d: "0 < sint (r ! i)" "sint (r ! i) < 2 ^ b" using assms(1,5) by (simp_all add: slide_inv_def)
  show le: "sint (r ! i) + sint (r ! (i + b)) * 2 ^ b \<le> 15" using p d assms(3) by simp
  have "r ! i + push_bit b (r ! (i + b)) = of_int (sint (r ! i) + 2 ^ b)" using assms(3) by (simp add: push_bit_eq_mult)
  then have v: "sint (r ! i + push_bit b (r ! (i + b))) = sint (r ! i) + 2 ^ b"
    using sint_of_int8 [of "sint (r ! i) + 2 ^ b"] le d assms(3) by simp
  have l: "length r = 256" using assms(1) by (simp add: slide_inv_def)
  have "digit_val 256 (r[i := r ! i + push_bit b (r ! (i + b)), i + b := 0]) = digit_val 256 r"
    using l assms(2-4) v by (simp add: lval_update power_add)
  moreover have "odd (sint (r ! i) + 2 ^ b)" using assms(1,4) by (simp add: slide_inv_def)
  ultimately show "slide_inv i A (Suc b) (r[i := r ! i + push_bit b (r ! (i + b)), i + b := 0])"
    using assms(1,2,4) l v d le by (auto simp: slide_inv_def nth_list_update less_Suc_eq assms(3))
qed

text \<open>The fourth bit makes the digit negative and carries.\<close>

lemma slide_inv_sub:
  assumes inv: "slide_inv i A 4 r" and i: "i + 4 < 256" "r ! (i + 4) = 1" and A: "A < 2 ^ 255" and low: "\<bar>digit_val i r\<bar> < 2 ^ i"
  defines "s \<equiv> slide_carry (i + 4) (r[i := r ! i - push_bit 4 (r ! (i + 4))])"
  shows "\<not> sint (r ! i) + sint (r ! (i + 4)) * 2 ^ 4 \<le> 15" "- 15 \<le> sint (r ! i) - sint (r ! (i + 4)) * 2 ^ 4"
    and "slide_inv i A 5 s" "\<forall>k<i. s ! k = r ! k"
proof -
  have d: "0 < sint (r ! i)" "sint (r ! i) \<le> 15" "odd (sint (r ! i))" "length r = 256" "digit_val 256 r = A"
    using inv by (simp_all add: slide_inv_def)
  then show "\<not> sint (r ! i) + sint (r ! (i + 4)) * 2 ^ 4 \<le> 15" "- 15 \<le> sint (r ! i) - sint (r ! (i + 4)) * 2 ^ 4"
    using i by simp_all
  define r' where "r' = r[i := r ! i - push_bit 4 (r ! (i + 4))]"
  have "r ! i - push_bit 4 (r ! (i + 4)) = of_int (sint (r ! i) - 16)" using i by (simp add: push_bit_eq_mult)
  then have v: "sint (r ! i - push_bit 4 (r ! (i + 4))) = sint (r ! i) - 16"
    using sint_of_int8 [of "sint (r ! i) - 16"] d by simp
  obtain z where z: "i + 4 \<le> z" "z < 256" "r ! z = 0"
    using slide_room [of r i] inv A low i d(1) by (auto simp: slide_inv_def)
  have bits: "bit_digit (r' ! k)" if "i < k" "k < 256" for k using inv that by (auto simp: slide_inv_def r'_def)
  have "digit_val 256 s = digit_val 256 r' + 2 ^ (i + 4)"
    unfolding s_def r'_def [symmetric] using z d(4) bits by (intro slide_carry_val) (auto simp: r'_def)
  also have "digit_val 256 r' = A - 16 * 2 ^ i" using i d v by (simp add: r'_def lval_update)
  finally have val: "digit_val 256 s = A" by (simp add: power_add)
  have below: "s ! k = r' ! k" if "k < i + 4" for k unfolding s_def r'_def [symmetric] using that by (rule slide_carry_below)
  have above: "bit_digit (s ! k)" if "i + 4 \<le> k" "k < 256" for k
    unfolding s_def r'_def [symmetric] using that d(4) bits by (intro slide_carry_bits) (auto simp: r'_def)
  have s4: "s ! (i + 4) = 0"
    unfolding s_def r'_def [symmetric] using i d(4) by (intro slide_carry_first) (simp_all add: r'_def)
  have si: "s ! i = r ! i - push_bit 4 (r ! (i + 4))" using below [of i] i d(4) by (simp add: r'_def)
  have zero: "s ! k = 0" if "i < k" "k < i + 5" for k
    using that inv s4 below [of k] i by (cases "k = i + 4") (auto simp: slide_inv_def r'_def)
  have "bit_digit (s ! k)" if "i < k" "k < 256" for k using zero [of k] above [of k] that by (cases "k < i + 4") auto
  moreover have "length s = 256" using d(4) by (simp add: s_def)
  moreover have "odd (sint (r ! i) - 16)" using d(3) by simp
  ultimately show "slide_inv i A 5 s" using val zero d by (auto simp: slide_inv_def si v abs_le_iff)
  show "\<forall>k<i. s ! k = r ! k" using below by (simp add: r'_def)
qed

text \<open>After that neither comparison holds for a further bit, which ends the loop.\<close>

lemma slide_inv_stop:
  assumes "slide_inv i A b r" "r ! (i + b) = 1" "5 \<le> b"
  shows "\<not> sint (r ! i) + sint (r ! (i + b)) * 2 ^ b \<le> 15" "\<not> - 15 \<le> sint (r ! i) - sint (r ! (i + b)) * 2 ^ b"
proof -
  have "(2::int) ^ 5 \<le> 2 ^ b" using assms(3) by (intro power_increasing) simp_all
  moreover have "\<bar>sint (r ! i)\<bar> \<le> 15" using assms(1) by (simp add: slide_inv_def)
  ultimately show "\<not> sint (r ! i) + sint (r ! (i + b)) * 2 ^ b \<le> 15" "\<not> - 15 \<le> sint (r ! i) - sint (r ! (i + b)) * 2 ^ b"
    using assms(2) by simp_all
qed

lemma slide_inv_end: "slide_inv i A b r \<Longrightarrow> 5 \<le> b \<or> 256 \<le> i + b \<Longrightarrow> slide_inv i A 5 r"
  by (auto simp: slide_inv_def)

lemma slide_window_inv:
  assumes "slide_inv i A b r" "1 \<le> b" "A < 2 ^ 255" "\<bar>digit_val i r\<bar> < 2 ^ i"
  shows "slide_inv i A 5 (slide_window i b r) \<and> (\<forall>k<i. slide_window i b r ! k = r ! k)"
  using assms(1,2,4)
proof (induction "7 - b" arbitrary: b r rule: less_induct)
  case less
  note inv = less.prems(1)
  have next_b: "slide_inv i A 5 (slide_window i (Suc b) s) \<and> (\<forall>k<i. slide_window i (Suc b) s ! k = r ! k)"
    if s: "slide_inv i A (Suc b) s" "b \<le> 6" "\<forall>k<i. s ! k = r ! k" for s
  proof -
    have "digit_val i s = digit_val i r" using s(3) by (intro digit_val_cong) simp
    then show ?thesis using less.hyps [of "Suc b" s] s less.prems by simp
  qed
  have bit: "bit_digit (r ! (i + b))" if "i + b < 256" using inv less.prems(2) that by (simp add: slide_inv_def)
  have range: "b \<le> 3 \<or> b = 4 \<or> 5 \<le> b" by linarith
  consider (over) "\<not> (b \<le> 6 \<and> i + b < 256)" | (zero) "b \<le> 6" "i + b < 256" "r ! (i + b) = 0"
    | (add) "b \<le> 3" "i + b < 256" "r ! (i + b) = 1" | (sub) "b = 4" "i + b < 256" "r ! (i + b) = 1"
    | (stop) "5 \<le> b" "i + b < 256" "r ! (i + b) = 1"
    using bit range by blast
  then show ?case
  proof cases
    case over
    then have "slide_window i b r = r" by (subst slide_window.simps) auto
    then show ?thesis using slide_inv_end [OF inv] over by auto
  next
    case zero
    then have "slide_window i b r = slide_window i (Suc b) r" by (subst slide_window.simps) simp
    then show ?thesis using next_b [OF slide_inv_skip [OF inv zero(2,3)] zero(1)] by simp
  next
    case add
    note a = slide_inv_add [OF inv add(2,3) less.prems(2) add(1)]
    have "slide_window i b r = slide_window i (Suc b) (r[i := r ! i + push_bit b (r ! (i + b)), i + b := 0])"
      using add a(1) by (subst slide_window.simps) simp
    then show ?thesis using next_b [OF a(2)] add(1) by simp
  next
    case sub
    note a = slide_inv_sub [OF inv [unfolded sub] sub(2,3) [unfolded sub(1)] assms(3) less.prems(3)]
    have "slide_window i b r = slide_window i (Suc b) (slide_carry (i + 4) (r[i := r ! i - push_bit 4 (r ! (i + 4))]))"
      using sub a(1,2) by (subst slide_window.simps) simp
    then show ?thesis using next_b [of "slide_carry (i + 4) (r[i := r ! i - push_bit 4 (r ! (i + 4))])"] a(3,4) sub(1) by simp
  next
    case stop
    have "slide_window i b r = r" using stop slide_inv_stop [OF inv stop(3,1)] by (subst slide_window.simps) simp
    then show ?thesis using slide_inv_end [OF inv] stop(1) by simp
  qed
qed

text \<open>The outer loop: the digits below \<open>i\<close> are final, the ones from \<open>i\<close> on are still bits, and what the
  final digits add up to is smaller than the place of the next digit that is not zero.\<close>

definition slide_outer :: "int \<Rightarrow> nat \<Rightarrow> i8 list \<Rightarrow> bool" where
  "slide_outer A i r \<longleftrightarrow> length r = 256 \<and> digit_val 256 r = A \<and> (\<forall>k. i \<le> k \<longrightarrow> k < 256 \<longrightarrow> bit_digit (r ! k)) \<and>
     (\<forall>k<i. r ! k \<noteq> 0 \<longrightarrow> odd (sint (r ! k)) \<and> \<bar>sint (r ! k)\<bar> \<le> 15) \<and>
     (\<forall>j k. k < i \<longrightarrow> r ! k \<noteq> 0 \<longrightarrow> k < j \<longrightarrow> j < k + 5 \<longrightarrow> j < 256 \<longrightarrow> r ! j = 0) \<and>
     (\<forall>j. i \<le> j \<longrightarrow> j < 256 \<longrightarrow> r ! j \<noteq> 0 \<longrightarrow> \<bar>digit_val i r\<bar> < 2 ^ j)"

lemma slide_outer_step:
  assumes r: "slide_outer A i r" and A: "A < 2 ^ 255" and i: "i < 256"
  shows "slide_outer A (Suc i) (if r ! i \<noteq> 0 then slide_window i 1 r else r)"
proof (cases "r ! i = 0")
  case True
  then have "digit_val (Suc i) r = digit_val i r" by (simp add: lval_Suc)
  with True r show ?thesis by (auto simp: slide_outer_def less_Suc_eq)
next
  case False
  then have one: "r ! i = 1" and low: "\<bar>digit_val i r\<bar> < 2 ^ i" using r i by (auto simp: slide_outer_def)
  have "slide_inv i A 1 r" using r one by (auto simp: slide_inv_def slide_outer_def)
  from slide_window_inv [OF this order_refl A low]
  have s: "slide_inv i A 5 (slide_window i 1 r)" "\<forall>k<i. slide_window i 1 r ! k = r ! k" by simp_all
  have gap: "r ! j = 0" if "k < i" "r ! k \<noteq> 0" "k < j" "j < k + 5" "j < 256" for j k
    using r that unfolding slide_outer_def by blast
  define t where "t = slide_window i 1 r"
  note t = s [folded t_def]
  have "digit_val i t = digit_val i r" using t(2) by (intro digit_val_cong) simp
  moreover have "\<bar>sint (t ! i)\<bar> \<le> 15" using t(1) by (simp add: slide_inv_def)
  then have "\<bar>2 ^ i * sint (t ! i)\<bar> \<le> 2 ^ i * 15" unfolding abs_mult by simp
  ultimately have lo: "\<bar>digit_val (Suc i) t\<bar> < 2 ^ (i + 4)" using low by (simp add: lval_Suc power_add)
  have "\<bar>digit_val (Suc i) t\<bar> < 2 ^ j" if "Suc i \<le> j" "j < 256" "t ! j \<noteq> 0" for j
  proof -
    have "i + 5 \<le> j"
    proof (rule ccontr)
      assume "\<not> i + 5 \<le> j"
      then show False using t(1) that by (simp add: slide_inv_def)
    qed
    then have "(2::int) ^ (i + 4) \<le> 2 ^ j" by (intro power_increasing) simp_all
    then show ?thesis using lo by linarith
  qed
  moreover have "t ! j = 0" if "k < i" "t ! k \<noteq> 0" "k < j" "j < k + 5" "j < 256" for j k
  proof (cases "j < i")
    case True
    then have "t ! j = r ! j" "t ! k = r ! k" using t(2) that(1) by simp_all
    then show ?thesis using gap [OF that(1) _ that(3-5)] that(2) by simp
  next
    case False
    have "r ! k \<noteq> 0" using t(2) that(1,2) by simp
    then have "r ! i = 0" using gap [OF that(1)] that(1,4) False i by simp
    then show ?thesis using one by simp
  qed
  ultimately have "slide_outer A (Suc i) t"
    using t r unfolding slide_outer_def slide_inv_def less_Suc_eq Suc_le_eq by simp
  then show ?thesis using False by (simp add: t_def)
qed

lemma le_nat_bit:
  assumes "k < 8 * length a"
  shows "odd (le_nat a div 2 ^ k) \<longleftrightarrow> bit (a ! (k div 8)) (k mod 8)"
proof -
  define q m where "q = k div 8" and "m = k mod 8"
  have q: "q < length a" "m < 8" "k = 8 * q + m" using assms by (auto simp: q_def m_def)
  have "le_nat a div 256 ^ q = unat (a ! q) + 256 * le_nat (drop (Suc q) a)"
    unfolding le_nat_drop [symmetric] using Cons_nth_drop_Suc [OF q(1)] by (metis le_nat.simps(2))
  moreover have "(2::nat) ^ k = 256 ^ q * 2 ^ m" by (simp add: q(3) power_add power_mult)
  ultimately have "le_nat a div 2 ^ k = (unat (a ! q) + 2 ^ 8 * le_nat (drop (Suc q) a)) div 2 ^ m"
    by (simp add: div_mult2_eq)
  also have "\<dots> = unat (a ! q) div 2 ^ m + 2 ^ (8 - m) * le_nat (drop (Suc q) a)"
  proof -
    have "(2::nat) ^ 8 = 2 ^ m * 2 ^ (8 - m)" unfolding power_add [symmetric] using q(2) by simp
    then show ?thesis by (simp only: mult.assoc div_mult_self2 power_not_zero) simp
  qed
  finally have "odd (le_nat a div 2 ^ k) \<longleftrightarrow> odd (unat (a ! q) div 2 ^ m)" using q(2) by simp
  also have "\<dots> \<longleftrightarrow> bit (a ! q) m" by (simp only: bit_iff_odd [symmetric] bit_unsigned_iff) simp
  finally show ?thesis by (simp add: q_def m_def)
qed

lemma slide_bits_val:
  assumes "length a = 32"
  shows "digit_val 256 (slide_bits a) = int (le_nat a)"
proof -
  have "le_nat a < 2 ^ 256" using le_nat_bound [of a] assms by simp
  then have "take_bit 256 (le_nat a) = le_nat a" by (simp add: take_bit_nat_eq_self)
  then have "le_nat a = (\<Sum>k = 0..<256. of_bool (bit (le_nat a) k) * 2 ^ k)"
    using take_bit_sum [of 256 "le_nat a"] by (simp add: push_bit_eq_mult)
  then have "int (le_nat a) = (\<Sum>k<256. of_bool (bit (le_nat a) k) * 2 ^ k)"
    by (metis (mono_tags, lifting) atLeast0LessThan of_nat_mult of_nat_numeral of_nat_of_bool of_nat_power of_nat_sum sum.cong)
  also have "\<dots> = digit_val 256 (slide_bits a)"
    unfolding lval_def
  proof (rule sum.cong [OF refl])
    fix k :: nat assume "k \<in> {..<256}"
    then have k: "k < 256" by simp
    have "bit (le_nat a) k \<longleftrightarrow> bit (a ! (k div 8)) (k mod 8)" unfolding bit_iff_odd using le_nat_bit [of k a] k assms by (simp add: bit_iff_odd)
    moreover have "slide_bits a ! k = of_bool (bit (a ! (k div 8)) (k mod 8))"
      using k by (simp add: slide_bits_def one_and_eq mod_2_eq_odd bit_iff_odd_drop_bit)
    ultimately show "of_bool (bit (le_nat a) k) * 2 ^ k = sint (slide_bits a ! k) * 2 ^ k" by simp
  qed
  finally show ?thesis by simp
qed

lemma slide_bits_start: "length a = 32 \<Longrightarrow> slide_outer (int (le_nat a)) 0 (slide_bits a)"
  by (auto simp: slide_outer_def slide_bits_val lval_def [of _ 0])
    (auto simp: slide_bits_def one_and_eq mod_2_eq_odd)

lemma slide_outer_final:
  assumes "length a = 32" "le_nat a < 2 ^ 255"
  shows "slide_outer (int (le_nat a)) 256 (slide a)"
proof -
  have "slide_outer (int (le_nat a)) n (fold (\<lambda>i r. if r ! i \<noteq> 0 then slide_window i 1 r else r) [0..<n] (slide_bits a))" if "n \<le> 256" for n
    using that
  proof (induction n)
    case 0
    show ?case using slide_bits_start [OF assms(1)] by simp
  next
    case (Suc n)
    have "int (le_nat a) < 2 ^ 255" using assms(2) by (metis of_nat_less_iff of_nat_numeral of_nat_power)
    then show ?case using slide_outer_step [OF Suc.IH] Suc.prems by simp
  qed
  then show ?thesis unfolding slide_def by simp
qed

section \<open>The radix 16 digits\<close>

abbreviation hex_val :: "nat \<Rightarrow> i8 list \<Rightarrow> int" where
  "hex_val \<equiv> lval (\<lambda>k. 16 ^ k)"

lemma le_nat_take_Suc: "i < length a \<Longrightarrow> le_nat (take (Suc i) a) = le_nat (take i a) + 256 ^ i * unat (a ! i)"
  by (simp add: take_Suc_conv_app_nth le_nat_append)

lemma pair_nth:
  "i < n \<Longrightarrow> concat (map (\<lambda>i. [f i, g i]) [0..<n]) ! (2 * i) = f i"
  "i < n \<Longrightarrow> concat (map (\<lambda>i. [f i, g i]) [0..<n]) ! (2 * i + 1) = g i"
  "length (concat (map (\<lambda>i. [f i, g i]) [0..<n])) = 2 * n"
proof -
  show l: "length (concat (map (\<lambda>i. [f i, g i]) [0..<n])) = 2 * n" for n by (induction n) simp_all
  show "i < n \<Longrightarrow> concat (map (\<lambda>i. [f i, g i]) [0..<n]) ! (2 * i) = f i"
    "i < n \<Longrightarrow> concat (map (\<lambda>i. [f i, g i]) [0..<n]) ! (2 * i + 1) = g i"
    by (induction n) (auto simp: nth_append l less_Suc_eq)
qed

lemma length_base_nibbles [simp]: "length (base_nibbles a) = 64"
  unfolding base_nibbles_def pair_nth(3) by simp

lemma nibble_vals:
  assumes "i < 32"
  shows "sint (base_nibbles a ! (2 * i)) = int (unat (a ! i) mod 16)" "sint (base_nibbles a ! (2 * i + 1)) = int (unat (a ! i) div 16)"
proof -
  have n: "sint (of_nat x :: i8) = int x" if "x < 128" for x
    using sint_of_int8 [of "int x"] that by simp
  have lo: "drop_bit 0 b AND 15 = (of_nat (unat b mod 16) :: i8)" for b
    using unat_and_mask [of b 4] by (intro word_eqI_unat) (simp add: mask_eq_exp_minus_1 unat_of_nat)
  have b: "unat b div 16 < 16" for b :: i8 using unat_u8_lt [of b] by simp
  have hi: "drop_bit 4 b AND 15 = (of_nat (unat b div 16) :: i8)" for b
    using unat_and_mask [of "drop_bit 4 b" 4] b [of b] by (intro word_eqI_unat) (simp add: mask_eq_exp_minus_1 unat_of_nat unat_shr)
  show "sint (base_nibbles a ! (2 * i)) = int (unat (a ! i) mod 16)" "sint (base_nibbles a ! (2 * i + 1)) = int (unat (a ! i) div 16)"
    unfolding base_nibbles_def pair_nth(1,2) [OF assms] lo hi using b [of "a ! i"] by (intro n; simp)+
qed

lemma nibbles_val:
  assumes "length a = 32"
  shows "hex_val 64 (base_nibbles a) = int (le_nat a)"
proof -
  have "hex_val (2 * n) (base_nibbles a) = int (le_nat (take n a))" if "n \<le> 32" for n
    using that
  proof (induction n)
    case (Suc n)
    have "(16::int) ^ (2 * n) = 256 ^ n" by (simp add: power_mult)
    moreover have "int (unat (a ! n)) = int (unat (a ! n) mod 16) + 16 * int (unat (a ! n) div 16)"
      by (metis mod_mult_div_eq of_nat_add of_nat_mult of_nat_numeral)
    ultimately show ?case using Suc nibble_vals [of n a] le_nat_take_Suc [of n a] assms by (simp add: lval_Suc algebra_simps)
  qed (simp add: lval_def)
  from this [of 32] show ?thesis using assms by simp
qed

lemma nibble_range:
  assumes "k < 64"
  shows "0 \<le> sint (base_nibbles a ! k) \<and> sint (base_nibbles a ! k) < 16"
proof -
  have "unat (a ! (k div 2)) div 16 < 16" using unat_u8_lt [of "a ! (k div 2)"] by simp
  moreover have "k div 2 < 32" using assms by simp
  note nibble_vals [OF this, of a]
  moreover have "k = 2 * (k div 2) \<or> k = 2 * (k div 2) + 1" by presburger
  ultimately show ?thesis by (elim disjE) (simp_all only:, simp_all)
qed

text \<open>One step of the carry: the digit ends between -8 and 7.\<close>

lemma base_carry_step:
  assumes "0 \<le> sint (e ! i)" "sint (e ! i) < 16" "0 \<le> sint c" "sint c \<le> 1" "i < length e"
  obtains e' c' where "base_carry i (e, c) = (e[i := e'], c')" "sint e' + 16 * sint c' = sint (e ! i) + sint c"
    "- 8 \<le> sint e'" "sint e' < 8" "0 \<le> sint c'" "sint c' \<le> 1"
proof -
  define x where "x = e ! i + c"
  define c' where "c' = signed_drop_bit 4 (x + 8)"
  have x: "sint x = sint (e ! i) + sint c" using sint_of_int8 [of "sint (e ! i) + sint c"] assms by (simp add: x_def)
  have "x + 8 = of_int (sint x + 8)" by simp
  then have "sint (x + 8) = sint x + 8" using sint_of_int8 [of "sint x + 8"] assms(1-4) unfolding x by simp
  then have c': "sint c' = (sint x + 8) div 16" by (simp add: c'_def sint_signed_shr)
  have r: "0 \<le> sint c'" "sint c' \<le> 1" "- 8 \<le> sint x - 16 * sint c'" "sint x - 16 * sint c' < 8"
    unfolding c' using x assms by auto
  have "x - push_bit 4 c' = of_int (sint x - 16 * sint c')" by (simp add: push_bit_eq_mult mult.commute)
  then have d: "sint (x - push_bit 4 c') = sint x - 16 * sint c'" using sint_of_int8 [of "sint x - 16 * sint c'"] r by (simp only:)
  have "base_carry i (e, c) = (e[i := x - push_bit 4 c'], c')"
    using assms(5) by (simp add: base_carry_def Let_def x_def c'_def)
  then show ?thesis using that [of "x - push_bit 4 c'" c'] d r x by simp
qed

lemma base_carry_loop:
  assumes "n \<le> 63"
  shows "let s = fold base_carry [0..<n] (base_nibbles a, 0) in
    length (fst s) = 64 \<and> hex_val n (fst s) + sint (snd s) * 16 ^ n = hex_val n (base_nibbles a) \<and> 0 \<le> sint (snd s) \<and> sint (snd s) \<le> 1 \<and>
    (\<forall>k<n. - 8 \<le> sint (fst s ! k) \<and> sint (fst s ! k) < 8) \<and> (\<forall>k. n \<le> k \<longrightarrow> k < 64 \<longrightarrow> fst s ! k = base_nibbles a ! k)"
  using assms
proof (induction n)
  case 0
  show ?case by (simp add: lval_def)
next
  case (Suc n)
  obtain e c where ec: "fold base_carry [0..<n] (base_nibbles a, 0) = (e, c)" by fastforce
  have IH: "length e = 64" "hex_val n e + sint c * 16 ^ n = hex_val n (base_nibbles a)" "0 \<le> sint c" "sint c \<le> 1"
    "\<forall>k<n. - 8 \<le> sint (e ! k) \<and> sint (e ! k) < 8" "\<forall>k. n \<le> k \<longrightarrow> k < 64 \<longrightarrow> e ! k = base_nibbles a ! k"
    using Suc by (simp_all add: ec Let_def)
  have n: "e ! n = base_nibbles a ! n" "n < 64" using IH(6) Suc.prems by simp_all
  obtain e' c' where b: "base_carry n (e, c) = (e[n := e'], c')" "sint e' + 16 * sint c' = sint (e ! n) + sint c"
    "- 8 \<le> sint e'" "sint e' < 8" "0 \<le> sint c'" "sint c' \<le> 1"
    using base_carry_step [of e n c] nibble_range [of n a] IH(1,3,4) n by metis
  have "hex_val n (e[n := e']) = hex_val n e" unfolding lval_def by (rule sum.cong) simp_all
  moreover have "sint e' * 16 ^ n + sint c' * (16 * 16 ^ n) = sint (e ! n) * 16 ^ n + sint c * 16 ^ n"
    using arg_cong [OF b(2), of "\<lambda>x. x * 16 ^ n"] by (simp add: algebra_simps)
  ultimately have "hex_val (Suc n) (e[n := e']) + sint c' * 16 ^ Suc n = hex_val (Suc n) (base_nibbles a)"
    using IH(1,2) n by (simp add: lval_Suc algebra_simps)
  then show ?case using b IH n by (simp add: ec Let_def less_Suc_eq nth_list_update)
qed

lemma base_digits_val:
  assumes "length a = 32"
  shows "length (base_digits a) = 64" "hex_val 64 (base_digits a) = int (le_nat a)"
    and "k < 63 \<Longrightarrow> - 8 \<le> sint (base_digits a ! k) \<and> sint (base_digits a ! k) < 8"
    and "sint (base_digits a ! 63) = sint (base_nibbles a ! 63) \<or> sint (base_digits a ! 63) = sint (base_nibbles a ! 63) + 1"
proof -
  obtain e c where ec: "fold base_carry [0..<63] (base_nibbles a, 0) = (e, c)" by fastforce
  note l = base_carry_loop [of 63 a, unfolded ec Let_def fst_conv snd_conv, simplified]
  have d: "base_digits a = e[63 := e ! 63 + c]" by (simp add: base_digits_def ec Let_def)
  have e63: "e ! 63 = base_nibbles a ! 63" using l by simp
  then have v: "sint (e ! 63 + c) = sint (e ! 63) + sint c"
    using sint_of_int8 [of "sint (e ! 63) + sint c"] nibble_range [of 63 a] l by simp
  show "length (base_digits a) = 64" using l by (simp add: d)
  have "hex_val 64 s = hex_val 63 s + 16 ^ 63 * sint (s ! 63)" for s using lval_Suc [of "\<lambda>k. 16 ^ k" 63 s] by simp
  moreover have "hex_val 63 (e[63 := e ! 63 + c]) = hex_val 63 e" unfolding lval_def by (rule sum.cong) simp_all
  ultimately show "hex_val 64 (base_digits a) = int (le_nat a)"
    using l v e63 by (simp add: d distrib_left nibbles_val [OF assms, symmetric])
  show "- 8 \<le> sint (base_digits a ! k) \<and> sint (base_digits a ! k) < 8" if "k < 63" using l that by (simp add: d)
  show "sint (base_digits a ! 63) = sint (base_nibbles a ! 63) \<or> sint (base_digits a ! 63) = sint (base_nibbles a ! 63) + 1"
    using l v e63 by (auto simp: d)
qed

lemma ucast_i8:
  fixes w :: i32
  assumes "- 128 \<le> sint w" "sint w < 128"
  shows "sint (ucast w :: i8) = sint w"
proof -
  have "(ucast (of_int x :: i32) :: i8) = of_int x" for x by (rule bit_word_eqI) (simp add: bit_simps)
  from this [of "sint w"] have e: "(ucast w :: i8) = of_int (sint w)" by simp
  show ?thesis unfolding e using assms by (rule sint_of_int8)
qed

text \<open>Taking one digit off the accumulated carry.\<close>

lemma digit_off:
  fixes x :: i32
  assumes "0 \<le> sint x" "sint x \<le> 256"
  defines "q \<equiv> signed_drop_bit 4 (x + 8)"
  shows "sint q = (sint x + 8) div 16" "sint (ucast (x - push_bit 4 q) :: i8) = sint x - 16 * sint q"
    "- 8 \<le> sint (ucast (x - push_bit 4 q) :: i8)" "sint (ucast (x - push_bit 4 q) :: i8) < 8"
proof -
  have "x + 8 = of_int (sint x + 8)" by simp
  then have "sint (x + 8) = sint x + 8" using sint_of_int32 [of "sint x + 8"] assms by (simp only:) simp
  then show q: "sint q = (sint x + 8) div 16" by (simp add: q_def sint_signed_shr)
  have r: "- 8 \<le> sint x - 16 * sint q" "sint x - 16 * sint q < 8" unfolding q using assms by auto
  have "x - push_bit 4 q = of_int (sint x - 16 * sint q)" by (simp add: push_bit_eq_mult mult.commute)
  then have "sint (x - push_bit 4 q) = sint x - 16 * sint q" using sint_of_int32 [of "sint x - 16 * sint q"] r by (simp only:) simp
  then show d: "sint (ucast (x - push_bit 4 q) :: i8) = sint x - 16 * sint q" using ucast_i8 [of "x - push_bit 4 q"] r by simp
  show "- 8 \<le> sint (ucast (x - push_bit 4 q) :: i8)" "sint (ucast (x - push_bit 4 q) :: i8) < 8" unfolding d using r by simp_all
qed

lemma carry_byte:
  fixes c :: i32 and b :: u8
  assumes "0 \<le> sint c" "sint c \<le> 1"
  shows "sint (c + ucast b) = sint c + int (unat b)" "0 \<le> sint (c + ucast b)" "sint (c + ucast b) \<le> 256"
proof -
  have b: "unat b < 256" by (rule unat_u8_lt)
  have e: "c + ucast b = of_int (sint c + int (unat b))" by simp
  have "int32 (sint c + int (unat b))" using assms b by (intro conjI; linarith)
  then show v: "sint (c + ucast b) = sint c + int (unat b)" unfolding e by (rule sint_of_int32)
  show "0 \<le> sint (c + ucast b)" "sint (c + ucast b) \<le> 256" unfolding v using assms b by linarith+
qed

lemma scalar_digits_loop_val:
  assumes "n \<le> length a"
  shows "let s = scalar_digits_loop a n in
    length (fst s) = 2 * n \<and> hex_val (2 * n) (fst s) + sint (snd s) * 256 ^ n = int (le_nat (take n a)) \<and>
    0 \<le> sint (snd s) \<and> sint (snd s) \<le> 1 \<and> (\<forall>k<2 * n. - 8 \<le> sint (fst s ! k) \<and> sint (fst s ! k) < 8)"
  using assms
proof (induction n)
  case 0
  show ?case by (simp add: lval_def)
next
  case (Suc n)
  obtain e c where ec: "scalar_digits_loop a n = (e, c)" by fastforce
  have IH: "length e = 2 * n" "hex_val (2 * n) e + sint c * 256 ^ n = int (le_nat (take n a))" "0 \<le> sint c" "sint c \<le> 1"
    "\<forall>k<2 * n. - 8 \<le> sint (e ! k) \<and> sint (e ! k) < 8" using Suc by (simp_all add: ec Let_def)
  define x where "x = c + ucast (a ! n)"
  note x = carry_byte [OF IH(3,4), of "a ! n", folded x_def]
  define q where "q = signed_drop_bit 4 (x + 8)"
  note q = digit_off [OF x(2,3), folded q_def]
  have q': "0 \<le> sint q" "sint q \<le> 256" using q(1) x by auto
  define c' where "c' = signed_drop_bit 4 (q + 8)"
  note c' = digit_off [OF q', folded c'_def]
  define e0 e1 where "e0 = (ucast (x - push_bit 4 q) :: i8)" and "e1 = (ucast (q - push_bit 4 c') :: i8)"
  have s: "scalar_digits_loop a (Suc n) = (e @ [e0, e1], c')"
    by (simp add: ec Let_def x_def q_def c'_def e0_def e1_def)
  have "sint q \<le> 16" using q(1) x(3) by auto
  then have r: "0 \<le> sint c'" "sint c' \<le> 1" using c'(1) q'(1) by auto
  have m: "sint e0 + 16 * sint e1 + 256 * sint c' = sint c + int (unat (a ! n))"
    using q(2) c'(2) x(1) by (simp add: e0_def e1_def)
  have m: "256 ^ n * sint e0 + 16 * 256 ^ n * sint e1 + 256 * 256 ^ n * sint c' = 256 ^ n * sint c + 256 ^ n * int (unat (a ! n))"
    using arg_cong [OF m, of "\<lambda>x. 256 ^ n * x"] by (simp only: distrib_left distrib_right ac_simps)
  have p: "(16::int) ^ (2 * n) = 256 ^ n" by (simp add: power_mult)
  have "hex_val (2 * Suc n) (e @ [e0, e1]) = hex_val (2 * n) (e @ [e0, e1]) + 256 ^ n * sint e0 + 16 * 256 ^ n * sint e1"
    using IH(1) by (simp add: lval_Suc nth_append p)
  moreover have "hex_val (2 * n) (e @ [e0, e1]) = hex_val (2 * n) e"
    unfolding lval_def by (rule sum.cong) (simp_all add: IH(1) nth_append)
  ultimately have "hex_val (2 * Suc n) (e @ [e0, e1]) + sint c' * 256 ^ Suc n = int (le_nat (take (Suc n) a))"
    using IH(2) m le_nat_take_Suc [of n a] Suc.prems by (simp add: ac_simps)
  moreover have "- 8 \<le> sint ((e @ [e0, e1]) ! k) \<and> sint ((e @ [e0, e1]) ! k) < 8" if "k < 2 * Suc n" for k
  proof -
    have "k < 2 * n \<or> k = 2 * n \<or> k = Suc (2 * n)" using that by auto
    then show ?thesis using IH(1,5) q(3,4) c'(3,4) by (auto simp: nth_append e0_def e1_def)
  qed
  ultimately show ?case using s IH(1) r by (simp add: Let_def del: scalar_digits_loop.simps)
qed

lemma top_byte:
  assumes "length a = 32" "le_nat a < 2 ^ 255"
  shows "unat (a ! 31) < 128"
proof (rule ccontr)
  assume "\<not> unat (a ! 31) < 128"
  then have "256 ^ 31 * 128 \<le> 256 ^ 31 * unat (a ! 31)" by simp
  also have "\<dots> \<le> le_nat a" using le_nat_take_Suc [of 31 a] assms(1) by simp
  finally show False using assms(2) by simp
qed

lemma scalar_digits_val:
  assumes "length a = 32"
  shows "length (scalar_digits a) = 64" "hex_val 64 (scalar_digits a) = int (le_nat a)"
    and "k < 63 \<Longrightarrow> - 8 \<le> sint (scalar_digits a ! k) \<and> sint (scalar_digits a ! k) < 8"
    and "0 \<le> sint (scalar_digits a ! 63)" "le_nat a < 2 ^ 255 \<Longrightarrow> sint (scalar_digits a ! 63) \<le> 8"
proof -
  obtain e c where ec: "scalar_digits_loop a 31 = (e, c)" by fastforce
  note l = scalar_digits_loop_val [of 31 a, unfolded ec Let_def fst_conv snd_conv, simplified, unfolded assms, simplified]
  define x where "x = c + ucast (a ! 31)"
  have c: "0 \<le> sint c" "sint c \<le> 1" using l by simp_all
  note x = carry_byte [OF c, of "a ! 31", folded x_def]
  define q where "q = signed_drop_bit 4 (x + 8)"
  note q = digit_off [OF x(2,3), folded q_def]
  have q': "0 \<le> sint q" "sint q \<le> 16" using q(1) x by auto
  define e0 e1 where "e0 = (ucast (x - push_bit 4 q) :: i8)" and "e1 = (ucast q :: i8)"
  have e1: "sint e1 = sint q" unfolding e1_def by (rule ucast_i8) (use q' in simp_all)
  have s: "scalar_digits a = e @ [e0, e1]" by (simp add: scalar_digits_def ec Let_def x_def q_def e0_def e1_def)
  have len: "length e = 62" using l by simp
  show "length (scalar_digits a) = 64" by (simp add: s len)
  have "hex_val 64 t = hex_val 62 t + 16 ^ 62 * sint (t ! 62) + 16 ^ 63 * sint (t ! 63)" for t
    using lval_Suc [of "\<lambda>k. 16 ^ k" 63 t] lval_Suc [of "\<lambda>k. 16 ^ k" 62 t] by simp
  moreover have "hex_val 62 (e @ [e0, e1]) = hex_val 62 e" unfolding lval_def by (rule sum.cong) (simp_all add: len nth_append)
  moreover have "sint e0 + 16 * sint e1 = sint c + int (unat (a ! 31))" using q(2) x(1) e1 by (simp add: e0_def)
  moreover have "int (le_nat a) = int (le_nat (take 31 a)) + 256 ^ 31 * int (unat (a ! 31))"
    using le_nat_take_Suc [of 31 a] assms by simp
  ultimately show "hex_val 64 (scalar_digits a) = int (le_nat a)"
    unfolding s using l len by (simp add: nth_append)
  have n: "scalar_digits a ! 62 = e0" "scalar_digits a ! 63 = e1" by (simp_all add: s nth_append len)
  show "- 8 \<le> sint (scalar_digits a ! k) \<and> sint (scalar_digits a ! k) < 8" if "k < 63"
  proof (cases "k = 62")
    case True
    then show ?thesis using n(1) q(3,4) by (simp add: e0_def)
  next
    case False
    then show ?thesis using that l by (simp add: s len nth_append)
  qed
  show "0 \<le> sint (scalar_digits a ! 63)" using q' by (simp add: n e1)
  show "sint (scalar_digits a ! 63) \<le> 8" if "le_nat a < 2 ^ 255"
  proof -
    have "sint x \<le> 128" using top_byte [OF assms that] x(1) c by linarith
    then show ?thesis using q(1) by (auto simp: n e1)
  qed
qed

section \<open>Constant-time lookups\<close>

lemma equal_value: "equal b c = (if b = c then 1 else 0)"
proof (cases "b = c")
  case True
  then show ?thesis by (simp add: equal_def)
next
  case False
  define x where "x = b XOR c"
  have "b = x XOR c" by (simp add: x_def xor.assoc)
  then have x: "x \<noteq> 0" using False by auto
  then have "unat x \<noteq> 0" by (simp add: unat_eq_0)
  then have "unat (ucast x - 1 :: u32) < 2 ^ 31" using unat_u8_lt [of x] by (simp add: unat_sub_if' unat_ucast_wrap)
  then have "drop_bit 31 (ucast x - 1 :: u32) = 0" by (intro word_eqI_unat) (simp add: unat_shr)
  then show ?thesis using False by (simp add: equal_def x_def [symmetric])
qed

lemma unat_scast_i8: "unat (scast b :: u64) = nat (sint b mod 2 ^ 64)" for b :: i8
proof -
  have "(scast b :: u64) = of_int (sint b)" by simp
  then show ?thesis by (simp only: unat_eq_nat_uint uint_word_of_int) simp
qed

lemma i8_range: "- 128 \<le> sint (b :: i8)" "sint (b :: i8) < 128"
  using sint_greater_eq [of b] sint_less [of b] by simp_all

lemma negative_value: "negative b = (if sint b < 0 then 1 else 0)"
proof -
  have "unat (scast b :: u64) div 2 ^ 63 = (if sint b < 0 then 1 else 0)"
  proof (cases "sint b < 0")
    case True
    then have "(sint b + 2 ^ 64) mod 2 ^ 64 = sint b + 2 ^ 64" using i8_range [of b] by (intro mod_pos_pos_trivial) simp_all
    then have "sint b mod 2 ^ 64 = sint b + 2 ^ 64" by (simp only: mod_add_self2)
    then show ?thesis using True i8_range [of b] by (simp add: unat_scast_i8)
  next
    case False
    then have "sint b mod 2 ^ 64 = sint b" using i8_range [of b] by (intro mod_pos_pos_trivial) simp_all
    then show ?thesis using False i8_range [of b] by (simp add: unat_scast_i8)
  qed
  then have "drop_bit 63 (scast b :: u64) = (if sint b < 0 then 1 else 0)"
    by (intro word_eqI_unat) (simp add: unat_shr)
  then show ?thesis by (simp add: negative_def Let_def)
qed

lemma ucast_of_int_8: "(ucast (of_int x :: i32) :: i8) = of_int x"
  by (rule bit_word_eqI) (simp add: bit_simps)

lemma babs_value: "babs b = (if sint b < 0 then - b else b)"
proof -
  have e: "scast b = (of_int (sint b) :: i32)" by simp
  show ?thesis
  proof (cases "sint b < 0")
    case True
    have "babs b = ucast (of_int (- sint b) :: i32)"
      using True unfolding babs_def negative_value Let_def by (simp add: push_bit_eq_mult)
    then show ?thesis using True unfolding ucast_of_int_8 by simp
  next
    case False
    then have "babs b = ucast (of_int (sint b) :: i32)"
      unfolding babs_def negative_value Let_def by simp
    then show ?thesis using False unfolding ucast_of_int_8 by simp
  qed
qed

text \<open>What the lookups need of a conditional move; \<open>ok\<close> is the well-formedness of the entries.\<close>

locale conditional_move =
  fixes cmov :: "'t \<Rightarrow> 't \<Rightarrow> u8 \<Rightarrow> 't option" and ok :: "'t \<Rightarrow> bool"
  assumes cmov_keep: "ok t \<Longrightarrow> ok u \<Longrightarrow> cmov t u 0 = Some t"
    and cmov_take: "ok t \<Longrightarrow> ok u \<Longrightarrow> cmov t u 1 = Some u"
begin

lemma cmov_if: "ok t \<Longrightarrow> ok u \<Longrightarrow> cmov t u (if P then 1 else 0) = Some (if P then u else t)"
  by (simp add: cmov_keep cmov_take)

lemma cmov_all_miss:
  assumes "\<And>j. j \<in> set js \<Longrightarrow> ok (tab ! j) \<and> d \<noteq> of_nat (Suc j)" "ok t"
  shows "cmov_all cmov tab d js t = Some t"
  using assms by (induction js) (simp_all add: equal_value cmov_keep)

lemma cmov_all_hit:
  assumes "\<And>i. i \<in> set js \<Longrightarrow> ok (tab ! i) \<and> i < 255" "ok t" "distinct js" "j \<in> set js"
  shows "cmov_all cmov tab (of_nat (Suc j)) js t = Some (tab ! j)"
  using assms
proof (induction js arbitrary: t)
  case (Cons i js)
  have inj: "of_nat (Suc a) = (of_nat (Suc b) :: u8) \<longleftrightarrow> a = b" if "a < 255" "b < 255" for a b
    using that by (simp add: word_unat_eq_iff unat_of_nat del: of_nat_Suc)
  show ?case
  proof (cases "i = j")
    case True
    have "cmov_all cmov tab (of_nat (Suc j)) js (tab ! j) = Some (tab ! j)"
      using Cons.prems True inj by (intro cmov_all_miss) (auto simp del: of_nat_Suc)
    then show ?thesis using Cons.prems True by (simp add: equal_value cmov_take del: of_nat_Suc)
  next
    case False
    then show ?thesis using Cons.prems Cons.IH [of t] inj [of j i]
      by (auto simp: equal_value cmov_keep simp del: of_nat_Suc)
  qed
qed simp

text \<open>The eight moves of the code pick entry \<open>|b| - 1\<close>, or leave the start value when the digit is 0.\<close>

lemma lookup:
  assumes tab: "length tab = 8" "list_all ok tab" and t: "ok t" and b: "\<bar>sint b\<bar> \<le> 8"
  shows "cmov_all cmov tab (babs b) [0, 1, 2, 3, 4, 5, 6, 7] t = Some (if sint b = 0 then t else tab ! nat (\<bar>sint b\<bar> - 1))"
proof -
  have ok: "ok (tab ! j)" if "j < 8" for j using tab that by (simp add: list_all_length)
  have js: "set [0, 1, 2, 3, 4, 5, 6, 7 :: nat] = {..<8}" by (auto simp: numeral_eq_Suc less_Suc_eq)
  have abs: "babs b = of_int \<bar>sint b\<bar>" unfolding babs_value by (simp add: abs_if)
  show ?thesis
  proof (cases "sint b = 0")
    case True
    have "cmov_all cmov tab 0 [0, 1, 2, 3, 4, 5, 6, 7] t = Some t"
    proof (rule cmov_all_miss)
      fix j assume "j \<in> set [0, 1, 2, 3, 4, 5, 6, 7 :: nat]"
      then have j: "j < 8" unfolding js by simp
      then have "unat (of_nat (Suc j) :: u8) \<noteq> 0" by (simp add: unat_of_nat del: of_nat_Suc)
      then show "ok (tab ! j) \<and> 0 \<noteq> (of_nat (Suc j) :: u8)" using ok [OF j] by auto
    qed (rule t)
    then show ?thesis using True abs by simp
  next
    case False
    define j where "j = nat (\<bar>sint b\<bar> - 1)"
    have j: "j < 8" "babs b = of_nat (Suc j)" unfolding abs using False b by (auto simp: j_def)
    have "cmov_all cmov tab (of_nat (Suc j)) [0, 1, 2, 3, 4, 5, 6, 7] t = Some (tab ! j)"
    proof (rule cmov_all_hit)
      show "ok (tab ! i) \<and> i < 255" if "i \<in> set [0, 1, 2, 3, 4, 5, 6, 7 :: nat]" for i
        using that ok [of i] unfolding js by simp
      show "j \<in> set [0, 1, 2, 3, 4, 5, 6, 7 :: nat]" unfolding js using j(1) by simp
    qed (simp_all add: t)
    then show ?thesis using False j(2) by (simp add: j_def)
  qed
qed

end

lemma fe_len: "fe_bounded 1 f \<Longrightarrow> length f = 10" "fe_bounded 2 f \<Longrightarrow> length f = 10"
  by (rule fe_boundedD(1), assumption)+

interpretation pc: conditional_move ge_precomp_cmov precomp_ok
proof
  fix t u assume "precomp_ok t" "precomp_ok u"
  then show "ge_precomp_cmov t u 0 = Some t" "ge_precomp_cmov t u 1 = Some u"
    by (cases t; cases u; simp add: ge_precomp_cmov_def precomp_ok_def fe_cmov_value fe_len)+
qed

interpretation cc: conditional_move ge_cached_cmov cached_ok
proof
  fix t u assume "cached_ok t" "cached_ok u"
  then show "ge_cached_cmov t u 0 = Some t" "ge_cached_cmov t u 1 = Some u"
    by (cases t; cases u; simp add: ge_cached_cmov_def cached_ok_def fe_cmov_value fe_len)+
qed

context conditional_move
begin

lemma cmov_all_total:
  assumes "\<And>j. j \<in> set js \<Longrightarrow> ok (tab ! j)" "ok t"
  shows "\<exists>u. cmov_all cmov tab d js t = Some u \<and> ok u"
  using assms
proof (induction js arbitrary: t)
  case (Cons j js)
  define u where "u = (if d = of_nat (Suc j) then tab ! j else t)"
  have "cmov t (tab ! j) (equal d (of_nat (Suc j))) = Some u"
    unfolding equal_value u_def using Cons.prems by (intro cmov_if) simp_all
  moreover have "ok u" using Cons.prems by (simp add: u_def)
  ultimately show ?case using Cons.IH [of u] Cons.prems(1) by simp
qed simp

lemma cmov_eight_total:
  assumes "length tab = 8" "list_all ok tab" "ok t"
  shows "\<exists>u. cmov_all cmov tab d [0, 1, 2, 3, 4, 5, 6, 7] t = Some u \<and> ok u"
  using assms by (intro cmov_all_total) (auto simp: list_all_length)

end

definition precomp_neg :: "ge_precomp \<Rightarrow> ge_precomp" where
  "precomp_neg t = \<lparr>yplusx = yminusx t, yminusx = yplusx t, xy2d = fe_neg (xy2d t)\<rparr>"

definition cached_neg :: "ge_cached \<Rightarrow> ge_cached" where
  "cached_neg t = \<lparr>YplusX = YminusX t, YminusX = YplusX t, cached_Z = cached_Z t, T2d = fe_neg (T2d t)\<rparr>"

lemma neg_ok: "precomp_ok t \<Longrightarrow> precomp_ok (precomp_neg t)" "cached_ok c \<Longrightarrow> cached_ok (cached_neg c)"
  by (simp_all add: ok_defs precomp_neg_def cached_neg_def fe_neg_sound)

lemma fe_neg_1: "fe_bounded 1 f \<Longrightarrow> fe_bounded 1 (fe_neg f)" "fe_bounded 1 f \<Longrightarrow> fe_val (fe_neg f) = - fe_val f"
  using fe_neg_sound [of 1 f] by simp_all

lemma neg_rep: "precomp_rep t x y \<Longrightarrow> precomp_rep (precomp_neg t) (- x) y" "cached_rep c x y z \<Longrightarrow> cached_rep (cached_neg c) (- x) y z"
  by (simp_all add: rep_defs precomp_neg_def cached_neg_def fe_neg_1)

lemma select_bind:
  "select pos b = Option.bind (cmov_all ge_precomp_cmov (ge_base ! pos) (babs b) [0, 1, 2, 3, 4, 5, 6, 7] ge_precomp_0)
     (\<lambda>t. ge_precomp_cmov t (precomp_neg t) (if sint b < 0 then 1 else 0))"
  by (simp add: select_def Let_def fe_copy_def precomp_neg_def negative_value)

lemma base_row: "pos < 32 \<Longrightarrow> length (ge_base ! pos) = 8" "pos < 32 \<Longrightarrow> list_all precomp_ok (ge_base ! pos)"
  using ge_base_ok by (auto simp: list_all_length [of _ ge_base])

lemma select_total:
  assumes "pos < 32"
  shows "\<exists>q. select pos b = Some q \<and> precomp_ok q"
proof -
  obtain t where t: "cmov_all ge_precomp_cmov (ge_base ! pos) (babs b) [0, 1, 2, 3, 4, 5, 6, 7] ge_precomp_0 = Some t" "precomp_ok t"
    using pc.cmov_eight_total [OF base_row [OF assms] identity_ok(4)] by blast
  show ?thesis unfolding select_bind t(1) using t(2) neg_ok(1) [OF t(2)] by (simp add: pc.cmov_keep pc.cmov_take)
qed

text \<open>A digit between -8 and 8 selects that multiple of the row's first entry.\<close>

lemma select_value:
  assumes "pos < 32" "\<bar>sint b\<bar> \<le> 8"
  shows "select pos b = Some (if sint b = 0 then ge_precomp_0 else if sint b < 0 then precomp_neg (ge_base ! pos ! nat (- sint b - 1))
    else ge_base ! pos ! nat (sint b - 1))"
proof -
  define t where "t = (if sint b = 0 then ge_precomp_0 else ge_base ! pos ! nat (\<bar>sint b\<bar> - 1))"
  have "precomp_ok t"
    using base_row [OF assms(1)] assms(2) identity_ok(4) by (auto simp: t_def list_all_length)
  note t = this neg_ok(1) [OF this]
  have "cmov_all ge_precomp_cmov (ge_base ! pos) (babs b) [0, 1, 2, 3, 4, 5, 6, 7] ge_precomp_0 = Some t"
    unfolding t_def by (rule pc.lookup [OF base_row [OF assms(1)] identity_ok(4) assms(2)])
  then have "select pos b = Some (if sint b < 0 then precomp_neg t else t)"
    unfolding select_bind using t by (simp add: pc.cmov_keep pc.cmov_take)
  then show ?thesis by (simp add: t_def)
qed

lemma base_adds_total:
  assumes "p3_ok h" "\<forall>i\<in>set is. i < 64"
  shows "\<exists>g. base_adds e is h = Some g \<and> p3_ok g"
  using assms
proof (induction "is" arbitrary: h)
  case (Cons i "is")
  have "i div 2 < 32" using Cons.prems by (simp add: less_mult_imp_div_less)
  then obtain t where t: "select (i div 2) (e ! i) = Some t" "precomp_ok t" using select_total by blast
  have "p3_ok (ge_p1p1_to_p3 (ge_madd h t))" using Cons.prems t by (simp add: point_ok)
  from Cons.IH [OF this] show ?case using Cons.prems t(1) by simp
qed simp

lemma ge_scalarmult_base_total: "\<exists>h. ge_scalarmult_base a = Some h \<and> p3_ok h"
proof -
  obtain h where h: "base_adds (base_digits a) (map (\<lambda>i. 2 * i + 1) [0..<32]) ge_p3_0 = Some h" "p3_ok h"
    using base_adds_total [OF identity_ok(1), of "map (\<lambda>i. 2 * i + 1) [0..<32]" "base_digits a"] by auto
  define r where "r = ge_p1p1_to_p3 (ge_p2_dbl (ge_p1p1_to_p2 (ge_p2_dbl (ge_p1p1_to_p2 (ge_p2_dbl (ge_p1p1_to_p2 (ge_p3_dbl h)))))))"
  have "p3_ok r" using h(2) by (simp add: r_def point_ok)
  then have "\<exists>g. base_adds (base_digits a) (map (\<lambda>i. 2 * i) [0..<32]) r = Some g \<and> p3_ok g"
    by (rule base_adds_total) auto
  then show ?thesis unfolding ge_scalarmult_base_def Let_def h(1) by (simp add: r_def)
qed

lemma scalar_table_ok:
  assumes "p3_ok A"
  shows "length (scalar_table A n) = Suc n" "list_all cached_ok (scalar_table A n)"
proof -
  have "length (scalar_table A n) = Suc n \<and> list_all cached_ok (scalar_table A n)"
  proof (induction n)
    case 0
    show ?case using assms by (simp add: point_ok)
  next
    case (Suc n)
    then have "cached_ok (scalar_table A n ! n)" by (simp add: list_all_length)
    then show ?case using Suc assms by (simp add: Let_def point_ok)
  qed
  then show "length (scalar_table A n) = Suc n" "list_all cached_ok (scalar_table A n)" by simp_all
qed

lemma scalar_step_bind:
  "scalar_step Ai b r = Option.bind (cmov_all ge_cached_cmov Ai (babs b) [0, 1, 2, 3, 4, 5, 6, 7] ge_cached_0)
     (\<lambda>c. Option.bind (ge_cached_cmov c (cached_neg c) (if sint b < 0 then 1 else 0)) (\<lambda>c. Some (ge_add
       (ge_p1p1_to_p3 (ge_p2_dbl (ge_p1p1_to_p2 (ge_p2_dbl (ge_p1p1_to_p2 (ge_p2_dbl (ge_p1p1_to_p2 (ge_p2_dbl r)))))))) c)))"
  by (simp add: scalar_step_def Let_def fe_copy_def cached_neg_def negative_value)

lemma scalar_step_total:
  assumes "length Ai = 8" "list_all cached_ok Ai" "p2_ok r"
  shows "\<exists>t. scalar_step Ai b r = Some t \<and> p1_ok t"
proof -
  obtain c where c: "cmov_all ge_cached_cmov Ai (babs b) [0, 1, 2, 3, 4, 5, 6, 7] ge_cached_0 = Some c" "cached_ok c"
    using cc.cmov_eight_total [OF assms(1,2) identity_ok(3)] by blast
  show ?thesis unfolding scalar_step_bind c(1) using c(2) neg_ok(2) [OF c(2)] assms(3) by (simp add: cc.cmov_keep cc.cmov_take point_ok)
qed

lemma scalar_loop_total:
  assumes "length Ai = 8" "list_all cached_ok Ai" "p2_ok r"
  shows "\<exists>q. scalar_loop Ai e n r = Some q \<and> p2_ok q"
  using assms(3)
proof (induction n arbitrary: r)
  case (Suc n)
  obtain t where t: "scalar_step Ai (e ! n) r = Some t" "p1_ok t" using scalar_step_total [OF assms(1,2) Suc.prems] by blast
  then show ?case using Suc.IH [of "ge_p1p1_to_p2 t"] by (simp add: point_ok)
qed simp

lemma scalar_loop_p3_total:
  assumes "length Ai = 8" "list_all cached_ok Ai" "p2_ok r" "0 < n"
  shows "\<exists>q. scalar_loop_p3 Ai e n r r3 = Some q \<and> p3_ok q"
  using assms(3,4)
proof (induction n arbitrary: r)
  case (Suc n)
  obtain t where t: "scalar_step Ai (e ! n) r = Some t" "p1_ok t" using scalar_step_total [OF assms(1,2) Suc.prems(1)] by blast
  then show ?case using Suc.IH [of "ge_p1p1_to_p2 t"] by (cases "n = 0") (simp_all add: point_ok)
qed simp

lemma dsm_table_ok: "p3_ok s \<Longrightarrow> length (ge_dsm_precomp s) = 8 \<and> list_all cached_ok (ge_dsm_precomp s)"
  by (simp add: ge_dsm_precomp_def dsm_next_def Let_def point_ok)

definition window_digit :: "i8 \<Rightarrow> bool" where
  "window_digit d \<longleftrightarrow> d = 0 \<or> odd (sint d) \<and> \<bar>sint d\<bar> \<le> 15"

lemma slide_digit: "length a = 32 \<Longrightarrow> le_nat a < 2 ^ 255 \<Longrightarrow> i < 256 \<Longrightarrow> window_digit (slide a ! i)"
  using slide_outer_final [of a] by (auto simp: slide_outer_def window_digit_def)

lemma dsm_digit_ok:
  assumes "window_digit d" "length Ai = 8" "list_all cached_ok Ai" "p1_ok t"
  shows "p1_ok (dsm_digit Ai d t)"
proof -
  have "\<bar>sint d\<bar> \<le> 15" using assms(1) by (auto simp: window_digit_def)
  then have "nat (sint d div 2) < 8" "nat (- sint d div 2) < 8" by auto
  then show ?thesis using assms(2-4) by (simp add: dsm_digit_def Let_def list_all_length point_ok)
qed

lemma dsm_digit_base_ok:
  assumes "window_digit d" "p1_ok t"
  shows "p1_ok (dsm_digit_base d t)"
proof -
  have "\<bar>sint d\<bar> \<le> 15" using assms(1) by (auto simp: window_digit_def)
  then have "nat (sint d div 2) < 8" "nat (- sint d div 2) < 8" by auto
  then show ?thesis using assms(2) ge_Bi_ok by (simp add: dsm_digit_base_def Let_def list_all_length point_ok)
qed

lemma dsm_loop_ok:
  assumes "\<And>i t. i < n \<Longrightarrow> p1_ok t \<Longrightarrow> p1_ok (f i t)" "p2_ok r"
  shows "p2_ok (dsm_loop f n r)"
  using assms by (induction n arbitrary: r) (simp_all add: Let_def point_ok)

lemma top_digit_le: "top_digit nz n \<le> n"
  by (induction n) simp_all

end
