(* ===== verification/Curve_Group.thy ===== *)
theory Curve_Group
  imports Scalar_Mult
begin

text \<open>
  What the multiplications compute, stated for any reading of the curve's addition formulas in an abelian group.
  \<open>pt X Y Z g\<close> says that the projective point \<open>(X : Y : Z)\<close> stands for the group element \<open>g\<close>; \<open>curve_group pt\<close>
  says that the neutral point, negation, the unified addition formulas and the doubling formulas of the curve
  stand for the operations of the group. The curve's own group law is such a reading; nothing else of it is used.
\<close>

section \<open>Readings of the addition formulas\<close>

definition curve_group :: "(fp \<Rightarrow> fp \<Rightarrow> fp \<Rightarrow> 'g::ab_group_add \<Rightarrow> bool) \<Rightarrow> bool" where
  "curve_group pt \<longleftrightarrow> pt 0 1 1 0 \<and> (\<forall>X Y Z g. pt X Y Z g \<longrightarrow> pt (- X) Y Z (- g)) \<and>
     (\<forall>X1 Y1 Z1 T1 X2 Y2 Z2 T2 g h. pt X1 Y1 Z1 g \<longrightarrow> pt X2 Y2 Z2 h \<longrightarrow> T1 * Z1 = X1 * Y1 \<longrightarrow> T2 * Z2 = X2 * Y2 \<longrightarrow>
        (let E = 2 * (X1 * Y2 + Y1 * X2); H = 2 * (Y1 * Y2 + X1 * X2);
             G = 2 * (Z1 * Z2) + 2 * fe_val fe_d * (T1 * T2); F = 2 * (Z1 * Z2) - 2 * fe_val fe_d * (T1 * T2)
         in pt (E * F) (H * G) (G * F) (g + h))) \<and>
     (\<forall>X Y Z g. pt X Y Z g \<longrightarrow>
        (let E = 2 * (X * Y); H = Y * Y + X * X; G = Y * Y - X * X; F = 2 * (Z * Z) - (Y * Y - X * X)
         in pt (E * F) (H * G) (G * F) (g + g)))"

lemma curve_group_rules:
  assumes "curve_group pt"
  shows "pt 0 1 1 0" "pt X Y Z g \<Longrightarrow> pt (- X) Y Z (- g)"
    and "pt X1 Y1 Z1 g \<Longrightarrow> pt X2 Y2 Z2 h \<Longrightarrow> T1 * Z1 = X1 * Y1 \<Longrightarrow> T2 * Z2 = X2 * Y2 \<Longrightarrow>
      E = 2 * (X1 * Y2 + Y1 * X2) \<Longrightarrow> H = 2 * (Y1 * Y2 + X1 * X2) \<Longrightarrow> G = 2 * (Z1 * Z2) + 2 * fe_val fe_d * (T1 * T2) \<Longrightarrow>
      F = 2 * (Z1 * Z2) - 2 * fe_val fe_d * (T1 * T2) \<Longrightarrow> pt (E * F) (H * G) (G * F) (g + h)"
    and "pt X Y Z g \<Longrightarrow> E = 2 * (X * Y) \<Longrightarrow> H = Y * Y + X * X \<Longrightarrow> G = Y * Y - X * X \<Longrightarrow> F = 2 * (Z * Z) - (Y * Y - X * X) \<Longrightarrow>
      pt (E * F) (H * G) (G * F) (g + g)"
  using assms unfolding curve_group_def Let_def by blast+

definition p3_pt :: "(fp \<Rightarrow> fp \<Rightarrow> fp \<Rightarrow> 'g \<Rightarrow> bool) \<Rightarrow> ge_p3 \<Rightarrow> 'g \<Rightarrow> bool" where
  "p3_pt pt p g \<longleftrightarrow> p3_ok p \<and> pt (fe_val (p3_X p)) (fe_val (p3_Y p)) (fe_val (p3_Z p)) g \<and>
     fe_val (p3_T p) * fe_val (p3_Z p) = fe_val (p3_X p) * fe_val (p3_Y p)"

definition p2_pt :: "(fp \<Rightarrow> fp \<Rightarrow> fp \<Rightarrow> 'g \<Rightarrow> bool) \<Rightarrow> ge_p2 \<Rightarrow> 'g \<Rightarrow> bool" where
  "p2_pt pt p g \<longleftrightarrow> p2_ok p \<and> pt (fe_val (p2_X p)) (fe_val (p2_Y p)) (fe_val (p2_Z p)) g"

definition p1_pt :: "(fp \<Rightarrow> fp \<Rightarrow> fp \<Rightarrow> 'g \<Rightarrow> bool) \<Rightarrow> ge_p1p1 \<Rightarrow> 'g \<Rightarrow> bool" where
  "p1_pt pt t g \<longleftrightarrow> p1_ok t \<and>
     pt (fe_val (p1_X t) * fe_val (p1_T t)) (fe_val (p1_Y t) * fe_val (p1_Z t)) (fe_val (p1_Z t) * fe_val (p1_T t)) g"

definition cached_pt :: "(fp \<Rightarrow> fp \<Rightarrow> fp \<Rightarrow> 'g \<Rightarrow> bool) \<Rightarrow> ge_cached \<Rightarrow> 'g \<Rightarrow> bool" where
  "cached_pt pt c g \<longleftrightarrow> cached_ok c \<and> (\<exists>X Y Z T. pt X Y Z g \<and> T * Z = X * Y \<and> fe_val (YplusX c) = Y + X \<and>
     fe_val (YminusX c) = Y - X \<and> fe_val (cached_Z c) = Z \<and> fe_val (T2d c) = 2 * fe_val fe_d * T)"

definition precomp_pt :: "(fp \<Rightarrow> fp \<Rightarrow> fp \<Rightarrow> 'g \<Rightarrow> bool) \<Rightarrow> ge_precomp \<Rightarrow> 'g \<Rightarrow> bool" where
  "precomp_pt pt c g \<longleftrightarrow> precomp_ok c \<and> (\<exists>x y. pt x y 1 g \<and> fe_val (yplusx c) = y + x \<and> fe_val (yminusx c) = y - x \<and>
     fe_val (xy2d c) = 2 * fe_val fe_d * (x * y))"

lemmas pt_defs = p3_pt_def p2_pt_def p1_pt_def cached_pt_def precomp_pt_def

lemma ge_add_vals:
  assumes "p3_ok p" "cached_ok c" "fe_val (YplusX c) = Y2 + X2" "fe_val (YminusX c) = Y2 - X2" "fe_val (T2d c) = 2 * fe_val fe_d * T2"
  shows "fe_val (p1_X (ge_add p c)) = 2 * (fe_val (p3_X p) * Y2 + fe_val (p3_Y p) * X2)"
    and "fe_val (p1_Y (ge_add p c)) = 2 * (fe_val (p3_Y p) * Y2 + fe_val (p3_X p) * X2)"
    and "fe_val (p1_Z (ge_add p c)) = 2 * (fe_val (p3_Z p) * fe_val (cached_Z c)) + 2 * fe_val fe_d * (fe_val (p3_T p) * T2)"
    and "fe_val (p1_T (ge_add p c)) = 2 * (fe_val (p3_Z p) * fe_val (cached_Z c)) - 2 * fe_val fe_d * (fe_val (p3_T p) * T2)"
  using assms feo.addition_XY [of "p3_X p" "p3_Y p" "YplusX c" "YminusX c"]
  by (simp_all add: ok_defs ge_add_def Let_def feo.arith)

lemma ge_add_pt:
  assumes cg: "curve_group pt" and p: "p3_pt pt p g" and c: "cached_pt pt c h"
  shows "p1_pt pt (ge_add p c) (g + h)"
proof -
  obtain X2 Y2 Z2 T2 where c2: "cached_ok c" "pt X2 Y2 Z2 h" "T2 * Z2 = X2 * Y2" "fe_val (YplusX c) = Y2 + X2"
      "fe_val (YminusX c) = Y2 - X2" "fe_val (cached_Z c) = Z2" "fe_val (T2d c) = 2 * fe_val fe_d * T2"
    using c by (auto simp: cached_pt_def)
  have p1: "p3_ok p" "pt (fe_val (p3_X p)) (fe_val (p3_Y p)) (fe_val (p3_Z p)) g"
      "fe_val (p3_T p) * fe_val (p3_Z p) = fe_val (p3_X p) * fe_val (p3_Y p)"
    using p by (simp_all add: p3_pt_def)
  note v = ge_add_vals [OF p1(1) c2(1,4,5,7)]
  show ?thesis
    unfolding p1_pt_def using curve_group_rules(3) [OF cg p1(2) c2(2) p1(3) c2(3) v(1,2) v(3,4) [unfolded c2(6)]]
    by (simp add: addition_ok p1(1) c2(1))
qed

text \<open>The other additions agree with \<open>ge_add\<close> on the values of the coordinates.\<close>

definition same_vals :: "ge_p1p1 \<Rightarrow> ge_p1p1 \<Rightarrow> bool" where
  "same_vals s t \<longleftrightarrow> fe_val (p1_X s) = fe_val (p1_X t) \<and> fe_val (p1_Y s) = fe_val (p1_Y t) \<and>
     fe_val (p1_Z s) = fe_val (p1_Z t) \<and> fe_val (p1_T s) = fe_val (p1_T t)"

lemma same_vals_pt: "same_vals s t \<Longrightarrow> p1_pt pt t g \<Longrightarrow> p1_ok s \<Longrightarrow> p1_pt pt s g"
  by (simp add: same_vals_def p1_pt_def)

definition full_cached :: "ge_precomp \<Rightarrow> ge_cached" where
  "full_cached c = \<lparr>YplusX = yplusx c, YminusX = yminusx c, cached_Z = fe_1, T2d = xy2d c\<rparr>"

lemma cached_ptI:
  assumes "cached_ok c" "pt X Y Z g" "T * Z = X * Y" "fe_val (YplusX c) = Y + X" "fe_val (YminusX c) = Y - X"
    "fe_val (cached_Z c) = Z" "fe_val (T2d c) = 2 * fe_val fe_d * T"
  shows "cached_pt pt c g"
  using assms unfolding cached_pt_def by blast

lemma precomp_ptI:
  assumes "precomp_ok c" "pt x y 1 g" "fe_val (yplusx c) = y + x" "fe_val (yminusx c) = y - x" "fe_val (xy2d c) = 2 * fe_val fe_d * (x * y)"
  shows "precomp_pt pt c g"
  using assms unfolding precomp_pt_def by blast

lemma full_cached_pt: "precomp_pt pt c g \<Longrightarrow> cached_pt pt (full_cached c) g"
proof -
  assume "precomp_pt pt c g"
  then obtain x y where c: "precomp_ok c" "pt x y 1 g" "fe_val (yplusx c) = y + x" "fe_val (yminusx c) = y - x"
    "fe_val (xy2d c) = 2 * fe_val fe_d * (x * y)" by (auto simp: precomp_pt_def)
  show ?thesis
    by (rule cached_ptI [where T = "x * y" and X = x and Y = y and Z = 1])
      (use c in \<open>simp_all add: full_cached_def fe_01 ok_defs feo.bnd_up\<close>)
qed

lemma cached_neg_pt: "curve_group pt \<Longrightarrow> cached_pt pt c g \<Longrightarrow> cached_pt pt (cached_neg c) (- g)"
proof -
  assume cg: "curve_group pt" and "cached_pt pt c g"
  then obtain X Y Z T where c: "cached_ok c" "pt X Y Z g" "T * Z = X * Y" "fe_val (YplusX c) = Y + X" "fe_val (YminusX c) = Y - X"
      "fe_val (cached_Z c) = Z" "fe_val (T2d c) = 2 * fe_val fe_d * T" by (auto simp: cached_pt_def)
  have "fe_bounded 1 (T2d c)" using c(1) by (simp add: cached_ok_def)
  then show ?thesis
    by (intro cached_ptI [where T = "- T" and X = "- X" and Y = Y and Z = Z])
      (use c neg_ok(2) [OF c(1)] curve_group_rules(2) [OF cg c(2)] in \<open>simp_all add: cached_neg_def fe_neg_1\<close>)
qed

lemma same_vals_additions:
  assumes "p3_ok p"
  shows "cached_ok c \<Longrightarrow> same_vals (ge_sub p c) (ge_add p (cached_neg c))"
    and "precomp_ok q \<Longrightarrow> same_vals (ge_madd p q) (ge_add p (full_cached q))"
    and "precomp_ok q \<Longrightarrow> same_vals (ge_msub p q) (ge_add p (cached_neg (full_cached q)))"
  using assms by (simp_all add: same_vals_def ok_defs ge_add_def ge_sub_def ge_madd_def ge_msub_def cached_neg_def full_cached_def
      Let_def feo.arith fe_01 fe_neg_1)

lemma pt_ok: "p3_pt pt p g \<Longrightarrow> p3_ok p" "cached_pt pt c g \<Longrightarrow> cached_ok c" "precomp_pt pt q g \<Longrightarrow> precomp_ok q"
  "p2_pt pt r g \<Longrightarrow> p2_ok r" "p1_pt pt t g \<Longrightarrow> p1_ok t"
  by (simp_all add: pt_defs)

lemma ge_sub_pt:
  assumes "curve_group pt" "p3_pt pt p g" "cached_pt pt c h"
  shows "p1_pt pt (ge_sub p c) (g - h)"
proof (rule same_vals_pt)
  show "same_vals (ge_sub p c) (ge_add p (cached_neg c))" "p1_ok (ge_sub p c)"
    using pt_ok(1) [OF assms(2)] pt_ok(2) [OF assms(3)] by (simp_all add: same_vals_additions addition_ok)
  show "p1_pt pt (ge_add p (cached_neg c)) (g - h)"
    using ge_add_pt [OF assms(1,2) cached_neg_pt [OF assms(1,3)]] by simp
qed

lemma ge_madd_pt:
  assumes "curve_group pt" "p3_pt pt p g" "precomp_pt pt c h"
  shows "p1_pt pt (ge_madd p c) (g + h)"
proof (rule same_vals_pt)
  show "same_vals (ge_madd p c) (ge_add p (full_cached c))" "p1_ok (ge_madd p c)"
    using pt_ok(1) [OF assms(2)] pt_ok(3) [OF assms(3)] by (simp_all add: same_vals_additions addition_ok)
  show "p1_pt pt (ge_add p (full_cached c)) (g + h)" by (rule ge_add_pt [OF assms(1,2) full_cached_pt [OF assms(3)]])
qed

lemma ge_msub_pt:
  assumes "curve_group pt" "p3_pt pt p g" "precomp_pt pt c h"
  shows "p1_pt pt (ge_msub p c) (g - h)"
proof (rule same_vals_pt)
  show "same_vals (ge_msub p c) (ge_add p (cached_neg (full_cached c)))" "p1_ok (ge_msub p c)"
    using pt_ok(1) [OF assms(2)] pt_ok(3) [OF assms(3)] by (simp_all add: same_vals_additions addition_ok)
  show "p1_pt pt (ge_add p (cached_neg (full_cached c))) (g - h)"
    using ge_add_pt [OF assms(1,2) cached_neg_pt [OF assms(1) full_cached_pt [OF assms(3)]]] by simp
qed

lemma ge_p2_dbl_pt:
  assumes "curve_group pt" "p2_pt pt r g"
  shows "p1_pt pt (ge_p2_dbl r) (g + g)"
proof -
  have r: "p2_ok r" "pt (fe_val (p2_X r)) (fe_val (p2_Y r)) (fe_val (p2_Z r)) g" using assms(2) by (simp_all add: p2_pt_def)
  have b: "fe_bounded 1 (p2_X r)" "fe_bounded 1 (p2_Y r)" "fe_bounded 1 (p2_Z r)" using r(1) by (simp_all add: p2_ok_def)
  note v = feo.doubling(5-8) [OF b]
  show ?thesis unfolding p1_pt_def
    using curve_group_rules(4) [OF assms(1) r(2) v(1-4)] doubling_ok(1) [OF r(1)] by (simp add: ge_p2_dbl_def Let_def)
qed

lemma conversion_pt:
  "p1_pt pt t g \<Longrightarrow> p2_pt pt (ge_p1p1_to_p2 t) g" "p1_pt pt t g \<Longrightarrow> p3_pt pt (ge_p1p1_to_p3 t) g"
  "p3_pt pt p g \<Longrightarrow> p2_pt pt (ge_p3_to_p2 p) g"
  by (simp_all add: pt_defs ok_defs ge_p1p1_to_p2_def ge_p1p1_to_p3_def ge_p3_to_p2_def fe_copy_def feo.arith)

lemma to_cached_pt: "p3_pt pt p g \<Longrightarrow> cached_pt pt (ge_p3_to_cached p) g"
  by (rule cached_ptI [where T = "fe_val (p3_T p)" and X = "fe_val (p3_X p)" and Y = "fe_val (p3_Y p)" and Z = "fe_val (p3_Z p)"])
    (simp_all add: p3_pt_def ok_defs ge_p3_to_cached_def feo.arith fe_d2_bounded fe_d_values fe_copy_def mult.commute)

lemma identity_pt:
  assumes "curve_group pt"
  shows "p3_pt pt ge_p3_0 0" "p2_pt pt ge_p2_0 0" "cached_pt pt ge_cached_0 0" "precomp_pt pt ge_precomp_0 0"
proof -
  note z = curve_group_rules(1) [OF assms]
  show "p3_pt pt ge_p3_0 0" "p2_pt pt ge_p2_0 0"
    using z identity_ok by (simp_all add: pt_defs ge_p3_0_def ge_p2_0_def fe_01)
  show "cached_pt pt ge_cached_0 0"
    by (rule cached_ptI [where T = 0 and X = 0 and Y = 1 and Z = 1]) (use z identity_ok in \<open>simp_all add: ge_cached_0_def fe_01\<close>)
  show "precomp_pt pt ge_precomp_0 0"
    by (rule precomp_ptI [where x = 0 and y = 1]) (use z identity_ok in \<open>simp_all add: ge_precomp_0_def fe_01\<close>)
qed

lemma ge_p3_dbl_pt: "curve_group pt \<Longrightarrow> p3_pt pt p g \<Longrightarrow> p1_pt pt (ge_p3_dbl p) (g + g)"
  by (simp add: ge_p3_dbl_def Let_def ge_p2_dbl_pt conversion_pt)

lemmas pt_rules = ge_add_pt ge_sub_pt ge_madd_pt ge_msub_pt ge_p2_dbl_pt ge_p3_dbl_pt conversion_pt to_cached_pt cached_neg_pt

section \<open>Multiples\<close>

primrec nmul :: "nat \<Rightarrow> 'g::ab_group_add \<Rightarrow> 'g" where
  "nmul 0 g = 0"
| "nmul (Suc n) g = g + nmul n g"

definition zmul :: "int \<Rightarrow> 'g::ab_group_add \<Rightarrow> 'g" where
  "zmul n g = (if 0 \<le> n then nmul (nat n) g else - nmul (nat (- n)) g)"

lemma zmul_0 [simp]: "zmul 0 g = 0"
  by (simp add: zmul_def)

lemma zmul_Suc: "zmul (n + 1) g = g + zmul n g"
proof (cases "0 \<le> n")
  case True
  then show ?thesis by (simp add: zmul_def nat_add_distrib)
next
  case False
  then have "nat (- n) = Suc (nat (- (n + 1)))" by simp
  then show ?thesis using False by (simp add: zmul_def)
qed

lemma zmul_1 [simp]: "zmul 1 g = g"
  using zmul_Suc [of 0 g] by simp

lemma zmul_add: "zmul (m + n) g = zmul m g + zmul n g"
proof (induction m rule: int_induct [where k = 0])
  case (step1 i)
  then show ?case using zmul_Suc [of i g] zmul_Suc [of "i + n" g] by (simp add: algebra_simps)
next
  case (step2 i)
  then show ?case using zmul_Suc [of "i - 1" g] zmul_Suc [of "i - 1 + n" g] by (simp add: algebra_simps)
qed simp

lemma zmul_neg: "zmul (- n) g = - zmul n g"
  using zmul_add [of "- n" n g] by (simp add: eq_neg_iff_add_eq_0)

lemma zmul_diff: "zmul (m - n) g = zmul m g - zmul n g"
  using zmul_add [of m "- n" g] by (simp add: zmul_neg)

lemma zmul_sum: "zmul n (g + h) = zmul n g + zmul n h"
proof (induction n rule: int_induct [where k = 0])
  case (step1 i)
  then show ?case by (simp add: zmul_Suc)
next
  case (step2 i)
  then show ?case using zmul_Suc [of "i - 1" g] zmul_Suc [of "i - 1" h] zmul_Suc [of "i - 1" "g + h"] by (simp add: algebra_simps)
qed simp

lemma zmul_zero [simp]: "zmul n 0 = 0"
  using zmul_sum [of n 0 0] by simp

lemma zmul_zmul: "zmul m (zmul n g) = zmul (m * n) g"
proof (induction m rule: int_induct [where k = 0])
  case (step1 i)
  then show ?case by (simp add: zmul_Suc distrib_right zmul_add)
next
  case (step2 i)
  then show ?case using zmul_Suc [of "i - 1" "zmul n g"] by (simp add: left_diff_distrib zmul_diff)
qed simp

lemma zmul_2: "g + g = zmul 2 g"
  using zmul_add [of 1 1 g] by simp

section \<open>Multiplication of an arbitrary point\<close>

lemma scalar_table_pt:
  assumes cg: "curve_group pt" and A: "p3_pt pt A g"
  shows "i \<le> n \<Longrightarrow> cached_pt pt (scalar_table A n ! i) (zmul (int i + 1) g)"
proof (induction n arbitrary: i)
  case 0
  then show ?case using to_cached_pt [OF A] by simp
next
  case (Suc n)
  note l = scalar_table_ok(1) [OF pt_ok(1) [OF A], of n]
  show ?case
  proof (cases "i \<le> n")
    case True
    then show ?thesis using Suc.IH l by (simp add: Let_def nth_append)
  next
    case False
    then have i: "i = Suc n" using Suc.prems by simp
    have "cached_pt pt (scalar_table A n ! n) (zmul (int n + 1) g)" by (rule Suc.IH) simp
    from to_cached_pt [OF conversion_pt(2) [OF ge_add_pt [OF cg A this]]] show ?thesis
      using l zmul_Suc [of "int n + 1" g] by (simp add: i Let_def nth_append add.commute)
  qed
qed

lemma lookup_pt:
  assumes cg: "curve_group pt" and A: "p3_pt pt A g" and b: "\<bar>sint b\<bar> \<le> 8"
  shows "\<exists>c. Option.bind (cmov_all ge_cached_cmov (scalar_table A 7) (babs b) [0, 1, 2, 3, 4, 5, 6, 7] ge_cached_0)
      (\<lambda>c. ge_cached_cmov c (cached_neg c) (if sint b < 0 then 1 else 0)) = Some c \<and> cached_pt pt c (zmul (sint b) g)"
proof -
  define t where "t = (if sint b = 0 then ge_cached_0 else scalar_table A 7 ! nat (\<bar>sint b\<bar> - 1))"
  note ok = scalar_table_ok [OF pt_ok(1) [OF A], of 7]
  have "cached_pt pt t (zmul \<bar>sint b\<bar> g)"
    using identity_pt(3) [OF cg] scalar_table_pt [OF cg A, of "nat (\<bar>sint b\<bar> - 1)" 7] b by (auto simp: t_def)
  note t = this pt_ok(2) [OF this] cached_neg_pt [OF cg this]
  have "cmov_all ge_cached_cmov (scalar_table A 7) (babs b) [0, 1, 2, 3, 4, 5, 6, 7] ge_cached_0 = Some t"
    unfolding t_def by (rule cc.lookup) (use ok identity_ok b in simp_all)
  then show ?thesis using t cc.cmov_if [OF t(2) pt_ok(2) [OF t(3)], of "sint b < 0"] zmul_neg [of "\<bar>sint b\<bar>" g]
    by (cases "sint b < 0") simp_all
qed

lemma scalar_step_pt:
  assumes cg: "curve_group pt" and A: "p3_pt pt A g" and b: "\<bar>sint b\<bar> \<le> 8" and r: "p2_pt pt r h"
  shows "\<exists>t. scalar_step (scalar_table A 7) b r = Some t \<and> p1_pt pt t (zmul 16 h + zmul (sint b) g)"
proof -
  obtain c where c: "Option.bind (cmov_all ge_cached_cmov (scalar_table A 7) (babs b) [0, 1, 2, 3, 4, 5, 6, 7] ge_cached_0)
      (\<lambda>c. ge_cached_cmov c (cached_neg c) (if sint b < 0 then 1 else 0)) = Some c" "cached_pt pt c (zmul (sint b) g)"
    using lookup_pt [OF cg A b] by blast
  define u where "u = ge_p1p1_to_p3 (ge_p2_dbl (ge_p1p1_to_p2 (ge_p2_dbl (ge_p1p1_to_p2 (ge_p2_dbl (ge_p1p1_to_p2 (ge_p2_dbl r)))))))"
  have "p3_pt pt u (zmul 16 h)"
  proof -
    have "p2_pt pt (ge_p1p1_to_p2 (ge_p2_dbl q)) (zmul 2 k)" if "p2_pt pt q k" for q k
      using ge_p2_dbl_pt [OF cg that] by (simp add: zmul_2 conversion_pt)
    from ge_p2_dbl_pt [OF cg this [OF this [OF this [OF r]]]] show ?thesis
      by (simp add: u_def zmul_2 zmul_zmul conversion_pt)
  qed
  from ge_add_pt [OF cg this c(2)] show ?thesis
    using c(1) unfolding scalar_step_bind u_def [symmetric] Option.bind_assoc [symmetric] by simp
qed

lemma scalar_loop_pt:
  assumes cg: "curve_group pt" and A: "p3_pt pt A g" and e: "\<forall>k<n. \<bar>sint (e ! k)\<bar> \<le> 8" and r: "p2_pt pt r h"
  shows "\<exists>q. scalar_loop (scalar_table A 7) e n r = Some q \<and> p2_pt pt q (zmul (16 ^ n) h + zmul (hex_val n e) g)"
  using e r
proof (induction n arbitrary: r h)
  case 0
  then show ?case by (simp add: lval_def)
next
  case (Suc n)
  obtain t where t: "scalar_step (scalar_table A 7) (e ! n) r = Some t" "p1_pt pt t (zmul 16 h + zmul (sint (e ! n)) g)"
    using scalar_step_pt [OF cg A _ Suc.prems(2)] Suc.prems(1) by blast
  obtain q where q: "scalar_loop (scalar_table A 7) e n (ge_p1p1_to_p2 t) = Some q"
    "p2_pt pt q (zmul (16 ^ n) (zmul 16 h + zmul (sint (e ! n)) g) + zmul (hex_val n e) g)"
    using Suc.IH [OF _ conversion_pt(1) [OF t(2)]] Suc.prems(1) by auto
  have "zmul (16 ^ n) (zmul 16 h + zmul (sint (e ! n)) g) + zmul (hex_val n e) g = zmul (16 ^ Suc n) h + zmul (hex_val (Suc n) e) g"
    by (simp add: zmul_sum zmul_zmul lval_Suc zmul_add ac_simps)
  then show ?case using t(1) q by simp
qed

lemma scalar_digit_range:
  assumes "length a = 32" "le_nat a < 2 ^ 255"
  shows "\<forall>k<64. \<bar>sint (scalar_digits a ! k)\<bar> \<le> 8" "\<forall>k<64. \<bar>sint (base_digits a ! k)\<bar> \<le> 8"
proof -
  have k: "k < 63 \<or> k = 63" if "k < 64" for k :: nat using that by linarith
  show "\<forall>k<64. \<bar>sint (scalar_digits a ! k)\<bar> \<le> 8"
    using scalar_digits_val [OF assms(1)] assms(2) k by (metis abs_le_iff abs_of_nonneg less_imp_le minus_le_iff)
  have "unat (a ! 31) div 16 < 8" using top_byte [OF assms] by simp
  then have "\<bar>sint (base_digits a ! 63)\<bar> \<le> 8"
    using base_digits_val(4) [OF assms(1)] nibble_vals(2) [of 31 a] by auto
  then show "\<forall>k<64. \<bar>sint (base_digits a ! k)\<bar> \<le> 8"
    using base_digits_val(3) [OF assms(1)] k by (metis abs_le_iff less_imp_le minus_le_iff)
qed

lemma ge_scalarmult_pt:
  assumes cg: "curve_group pt" and A: "p3_pt pt A g" and a: "length a = 32" "le_nat a < 2 ^ 255"
  shows "\<exists>q. ge_scalarmult a A = Some q \<and> p2_pt pt q (zmul (int (le_nat a)) g)"
  using scalar_loop_pt [OF cg A scalar_digit_range(1) [OF a] identity_pt(2) [OF cg]]
  by (simp add: ge_scalarmult_def Let_def scalar_digits_val(2) [OF a(1)])

section \<open>Multiplication with windows\<close>

definition odd_multiples :: "(fp \<Rightarrow> fp \<Rightarrow> fp \<Rightarrow> 'g::ab_group_add \<Rightarrow> bool) \<Rightarrow> ge_dsmp \<Rightarrow> 'g \<Rightarrow> bool" where
  "odd_multiples pt Ai g \<longleftrightarrow> (\<forall>j<8. cached_pt pt (Ai ! j) (zmul (2 * int j + 1) g))"

lemma dsm_next_pt:
  assumes "curve_group pt" "p3_pt pt s2 h" "cached_pt pt c k"
  shows "cached_pt pt (dsm_next s2 c) (h + k)"
  using to_cached_pt [OF conversion_pt(2) [OF ge_add_pt [OF assms]]] by (simp add: dsm_next_def Let_def)

lemma ge_dsm_precomp_pt:
  assumes cg: "curve_group pt" and s: "p3_pt pt s g"
  shows "odd_multiples pt (ge_dsm_precomp s) g"
proof -
  define s2 where "s2 = ge_p1p1_to_p3 (ge_p3_dbl s)"
  have s2: "p3_pt pt s2 (zmul 2 g)" using ge_p3_dbl_pt [OF cg s] by (simp add: s2_def conversion_pt zmul_2)
  have t: "cached_pt pt ((dsm_next s2 ^^ j) (ge_p3_to_cached s)) (zmul (2 * int j + 1) g)" for j
  proof (induction j)
    case 0
    show ?case using to_cached_pt [OF s] by simp
  next
    case (Suc j)
    then show ?case using dsm_next_pt [OF cg s2 Suc] zmul_add [of 2 "2 * int j + 1" g] by (simp add: add.commute)
  qed
  have "ge_dsm_precomp s = map (\<lambda>j. (dsm_next s2 ^^ j) (ge_p3_to_cached s)) [0..<8]"
    by (simp add: ge_dsm_precomp_def Let_def s2_def upt_conv_Cons eval_nat_numeral)
  then show ?thesis using t by (simp add: odd_multiples_def)
qed

lemma digit_index:
  assumes "window_digit d"
  shows "0 < sint d \<Longrightarrow> nat (sint d div 2) < 8 \<and> 2 * int (nat (sint d div 2)) + 1 = sint d"
    and "sint d < 0 \<Longrightarrow> nat (- sint d div 2) < 8 \<and> 2 * int (nat (- sint d div 2)) + 1 = - sint d"
proof -
  have d: "odd (sint d)" "\<bar>sint d\<bar> \<le> 15" if "sint d \<noteq> 0" using assms that by (auto simp: window_digit_def)
  show "nat (sint d div 2) < 8 \<and> 2 * int (nat (sint d div 2)) + 1 = sint d" if "0 < sint d" using d that by auto
  show "nat (- sint d div 2) < 8 \<and> 2 * int (nat (- sint d div 2)) + 1 = - sint d" if "sint d < 0"
    using d that by (auto elim!: oddE)
qed

lemma dsm_digit_pt:
  assumes cg: "curve_group pt" and Ai: "odd_multiples pt Ai g" and d: "window_digit d" and t: "p1_pt pt t h"
  shows "p1_pt pt (dsm_digit Ai d t) (h + zmul (sint d) g)"
proof -
  note w = digit_index [OF d]
  note u = conversion_pt(2) [OF t]
  consider "0 < sint d" | "sint d < 0" | "sint d = 0" by linarith
  then show ?thesis
  proof cases
    case 1
    then have "cached_pt pt (Ai ! nat (sint d div 2)) (zmul (sint d) g)" using Ai w(1) unfolding odd_multiples_def by metis
    from ge_add_pt [OF cg u this] 1 show ?thesis by (simp add: dsm_digit_def Let_def)
  next
    case 2
    then have "cached_pt pt (Ai ! nat (- sint d div 2)) (zmul (- sint d) g)" using Ai w(2) unfolding odd_multiples_def by metis
    from ge_sub_pt [OF cg u this] 2 show ?thesis by (simp add: dsm_digit_def Let_def zmul_neg)
  next
    case 3
    then show ?thesis using t by (simp add: dsm_digit_def)
  qed
qed

lemma dsm_digit_base_pt:
  assumes cg: "curve_group pt" and B: "\<forall>j<8. precomp_pt pt (ge_Bi ! j) (zmul (2 * int j + 1) g)" and d: "window_digit d" and t: "p1_pt pt t h"
  shows "p1_pt pt (dsm_digit_base d t) (h + zmul (sint d) g)"
proof -
  note w = digit_index [OF d]
  note u = conversion_pt(2) [OF t]
  consider "0 < sint d" | "sint d < 0" | "sint d = 0" by linarith
  then show ?thesis
  proof cases
    case 1
    then have "precomp_pt pt (ge_Bi ! nat (sint d div 2)) (zmul (sint d) g)" using B w(1) by metis
    from ge_madd_pt [OF cg u this] 1 show ?thesis by (simp add: dsm_digit_base_def Let_def)
  next
    case 2
    then have "precomp_pt pt (ge_Bi ! nat (- sint d div 2)) (zmul (- sint d) g)" using B w(2) by metis
    from ge_msub_pt [OF cg u this] 2 show ?thesis by (simp add: dsm_digit_base_def Let_def zmul_neg)
  next
    case 3
    then show ?thesis using t by (simp add: dsm_digit_base_def)
  qed
qed

lemma dsm_loop_pt:
  assumes cg: "curve_group pt" and f: "\<And>i t h. i < n \<Longrightarrow> p1_pt pt t h \<Longrightarrow> p1_pt pt (f i t) (h + w i)" and r: "p2_pt pt r h"
  shows "p2_pt pt (dsm_loop f n r) (zmul (2 ^ n) h + (\<Sum>i<n. zmul (2 ^ i) (w i)))"
  using f r
proof (induction n arbitrary: r h)
  case (Suc n)
  have t: "p1_pt pt (f n (ge_p2_dbl r)) (zmul 2 h + w n)"
    using Suc.prems(1) [of n, OF _ ge_p2_dbl_pt [OF cg Suc.prems(2)]] by (simp add: zmul_2)
  have "p2_pt pt (dsm_loop f n (ge_p1p1_to_p2 (f n (ge_p2_dbl r)))) (zmul (2 ^ n) (zmul 2 h + w n) + (\<Sum>i<n. zmul (2 ^ i) (w i)))"
    by (rule Suc.IH [OF _ conversion_pt(1) [OF t]]) (use Suc.prems(1) in simp)
  then show ?case by (simp add: Let_def zmul_sum zmul_zmul ac_simps)
qed simp

lemma zmul_digits: "(\<Sum>i<n. zmul (2 ^ i) (zmul (sint (e ! i)) g)) = zmul (digit_val n e) g"
  by (induction n) (simp_all add: lval_def zmul_zmul zmul_add mult.commute)

text \<open>Above the top digit all digits are zero.\<close>

lemma top_digit_zero: "top_digit nz n \<le> i \<Longrightarrow> i < n \<Longrightarrow> \<not> nz i"
  by (induction n) (auto simp: less_Suc_eq split: if_splits)

lemma slide_val: "length a = 32 \<Longrightarrow> le_nat a < 2 ^ 255 \<Longrightarrow> digit_val 256 (slide a) = int (le_nat a)"
  using slide_outer_final [of a] by (simp add: slide_outer_def)

lemma dsm_result_pt:
  assumes cg: "curve_group pt" and f: "\<And>i t h. i < 256 \<Longrightarrow> p1_pt pt t h \<Longrightarrow> p1_pt pt (f i t) (h + w i)"
    and nz: "\<And>i. i < 256 \<Longrightarrow> \<not> nz i \<Longrightarrow> w i = 0"
  shows "p2_pt pt (dsm_loop f (top_digit nz 256) ge_p2_0) (\<Sum>i<256. zmul (2 ^ i) (w i))"
proof -
  define n where "n = top_digit nz 256"
  have n: "n \<le> 256" "w i = 0" if "n \<le> i" "i < 256" for i
    using top_digit_zero [of nz 256 i] nz [of i] that by (simp_all add: n_def top_digit_le)
  have "p2_pt pt (dsm_loop f n ge_p2_0) (zmul (2 ^ n) 0 + (\<Sum>i<n. zmul (2 ^ i) (w i)))"
    using f top_digit_le [of nz 256] by (intro dsm_loop_pt cg identity_pt) (simp_all add: n_def)
  moreover have "(\<Sum>i<n. zmul (2 ^ i) (w i)) = (\<Sum>i<256. zmul (2 ^ i) (w i))"
    using n top_digit_le [of nz 256] by (intro sum.mono_neutral_left) (auto simp: n_def)
  ultimately show ?thesis by (simp add: n_def)
qed

lemma dsm_loop_p3_pt:
  assumes cg: "curve_group pt" and f: "\<And>i t h. i < n \<Longrightarrow> p1_pt pt t h \<Longrightarrow> p1_pt pt (f i t) (h + w i)" and r: "p2_pt pt r h" and n: "0 < n"
  shows "p3_pt pt (dsm_loop_p3 f n r r3) (zmul (2 ^ n) h + (\<Sum>i<n. zmul (2 ^ i) (w i)))"
  using f r n
proof (induction n arbitrary: r h)
  case (Suc n)
  have t: "p1_pt pt (f n (ge_p2_dbl r)) (zmul 2 h + w n)"
    using Suc.prems(1) [of n, OF _ ge_p2_dbl_pt [OF cg Suc.prems(2)]] by (simp add: zmul_2)
  show ?case
  proof (cases "n = 0")
    case True
    then show ?thesis using conversion_pt(2) [OF t] by (simp add: Let_def)
  next
    case False
    have "p3_pt pt (dsm_loop_p3 f n (ge_p1p1_to_p2 (f n (ge_p2_dbl r))) r3) (zmul (2 ^ n) (zmul 2 h + w n) + (\<Sum>i<n. zmul (2 ^ i) (w i)))"
      by (rule Suc.IH [OF _ conversion_pt(1) [OF t]]) (use Suc.prems(1) False in simp_all)
    then show ?thesis using False by (simp add: Let_def zmul_sum zmul_zmul ac_simps)
  qed
qed simp

abbreviation scalar_ok :: "bytes \<Rightarrow> bool" where
  "scalar_ok a \<equiv> length a = 32 \<and> le_nat a < 2 ^ 255"

lemma sum_digits_2:
  "(\<Sum>i<256. zmul (2 ^ i) (zmul (sint (a ! i)) g + zmul (sint (b ! i)) h)) = zmul (digit_val 256 a) g + zmul (digit_val 256 b) h"
  by (simp add: zmul_sum sum.distrib zmul_digits)

lemma sum_digits_3:
  "(\<Sum>i<256. zmul (2 ^ i) (zmul (sint (a ! i)) g + zmul (sint (b ! i)) h + zmul (sint (c ! i)) k)) =
     zmul (digit_val 256 a) g + zmul (digit_val 256 b) h + zmul (digit_val 256 c) k"
  by (simp add: zmul_sum sum.distrib zmul_digits)

abbreviation base_multiples :: "(fp \<Rightarrow> fp \<Rightarrow> fp \<Rightarrow> 'g::ab_group_add \<Rightarrow> bool) \<Rightarrow> 'g \<Rightarrow> bool" where
  "base_multiples pt B \<equiv> \<forall>j<8. precomp_pt pt (ge_Bi ! j) (zmul (2 * int j + 1) B)"

lemma double_precomp_pt:
  assumes cg: "curve_group pt" and t: "odd_multiples pt Ai g" "odd_multiples pt Bi h" and a: "scalar_ok a" "scalar_ok b"
  shows "p2_pt pt (ge_double_scalarmult_precomp_vartime2 a Ai b Bi) (zmul (int (le_nat a)) g + zmul (int (le_nat b)) h)"
proof -
  have "p2_pt pt (ge_double_scalarmult_precomp_vartime2 a Ai b Bi)
      (\<Sum>i<256. zmul (2 ^ i) (zmul (sint (slide a ! i)) g + zmul (sint (slide b ! i)) h))"
    unfolding ge_double_scalarmult_precomp_vartime2_def Let_def
  proof (rule dsm_result_pt [OF cg])
    fix i :: nat and u k assume "i < 256" "p1_pt pt u k"
    then show "p1_pt pt (dsm_digit Bi (slide b ! i) (dsm_digit Ai (slide a ! i) u)) (k + (zmul (sint (slide a ! i)) g + zmul (sint (slide b ! i)) h))"
      using dsm_digit_pt [OF cg t(2) _ dsm_digit_pt [OF cg t(1)]] a by (simp add: slide_digit add.assoc)
  qed simp
  then show ?thesis unfolding sum_digits_2 using a by (simp add: slide_val)
qed

lemma double_base_pt:
  assumes cg: "curve_group pt" and A: "p3_pt pt A g" and B: "base_multiples pt B" and a: "scalar_ok a" "scalar_ok b"
  shows "p2_pt pt (ge_double_scalarmult_base_vartime a A b) (zmul (int (le_nat a)) g + zmul (int (le_nat b)) B)"
proof -
  note t = ge_dsm_precomp_pt [OF cg A]
  have "p2_pt pt (ge_double_scalarmult_base_vartime a A b)
      (\<Sum>i<256. zmul (2 ^ i) (zmul (sint (slide a ! i)) g + zmul (sint (slide b ! i)) B))"
    unfolding ge_double_scalarmult_base_vartime_def Let_def
  proof (rule dsm_result_pt [OF cg])
    fix i :: nat and u k assume "i < 256" "p1_pt pt u k"
    then show "p1_pt pt (dsm_digit_base (slide b ! i) (dsm_digit (ge_dsm_precomp A) (slide a ! i) u)) (k + (zmul (sint (slide a ! i)) g + zmul (sint (slide b ! i)) B))"
      using dsm_digit_base_pt [OF cg B _ dsm_digit_pt [OF cg t]] a by (simp add: slide_digit add.assoc)
  qed simp
  then show ?thesis unfolding sum_digits_2 using a by (simp add: slide_val)
qed

lemma triple_precomp_pt:
  assumes cg: "curve_group pt" and t: "odd_multiples pt Ai g" "odd_multiples pt Bi h" "odd_multiples pt Ci l"
    and a: "scalar_ok a" "scalar_ok b" "scalar_ok c"
  shows "p2_pt pt (ge_triple_scalarmult_precomp_vartime a Ai b Bi c Ci)
    (zmul (int (le_nat a)) g + zmul (int (le_nat b)) h + zmul (int (le_nat c)) l)"
proof -
  have "p2_pt pt (ge_triple_scalarmult_precomp_vartime a Ai b Bi c Ci)
      (\<Sum>i<256. zmul (2 ^ i) (zmul (sint (slide a ! i)) g + zmul (sint (slide b ! i)) h + zmul (sint (slide c ! i)) l))"
    unfolding ge_triple_scalarmult_precomp_vartime_def Let_def
  proof (rule dsm_result_pt [OF cg])
    fix i :: nat and u k assume "i < 256" "p1_pt pt u k"
    then show "p1_pt pt (dsm_digit Ci (slide c ! i) (dsm_digit Bi (slide b ! i) (dsm_digit Ai (slide a ! i) u)))
        (k + (zmul (sint (slide a ! i)) g + zmul (sint (slide b ! i)) h + zmul (sint (slide c ! i)) l))"
      using dsm_digit_pt [OF cg t(3) _ dsm_digit_pt [OF cg t(2) _ dsm_digit_pt [OF cg t(1)]]] a by (simp add: slide_digit add.assoc)
  qed simp
  then show ?thesis unfolding sum_digits_3 using a by (simp add: slide_val)
qed

lemma triple_base_pt:
  assumes cg: "curve_group pt" and B: "base_multiples pt B" and t: "odd_multiples pt Bi h" "odd_multiples pt Ci l"
    and a: "scalar_ok a" "scalar_ok b" "scalar_ok c"
  shows "p2_pt pt (ge_triple_scalarmult_base_vartime a b Bi c Ci)
    (zmul (int (le_nat a)) B + zmul (int (le_nat b)) h + zmul (int (le_nat c)) l)"
proof -
  have "p2_pt pt (ge_triple_scalarmult_base_vartime a b Bi c Ci)
      (\<Sum>i<256. zmul (2 ^ i) (zmul (sint (slide a ! i)) B + zmul (sint (slide b ! i)) h + zmul (sint (slide c ! i)) l))"
    unfolding ge_triple_scalarmult_base_vartime_def Let_def
  proof (rule dsm_result_pt [OF cg])
    fix i :: nat and u k assume "i < 256" "p1_pt pt u k"
    then show "p1_pt pt (dsm_digit Ci (slide c ! i) (dsm_digit Bi (slide b ! i) (dsm_digit_base (slide a ! i) u)))
        (k + (zmul (sint (slide a ! i)) B + zmul (sint (slide b ! i)) h + zmul (sint (slide c ! i)) l))"
      using dsm_digit_pt [OF cg t(2) _ dsm_digit_pt [OF cg t(1) _ dsm_digit_base_pt [OF cg B]]] a by (simp add: slide_digit add.assoc)
  qed simp
  then show ?thesis unfolding sum_digits_3 using a by (simp add: slide_val)
qed

section \<open>Multiplication of the base point\<close>

abbreviation base_table :: "(fp \<Rightarrow> fp \<Rightarrow> fp \<Rightarrow> 'g::ab_group_add \<Rightarrow> bool) \<Rightarrow> 'g \<Rightarrow> bool" where
  "base_table pt B \<equiv> \<forall>i<32. \<forall>j<8. precomp_pt pt (ge_base ! i ! j) (zmul ((int j + 1) * 256 ^ i) B)"

lemma precomp_neg_pt: "curve_group pt \<Longrightarrow> precomp_pt pt c g \<Longrightarrow> precomp_pt pt (precomp_neg c) (- g)"
proof -
  assume cg: "curve_group pt" and "precomp_pt pt c g"
  then obtain x y where c: "precomp_ok c" "pt x y 1 g" "fe_val (yplusx c) = y + x" "fe_val (yminusx c) = y - x"
    "fe_val (xy2d c) = 2 * fe_val fe_d * (x * y)" by (auto simp: precomp_pt_def)
  have "fe_bounded 1 (xy2d c)" using c(1) by (simp add: precomp_ok_def)
  then show ?thesis
    by (intro precomp_ptI [where x = "- x" and y = y])
      (use c neg_ok(1) [OF c(1)] curve_group_rules(2) [OF cg c(2)] in \<open>simp_all add: precomp_neg_def fe_neg_1\<close>)
qed

lemma select_pt:
  assumes cg: "curve_group pt" and B: "base_table pt B" and pos: "pos < 32" and b: "\<bar>sint b\<bar> \<le> 8"
  shows "\<exists>q. select pos b = Some q \<and> precomp_pt pt q (zmul (sint b * 256 ^ pos) B)"
proof -
  have j: "precomp_pt pt (ge_base ! pos ! nat (k - 1)) (zmul (k * 256 ^ pos) B)" if "0 < k" "k \<le> 8" for k
    using B [rule_format, OF pos, of "nat (k - 1)"] that by (auto simp: nat_less_iff)
  show ?thesis unfolding select_value [OF pos b]
    using j [of "sint b"] precomp_neg_pt [OF cg j [of "- sint b"]] identity_pt(4) [OF cg] b by (auto simp: zmul_neg)
qed

lemma base_adds_pt:
  assumes cg: "curve_group pt" and B: "base_table pt B" and e: "\<forall>i\<in>set is. i < 64 \<and> \<bar>sint (e ! i)\<bar> \<le> 8" and h: "p3_pt pt h g"
  shows "\<exists>q. base_adds e is h = Some q \<and> p3_pt pt q (g + zmul (\<Sum>i\<leftarrow>is. sint (e ! i) * 256 ^ (i div 2)) B)"
  using e h
proof (induction "is" arbitrary: h g)
  case (Cons i "is")
  have "i div 2 < 32" using Cons.prems(1) by (simp add: less_mult_imp_div_less)
  then obtain t where t: "select (i div 2) (e ! i) = Some t" "precomp_pt pt t (zmul (sint (e ! i) * 256 ^ (i div 2)) B)"
    using select_pt [OF cg B, of "i div 2" "e ! i"] Cons.prems(1) by auto
  have "p3_pt pt (ge_p1p1_to_p3 (ge_madd h t)) (g + zmul (sint (e ! i) * 256 ^ (i div 2)) B)"
    by (rule conversion_pt(2) [OF ge_madd_pt [OF cg Cons.prems(2) t(2)]])
  from Cons.IH [OF _ this] Cons.prems(1) t(1) show ?case by (auto simp: Let_def zmul_add add.assoc)
qed simp

lemma base_digit_sum:
  "16 * (\<Sum>i\<leftarrow>map (\<lambda>i. 2 * i + 1) [0..<n]. sint (e ! i) * 256 ^ (i div 2)) + (\<Sum>i\<leftarrow>map (\<lambda>i. 2 * i) [0..<n]. sint (e ! i) * 256 ^ (i div 2)) = hex_val (2 * n) e"
proof (induction n)
  case (Suc n)
  have "(16::int) ^ (2 * n) = 256 ^ n" by (simp add: power_mult)
  with Suc show ?case by (simp add: lval_Suc algebra_simps)
qed (simp add: lval_def)

lemma ge_scalarmult_base_pt:
  assumes cg: "curve_group pt" and B: "base_table pt B" and a: "scalar_ok a"
  shows "\<exists>h. ge_scalarmult_base a = Some h \<and> p3_pt pt h (zmul (int (le_nat a)) B)"
proof -
  let ?e = "base_digits a" and ?odd = "map (\<lambda>i. 2 * i + 1) [0..<32]" and ?even = "map (\<lambda>i. 2 * i) [0..<32]"
  have e: "\<forall>i\<in>set ?odd. i < 64 \<and> \<bar>sint (?e ! i)\<bar> \<le> 8" "\<forall>i\<in>set ?even. i < 64 \<and> \<bar>sint (?e ! i)\<bar> \<le> 8"
    using scalar_digit_range(2) [of a] a by auto
  define so se where "so = (\<Sum>i\<leftarrow>?odd. sint (?e ! i) * 256 ^ (i div 2))" and "se = (\<Sum>i\<leftarrow>?even. sint (?e ! i) * 256 ^ (i div 2))"
  obtain h where h: "base_adds ?e ?odd ge_p3_0 = Some h" "p3_pt pt h (zmul so B)"
    using base_adds_pt [OF cg B e(1) identity_pt(1) [OF cg]] by (auto simp: so_def)
  define r where "r = ge_p1p1_to_p3 (ge_p2_dbl (ge_p1p1_to_p2 (ge_p2_dbl (ge_p1p1_to_p2 (ge_p2_dbl (ge_p1p1_to_p2 (ge_p3_dbl h)))))))"
  have "p2_pt pt (ge_p1p1_to_p2 (ge_p2_dbl q)) (zmul 2 k)" if "p2_pt pt q k" for q k
    using ge_p2_dbl_pt [OF cg that] by (simp add: zmul_2 conversion_pt)
  from ge_p2_dbl_pt [OF cg this [OF this [OF conversion_pt(1) [OF ge_p3_dbl_pt [OF cg h(2)]]]]]
  have r: "p3_pt pt r (zmul (16 * so) B)" by (simp add: r_def zmul_2 zmul_zmul conversion_pt)
  obtain q where q: "base_adds ?e ?even r = Some q" "p3_pt pt q (zmul (16 * so) B + zmul se B)"
    using base_adds_pt [OF cg B e(2) r] by (auto simp: se_def)
  have "16 * so + se = int (le_nat a)" using base_digit_sum [where n = 32 and e = ?e] base_digits_val(2) [of a] a by (simp add: so_def se_def)
  then have "zmul (16 * so) B + zmul se B = zmul (int (le_nat a)) B" by (simp flip: zmul_add)
  then show ?thesis using q unfolding ge_scalarmult_base_def Let_def h(1) by (simp add: r_def)
qed

section \<open>The variants that return extended coordinates\<close>

lemma scalar_loop_p3_pt:
  assumes cg: "curve_group pt" and A: "p3_pt pt A g" and e: "\<forall>k<n. \<bar>sint (e ! k)\<bar> \<le> 8" and r: "p2_pt pt r h" and n: "0 < n"
  shows "\<exists>q. scalar_loop_p3 (scalar_table A 7) e n r r3 = Some q \<and> p3_pt pt q (zmul (16 ^ n) h + zmul (hex_val n e) g)"
  using e r n
proof (induction n arbitrary: r h)
  case (Suc n)
  obtain t where t: "scalar_step (scalar_table A 7) (e ! n) r = Some t" "p1_pt pt t (zmul 16 h + zmul (sint (e ! n)) g)"
    using scalar_step_pt [OF cg A _ Suc.prems(2)] Suc.prems(1) by blast
  have v: "zmul (16 ^ n) (zmul 16 h + zmul (sint (e ! n)) g) + zmul (hex_val n e) g = zmul (16 ^ Suc n) h + zmul (hex_val (Suc n) e) g"
    by (simp add: zmul_sum zmul_zmul lval_Suc zmul_add ac_simps)
  show ?case
  proof (cases "n = 0")
    case True
    then show ?thesis using t conversion_pt(2) [OF t(2)] v by (simp add: lval_def)
  next
    case False
    then show ?thesis using Suc.IH [OF _ conversion_pt(1) [OF t(2)]] Suc.prems(1) t(1) v by simp
  qed
qed simp

lemma ge_scalarmult_p3_pt:
  assumes cg: "curve_group pt" and A: "p3_pt pt A g" and a: "scalar_ok a"
  shows "\<exists>q. ge_scalarmult_p3 r3 a A = Some q \<and> p3_pt pt q (zmul (int (le_nat a)) g)"
  using scalar_loop_p3_pt [OF cg A scalar_digit_range(1) identity_pt(2) [OF cg], of a] a
  by (simp add: ge_scalarmult_p3_def Let_def scalar_digits_val(2))

lemma top_digit_pos: "i < n \<Longrightarrow> nz i \<Longrightarrow> 0 < top_digit nz n"
  using top_digit_zero [of nz n i] by (cases "top_digit nz n") auto

lemma slide_nonzero:
  assumes "scalar_ok a" "le_nat a \<noteq> 0"
  shows "\<exists>i<256. slide a ! i \<noteq> 0"
proof (rule ccontr)
  assume "\<not> ?thesis"
  then have "digit_val 256 (slide a) = 0" unfolding lval_def by (intro sum.neutral) auto
  then show False using slide_val [of a] assms by simp
qed

lemma dsm_result_p3_pt:
  assumes cg: "curve_group pt" and f: "\<And>i t h. i < 256 \<Longrightarrow> p1_pt pt t h \<Longrightarrow> p1_pt pt (f i t) (h + w i)"
    and nz: "\<And>i. i < 256 \<Longrightarrow> \<not> nz i \<Longrightarrow> w i = 0" and ex: "\<exists>i<256. nz i"
  shows "p3_pt pt (dsm_loop_p3 f (top_digit nz 256) ge_p2_0 r3) (\<Sum>i<256. zmul (2 ^ i) (w i))"
proof -
  define n where "n = top_digit nz 256"
  have n: "n \<le> 256" "0 < n" using ex top_digit_pos by (auto simp: n_def top_digit_le)
  have w: "w i = 0" if "n \<le> i" "i < 256" for i using top_digit_zero [of nz 256 i] nz [of i] that by (simp add: n_def)
  have "p3_pt pt (dsm_loop_p3 f n ge_p2_0 r3) (zmul (2 ^ n) 0 + (\<Sum>i<n. zmul (2 ^ i) (w i)))"
    using f n by (intro dsm_loop_p3_pt cg identity_pt) simp_all
  moreover have "(\<Sum>i<n. zmul (2 ^ i) (w i)) = (\<Sum>i<256. zmul (2 ^ i) (w i))"
    using n w by (intro sum.mono_neutral_left) auto
  ultimately show ?thesis by (simp add: n_def)
qed

lemma double_precomp_p3_pt:
  assumes cg: "curve_group pt" and t: "odd_multiples pt Ai g" "odd_multiples pt Bi h" and a: "scalar_ok a" "scalar_ok b"
    and nz: "le_nat a \<noteq> 0 \<or> le_nat b \<noteq> 0"
  shows "p3_pt pt (ge_double_scalarmult_precomp_vartime2_p3 r3 a Ai b Bi) (zmul (int (le_nat a)) g + zmul (int (le_nat b)) h)"
proof -
  have "p3_pt pt (ge_double_scalarmult_precomp_vartime2_p3 r3 a Ai b Bi)
      (\<Sum>i<256. zmul (2 ^ i) (zmul (sint (slide a ! i)) g + zmul (sint (slide b ! i)) h))"
    unfolding ge_double_scalarmult_precomp_vartime2_p3_def Let_def
  proof (rule dsm_result_p3_pt [OF cg])
    fix i :: nat and u k assume "i < 256" "p1_pt pt u k"
    then show "p1_pt pt (dsm_digit Bi (slide b ! i) (dsm_digit Ai (slide a ! i) u)) (k + (zmul (sint (slide a ! i)) g + zmul (sint (slide b ! i)) h))"
      using dsm_digit_pt [OF cg t(2) _ dsm_digit_pt [OF cg t(1)]] a by (simp add: slide_digit add.assoc)
  next
    show "\<exists>i<256. slide a ! i \<noteq> 0 \<or> slide b ! i \<noteq> 0" using slide_nonzero a nz by metis
  qed simp
  then show ?thesis unfolding sum_digits_2 using a by (simp add: slide_val)
qed

lemma double_base_p3_pt:
  assumes cg: "curve_group pt" and A: "p3_pt pt A g" and B: "base_multiples pt B" and a: "scalar_ok a" "scalar_ok b"
    and nz: "le_nat a \<noteq> 0 \<or> le_nat b \<noteq> 0"
  shows "p3_pt pt (ge_double_scalarmult_base_vartime_p3 r3 a A b) (zmul (int (le_nat a)) g + zmul (int (le_nat b)) B)"
proof -
  note t = ge_dsm_precomp_pt [OF cg A]
  have "p3_pt pt (ge_double_scalarmult_base_vartime_p3 r3 a A b)
      (\<Sum>i<256. zmul (2 ^ i) (zmul (sint (slide a ! i)) g + zmul (sint (slide b ! i)) B))"
    unfolding ge_double_scalarmult_base_vartime_p3_def Let_def
  proof (rule dsm_result_p3_pt [OF cg])
    fix i :: nat and u k assume "i < 256" "p1_pt pt u k"
    then show "p1_pt pt (dsm_digit_base (slide b ! i) (dsm_digit (ge_dsm_precomp A) (slide a ! i) u)) (k + (zmul (sint (slide a ! i)) g + zmul (sint (slide b ! i)) B))"
      using dsm_digit_base_pt [OF cg B _ dsm_digit_pt [OF cg t]] a by (simp add: slide_digit add.assoc)
  next
    show "\<exists>i<256. slide a ! i \<noteq> 0 \<or> slide b ! i \<noteq> 0" using slide_nonzero a nz by metis
  qed simp
  then show ?thesis unfolding sum_digits_2 using a by (simp add: slide_val)
qed

text \<open>With both scalars zero these two variants never write their result: they leave what was there before.\<close>

lemma slide_zero:
  assumes "\<And>i. i < 256 \<Longrightarrow> slide_bits a ! i = 0"
  shows "slide a = slide_bits a"
proof -
  have "fold (\<lambda>i r. if r ! i \<noteq> 0 then slide_window i 1 r else r) is (slide_bits a) = slide_bits a" if "\<forall>i\<in>set is. i < 256" for "is"
    using that by (induction "is") (simp_all add: assms)
  then show ?thesis by (simp add: slide_def)
qed

lemma slide_zeros: "i < 256 \<Longrightarrow> slide (replicate 32 0) ! i = 0"
proof -
  have b: "slide_bits (replicate 32 0) ! i = 0" if "i < 256" for i
    using that by (simp add: slide_bits_def less_mult_imp_div_less)
  assume "i < 256"
  then show ?thesis using slide_zero [OF b] b by simp
qed

lemma top_digit_none: "(\<And>i. i < n \<Longrightarrow> \<not> nz i) \<Longrightarrow> top_digit nz n = 0"
  by (induction n) simp_all

lemma zero_scalars_unwritten:
  "ge_double_scalarmult_base_vartime_p3 r3 (replicate 32 0) A (replicate 32 0) = r3"
  "ge_double_scalarmult_precomp_vartime2_p3 r3 (replicate 32 0) Ai (replicate 32 0) Bi = r3"
  by (simp_all add: ge_double_scalarmult_base_vartime_p3_def ge_double_scalarmult_precomp_vartime2_p3_def Let_def slide_zeros top_digit_none)

section \<open>Properties\<close>

lemma le_nat_single: "le_nat (b # replicate n 0) = unat b"
  by (induction n) simp_all

text \<open>A reading: the points of order dividing four, (0, 1), (i, 0), (0, -1) and (-i, 0), as the integers modulo four.\<close>

definition four_x :: "2 word \<Rightarrow> fp" where
  "four_x g = (if g = 1 then fe_val fe_sqrtm1 else if g = 3 then - fe_val fe_sqrtm1 else 0)"

definition four_y :: "2 word \<Rightarrow> fp" where
  "four_y g = (if g = 0 then 1 else if g = 2 then - 1 else 0)"

definition four_pt :: "fp \<Rightarrow> fp \<Rightarrow> fp \<Rightarrow> 2 word \<Rightarrow> bool" where
  "four_pt X Y Z g \<longleftrightarrow> (\<exists>iz. Z * iz = 1) \<and> X = four_x g * Z \<and> Y = four_y g * Z"

lemma word2_cases: obtains "g = (0 :: 2 word)" | "g = 1" | "g = 2" | "g = 3"
proof -
  have "unat g < 2 ^ LENGTH(2)" by (rule unsigned_less)
  then have "unat g \<in> {0, 1, 2, 3}" by auto
  then have "(word_of_nat (unat g) :: 2 word) \<in> word_of_nat ` {0, 1, 2, 3}" by (rule imageI)
  then have "g = 0 \<or> g = 1 \<or> g = 2 \<or> g = 3" by simp
  then show ?thesis using that by blast
qed

lemma four_neg: "four_x (- g) = - four_x g" "four_y (- g) = four_y g"
  by (cases g rule: word2_cases; simp add: four_x_def four_y_def)+

lemma four_sqrt: "fe_val fe_sqrtm1 * fe_val fe_sqrtm1 = - 1"
  using fe_sqrtm1_square by (simp add: power2_eq_square)

lemma four_laws: "four_x (g + h) = four_x g * four_y h + four_y g * four_x h" "four_y (g + h) = four_y g * four_y h + four_x g * four_x h"
  by (cases g rule: word2_cases; cases h rule: word2_cases; simp add: four_x_def four_y_def four_sqrt)+

lemma four_norm: "four_x g * four_y g = 0" "four_y g * four_y g - four_x g * four_x g = 1"
  by (cases g rule: word2_cases; simp add: four_x_def four_y_def four_sqrt)+

lemma units: "X * a = 1 \<Longrightarrow> Y * b = 1 \<Longrightarrow> X * Y * (a * b) = (1 :: fp)"
  by (metis mult.assoc mult.left_commute mult_1)

lemma unit_2: "\<exists>h. (2 :: fp) * h = 1"
proof -
  have "(of_int (2 * ((p25519 + 1) div 2)) :: fp) = of_int 1" by (rule of_int_fpI) code_simp
  then show ?thesis unfolding of_int_mult of_int_numeral of_int_1 by (rule exI)
qed

lemma four_reading: "curve_group four_pt"
  unfolding curve_group_def Let_def
proof (intro conjI allI impI)
  show "four_pt 0 1 1 0" by (simp add: four_pt_def four_x_def four_y_def)
  show "four_pt (- X) Y Z (- g)" if "four_pt X Y Z g" for X Y Z g using that by (simp add: four_pt_def four_neg)
next
  fix X Y Z g assume "four_pt X Y Z g"
  then obtain iz where Z: "Z * iz = 1" "X = four_x g * Z" "Y = four_y g * Z" by (auto simp: four_pt_def)
  have E: "X * Y = 0" unfolding Z using four_norm(1) [of g] by (simp add: ac_simps)
  have "Y * Y - X * X = (four_y g * four_y g - four_x g * four_x g) * (Z * Z)" unfolding Z by (simp add: algebra_simps)
  then have G: "Y * Y - X * X = Z * Z" unfolding four_norm by simp
  have H: "Y * Y + X * X = four_y (g + g) * (Z * Z)" unfolding Z four_laws by (simp add: algebra_simps)
  have "four_x (g + g) = 0" unfolding four_laws using four_norm(1) [of g] by (simp add: ac_simps)
  moreover have "Z * Z * (Z * Z) * (iz * iz * (iz * iz)) = 1" by (intro units Z)
  ultimately show "four_pt (2 * (X * Y) * (2 * (Z * Z) - (Y * Y - X * X))) ((Y * Y + X * X) * (Y * Y - X * X))
     ((Y * Y - X * X) * (2 * (Z * Z) - (Y * Y - X * X))) (g + g)"
    unfolding E G H four_pt_def by (auto simp: ac_simps)
next
  fix X1 Y1 Z1 T1 X2 Y2 Z2 T2 g h
  assume a: "four_pt X1 Y1 Z1 g" "four_pt X2 Y2 Z2 h" "T1 * Z1 = X1 * Y1" "T2 * Z2 = X2 * Y2"
  obtain i1 i2 where Z: "Z1 * i1 = 1" "X1 = four_x g * Z1" "Y1 = four_y g * Z1" "Z2 * i2 = 1" "X2 = four_x h * Z2" "Y2 = four_y h * Z2"
    using a(1,2) by (auto simp: four_pt_def)
  have "T1 = T1 * Z1 * i1" using Z(1) by (simp add: mult.assoc)
  also have "\<dots> = 0" unfolding a(3) Z(2,3) using four_norm(1) [of g] by (simp add: ac_simps)
  finally have T: "T1 = 0" .
  obtain k :: fp where k: "2 * k = 1" using unit_2 ..
  have u: "\<exists>iz. 2 * (Z1 * Z2) * (2 * (Z1 * Z2)) * iz = 1"
    by (rule exI [of _ "k * (i1 * i2) * (k * (i1 * i2))"]) (intro units k Z)
  have E: "X1 * Y2 + Y1 * X2 = four_x (g + h) * (Z1 * Z2)" "Y1 * Y2 + X1 * X2 = four_y (g + h) * (Z1 * Z2)"
    unfolding Z four_laws by (simp_all add: algebra_simps)
  show "four_pt (2 * (X1 * Y2 + Y1 * X2) * (2 * (Z1 * Z2) - 2 * fe_val fe_d * (T1 * T2)))
     (2 * (Y1 * Y2 + X1 * X2) * (2 * (Z1 * Z2) + 2 * fe_val fe_d * (T1 * T2)))
     ((2 * (Z1 * Z2) + 2 * fe_val fe_d * (T1 * T2)) * (2 * (Z1 * Z2) - 2 * fe_val fe_d * (T1 * T2))) (g + h)"
    unfolding E T four_pt_def using u by (simp add: ac_simps)
qed

definition ge_four :: ge_p3 where
  "ge_four = \<lparr>p3_X = fe_sqrtm1, p3_Y = fe_0, p3_Z = fe_1, p3_T = fe_0\<rparr>"

lemma ge_four_reading: "p3_pt four_pt ge_four 1"
proof -
  have "fe_bounded 1 fe_sqrtm1" by code_simp
  then show ?thesis by (auto simp: p3_pt_def p3_ok_def ge_four_def fe_01 four_pt_def four_x_def four_y_def)
qed


lemma scalar_5: "length (5 # replicate 31 (0 :: u8)) = 32" "le_nat (5 # replicate 31 0) < 2 ^ 255" "le_nat (5 # replicate 31 0) = 5"
  and scalar_7: "length (7 # replicate 31 (0 :: u8)) = 32" "le_nat (7 # replicate 31 0) < 2 ^ 255" "le_nat (7 # replicate 31 0) = 7"
  by (simp_all only: le_nat_single) simp_all

lemma four_multiples: "zmul (int (le_nat (5 # replicate 31 0))) (1 :: 2 word) = 1" "zmul (int (le_nat (7 # replicate 31 0))) (1 :: 2 word) = 3"
  unfolding scalar_5(3) scalar_7(3) by code_simp+

text \<open>C25: \<open>ge_scalarmult\<close> and \<open>ge_scalarmult_p3\<close> return a representation of the scalar's multiple of the point, for every
  scalar below 2^255: whatever abelian group the curve's addition formulas are read in, the result stands for
  the multiple of the element the point stands for. In particular no assertion fails.\<close>

theorem ge_scalarmult_correct:
  assumes "curve_group pt" "p3_pt pt A g" "length a = 32" "le_nat a < 2 ^ 255"
  shows "\<exists>q q3. ge_scalarmult a A = Some q \<and> p2_pt pt q (zmul (int (le_nat a)) g) \<and>
    ge_scalarmult_p3 r3 a A = Some q3 \<and> p3_pt pt q3 (zmul (int (le_nat a)) g)"
  using ge_scalarmult_pt [OF assms] ge_scalarmult_p3_pt [OF assms(1,2)] assms(3,4) by auto

theorem ge_scalarmult_correct_witness:
  "\<exists>q. ge_scalarmult (5 # replicate 31 0) ge_four = Some q \<and> fe_val (p2_X q) = fe_val fe_sqrtm1 * fe_val (p2_Z q) \<and> fe_val (p2_Y q) = 0"
  using ge_scalarmult_correct [OF four_reading ge_four_reading scalar_5(1,2), of undefined] unfolding four_multiples
  by (auto simp: p2_pt_def four_pt_def four_x_def four_y_def)



text \<open>C27: The three recodings of a scalar below 2^255 stand for the scalar: the digits of \<open>slide\<close> in base 2 are zero or
  odd between -15 and 15, with at least four zeros after each that is not zero; those of \<open>ge_scalarmult_base\<close> and \<open>ge_scalarmult\<close> in
  base 16 are between -8 and 8.\<close>

theorem scalar_recodings:
  assumes "length a = 32" "le_nat a < 2 ^ 255"
  shows "(\<Sum>i<256. sint (slide a ! i) * 2 ^ i) = int (le_nat a) \<and> (\<forall>i<256. window_digit (slide a ! i)) \<and>
    (\<forall>i j. i < j \<and> j < i + 5 \<and> j < 256 \<and> slide a ! i \<noteq> 0 \<longrightarrow> slide a ! j = 0) \<and>
    (\<Sum>i<64. sint (base_digits a ! i) * 16 ^ i) = int (le_nat a) \<and> (\<forall>i<64. \<bar>sint (base_digits a ! i)\<bar> \<le> 8) \<and>
    (\<Sum>i<64. sint (scalar_digits a ! i) * 16 ^ i) = int (le_nat a) \<and> (\<forall>i<64. \<bar>sint (scalar_digits a ! i)\<bar> \<le> 8)"
proof -
  have "\<forall>i j. i < j \<and> j < i + 5 \<and> j < 256 \<and> slide a ! i \<noteq> 0 \<longrightarrow> slide a ! j = 0"
    using slide_outer_final [OF assms] unfolding slide_outer_def by (meson less_trans)
  then show ?thesis
    using slide_val [OF assms] slide_digit [OF assms] base_digits_val(2) [OF assms(1)] scalar_digits_val(2) [OF assms(1)]
      scalar_digit_range [OF assms] by (simp add: lval_def)
qed

theorem scalar_recodings_witness:
  "(\<Sum>i<256. sint (slide (255 # replicate 31 0) ! i) * 2 ^ i) = 255"
proof -
  have "length (255 # replicate 31 (0 :: u8)) = 32" "le_nat (255 # replicate 31 0) < 2 ^ 255" "le_nat (255 # replicate 31 0) = 255"
    by (simp_all only: le_nat_single) simp_all
  with scalar_recodings [of "255 # replicate 31 0"] show ?thesis by simp
qed

text \<open>C28: The constant-time multiplications end on every scalar without a failed assertion, and the coordinates of their
  results are reduced field elements.\<close>

theorem scalarmult_total:
  assumes "p3_ok A"
  shows "(\<exists>h. ge_scalarmult_base a = Some h \<and> p3_ok h) \<and> (\<exists>r. ge_scalarmult a A = Some r \<and> p2_ok r) \<and>
    (\<exists>r. ge_scalarmult_p3 r3 a A = Some r \<and> p3_ok r)"
  using ge_scalarmult_base_total [of a] scalar_loop_total [OF _ scalar_table_ok(2) [OF assms] identity_ok(2)]
    scalar_loop_p3_total [OF _ scalar_table_ok(2) [OF assms] identity_ok(2)] scalar_table_ok(1) [OF assms]
  by (simp add: ge_scalarmult_def ge_scalarmult_p3_def Let_def)

theorem scalarmult_total_witness: "\<exists>r. ge_scalarmult (replicate 32 255) ge_p3_0 = Some r \<and> p2_ok r"
  using scalarmult_total [OF identity_ok(1), of "replicate 32 255"] by blast

end
