(* ===== verification/Point_Encoding.thy ===== *)
theory Point_Encoding
  imports Curve_Points
begin

text \<open>
  Reading points from 32 bytes, as in \<open>crypto/crypto-ops.c\<close>: \<open>ge_frombytes_vartime\<close>, whose \<open>None\<close> is the return value -1
  (what it has written to the result by then is not modelled, callers discard it), and the map \<open>ge_fromfe_frombytes_vartime\<close>
  from bytes to curve points, whose \<open>None\<close> is a failed assertion. The lemmas show that the first accepts only canonical
  encodings of points of the curve, and that \<open>ge_p3_tobytes\<close> gives the bytes back.
\<close>

unbundle bit_operations_syntax

section \<open>Reading a field element\<close>

text \<open>The limbs as both functions load them; they differ in the top limb.\<close>

definition frombytes_limbs :: "bytes \<Rightarrow> u64 \<Rightarrow> limbs" where
  "frombytes_limbs s h9 =
    [load_4 s 0,
     push_bit 6 (load_3 s 4),
     push_bit 5 (load_3 s 7),
     push_bit 3 (load_3 s 10),
     push_bit 2 (load_3 s 13),
     load_4 s 16,
     push_bit 7 (load_3 s 20),
     push_bit 5 (load_3 s 23),
     push_bit 4 (load_3 s 26),
     h9]"

definition frombytes_carries :: "limbs \<Rightarrow> fe" where
  "frombytes_carries h =
     (let h = fe_carry9 h;
          h = fold fe_carry [1, 3, 5, 7] h;
          h = fold fe_carry [0, 2, 4, 6, 8] h
      in map ucast h)"

text \<open>The test of the limbs for a number that is not below 2^255 - 19.\<close>

definition not_canonical :: "limbs \<Rightarrow> bool" where
  "not_canonical h \<longleftrightarrow> h ! 9 = 33554428 \<and> h ! 8 = 268435440 \<and> h ! 7 = 536870880 \<and> h ! 6 = 2147483520 \<and>
     h ! 5 = 4294967295 \<and> h ! 4 = 67108860 \<and> h ! 3 = 134217720 \<and> h ! 2 = 536870880 \<and>
     h ! 1 = 1073741760 \<and> 4294967277 \<le> sint (h ! 0)"

section \<open>Decompression\<close>

text \<open>The candidate root, corrected by the square root of -1 where its square has the wrong sign.\<close>

definition frombytes_root :: "fe \<Rightarrow> fe \<Rightarrow> fe option" where
  "frombytes_root u v =
     (let X = fe_divpowm1 u v;
          vxx = fe_sq X;
          vxx = fe_mul vxx v;
          check = fe_sub vxx u
      in if fe_isnonzero check \<noteq> 0 then
           let check = fe_add vxx u
           in if fe_isnonzero check \<noteq> 0 then None
              else Some (fe_mul X fe_sqrtm1)
         else Some X)"

text \<open>The choice of the sign; zero has no negative.\<close>

definition frombytes_sign :: "fe \<Rightarrow> u8 \<Rightarrow> fe option" where
  "frombytes_sign X b =
     (if fe_isnegative X \<noteq> ucast (drop_bit 7 b) then
        if \<not> fe_isnonzero X \<noteq> 0 then None
        else Some (fe_neg X)
      else Some X)"

definition ge_frombytes_vartime :: "bytes \<Rightarrow> ge_p3 option" where
  "ge_frombytes_vartime s =
     (let h = frombytes_limbs s (push_bit 2 (load_3 s 29 AND 8388607))
      in if not_canonical h then None
         else
           let Y = frombytes_carries h;
               Z = fe_1;
               u = fe_sq Y;
               v = fe_mul u fe_d;
               u = fe_sub u Z;
               v = fe_add v Z
           in Option.bind (frombytes_root u v) (\<lambda>X.
              Option.bind (frombytes_sign X (s ! 31)) (\<lambda>X.
              Some \<lparr>p3_X = X, p3_Y = Y, p3_Z = Z, p3_T = fe_mul X Y\<rparr>)))"

section \<open>Hashing to a point\<close>

text \<open>The root for the two branches: the multiplier, \<open>z\<close> and the sign it comes with.\<close>

definition fromfe_root :: "fe \<Rightarrow> fe \<Rightarrow> fe \<Rightarrow> fe \<Rightarrow> (fe \<times> fe \<times> u8) option" where
  "fromfe_root u v w x =
     (let X = fe_divpowm1 w x;
          y = fe_sq X;
          x = fe_mul y x;
          y = fe_sub w x;
          z = fe_copy fe_ma;
          positive = (\<lambda>X. Some (fe_mul X u, fe_mul z v, 0))
      in if fe_isnonzero y \<noteq> 0 then
           let y = fe_add w x
           in if fe_isnonzero y \<noteq> 0 then
                let x = fe_mul x fe_sqrtm1;
                    y = fe_sub w x
                in if fe_isnonzero y \<noteq> 0 then
                     let y = fe_add w x
                     in if fe_isnonzero y \<noteq> 0 then None
                        else Some (fe_mul X fe_fffb3, z, 1)
                   else Some (fe_mul X fe_fffb4, z, 1)
              else positive (fe_mul X fe_fffb1)
         else positive (fe_mul X fe_fffb2))"

definition fromfe_setsign :: "fe \<Rightarrow> u8 \<Rightarrow> fe option" where
  "fromfe_setsign X sign =
     (if fe_isnegative X \<noteq> ucast sign then
        if fe_isnonzero X \<noteq> 0 then Some (fe_neg X) else None
      else Some X)"

text \<open>The check that the result is on the curve, compiled in unless assertions are off.\<close>

definition fromfe_check :: "ge_p2 \<Rightarrow> bool" where
  "fromfe_check r =
     (let check_iz = fe_invert (p2_Z r);
          check_x = fe_mul (p2_X r) check_iz;
          check_y = fe_mul (p2_Y r) check_iz;
          check_x = fe_sq check_x;
          check_y = fe_sq check_y;
          check_v = fe_mul check_x check_y;
          check_v = fe_mul fe_d check_v;
          check_v = fe_add check_v check_x;
          check_v = fe_sub check_v check_y;
          check_x = fe_1;
          check_v = fe_add check_v check_x
      in \<not> fe_isnonzero check_v \<noteq> 0)"

definition ge_fromfe_frombytes_vartime :: "bytes \<Rightarrow> ge_p2 option" where
  "ge_fromfe_frombytes_vartime s =
     (let u = frombytes_carries (frombytes_limbs s (push_bit 2 (load_3 s 29)));
          v = fe_sq2 u;
          w = fe_1;
          w = fe_add v w;
          x = fe_sq w;
          y = fe_mul fe_ma2 v;
          x = fe_add x y
      in Option.bind (fromfe_root u v w x) (\<lambda>(X, z, sign).
         Option.bind (fromfe_setsign X sign) (\<lambda>X.
         let Z = fe_add z w;
             Y = fe_sub z w;
             X = fe_mul X Z;
             r = \<lparr>p2_X = X, p2_Y = Y, p2_Z = Z\<rparr>
         in if fromfe_check r then Some r else None)))"

section \<open>The number in the limbs\<close>

lemma unat_shl_small: "unat w * 2 ^ n < 2 ^ 63 \<Longrightarrow> sint (push_bit n w) = int (unat w) * 2 ^ n" for w :: u64
proof -
  assume a: "unat w * 2 ^ n < 2 ^ 63"
  have m: "unat w * 2 ^ n mod 2 ^ 64 = unat w * 2 ^ n"
    by (rule mod_less) (rule less_trans [OF a], simp)
  have e: "unat (push_bit n w) = unat w * 2 ^ n" using unat_shl [of n w] m by simp
  have "sint (push_bit n w) = int (unat (push_bit n w))" by (rule sint_unat) (use a e in simp)
  then show ?thesis unfolding e by (simp only: of_nat_mult of_nat_power of_nat_numeral)
qed

lemma load_3_shl: "k + 3 \<le> length s \<Longrightarrow> n \<le> 7 \<Longrightarrow> sint (push_bit n (load_3 s k)) = int (le_nat s div 2 ^ (8 * k) mod 2 ^ 24) * 2 ^ n"
proof -
  assume k: "k + 3 \<le> length s" and n: "n \<le> 7"
  have l: "unat (load_3 s k) < 2 ^ 24" unfolding load_3_nat [OF k] by simp
  have "(2::nat) ^ n \<le> 2 ^ 7" using n by (intro power_increasing) simp_all
  then have "unat (load_3 s k) * 2 ^ n < 2 ^ 24 * 2 ^ 7" using l by (intro mult_less_le_imp_less) simp_all
  then show ?thesis using unat_shl_small [of "load_3 s k" n] unfolding load_3_nat [OF k] by simp
qed

lemma load_4_sint: "k + 4 \<le> length s \<Longrightarrow> sint (load_4 s k) = int (le_nat s div 2 ^ (8 * k) mod 2 ^ 32)"
proof -
  assume k: "k + 4 \<le> length s"
  have "unat (load_4 s k) < 2 ^ 32" unfolding load_4_nat [OF k] by simp
  then show ?thesis using sint_unat [of "load_4 s k"] unfolding load_4_nat [OF k] by simp
qed

lemma top_limb_masked: "length s = 32 \<Longrightarrow> sint (push_bit 2 (load_3 s 29 AND 8388607)) = int (le_nat s div 2 ^ 232 mod 2 ^ 23) * 4"
proof -
  assume s: "length s = 32"
  have m: "(8388607 :: u64) = mask 23" by (simp add: mask_eq_exp_minus_1)
  have u: "unat (load_3 s 29 AND 8388607) = le_nat s div 2 ^ 232 mod 2 ^ 23"
    unfolding m unat_and_mask using load_3_nat [of 29 s] s by (simp add: mod_mod_cancel)
  then have "unat (load_3 s 29 AND 8388607) < 2 ^ 23" by simp
  then show ?thesis using unat_shl_small [of "load_3 s 29 AND 8388607" 2] unfolding u by simp
qed

text \<open>A number cut into windows.\<close>

lemma window_split: "x mod 2 ^ (a + b) = x mod 2 ^ a + 2 ^ a * (x div 2 ^ a mod 2 ^ b)" for x :: nat
  by (simp only: power_add mod_mult2_eq)

definition limb_window :: "nat \<Rightarrow> nat \<Rightarrow> nat" where
  "limb_window N i = N div 2 ^ ([0, 32, 56, 80, 104, 128, 160, 184, 208, 232] ! i) mod
     2 ^ ([32, 24, 24, 24, 24, 32, 24, 24, 24, 23] ! i)"

lemma length_frombytes_limbs [simp]: "length (frombytes_limbs s h) = 10"
  by (simp add: frombytes_limbs_def)

abbreviation y_limbs :: "bytes \<Rightarrow> limbs" where
  "y_limbs s \<equiv> frombytes_limbs s (push_bit 2 (load_3 s 29 AND 8388607))"

lemma y_limbs_sint:
  assumes "length s = 32"
  shows "map sint (y_limbs s) = map (\<lambda>i. int (limb_window (le_nat s) i) * 2 ^ ([0, 6, 5, 3, 2, 0, 7, 5, 4, 2] ! i)) [0..<10]"
proof -
  let ?f = "\<lambda>i. int (limb_window (le_nat s) i) * 2 ^ ([0, 6, 5, 3, 2, 0, 7, 5, 4, 2] ! i)"
  have low: "map sint (frombytes_limbs s h9) = map ?f [0..<9] @ [sint h9]" for h9
    using assms by (simp add: frombytes_limbs_def load_3_shl load_4_sint limb_window_def upt_conv_Cons flip: One_nat_def)
  have "?f 9 = int (le_nat s div 2 ^ 232 mod 2 ^ 23) * 4" by (simp add: limb_window_def)
  moreover have "[0..<10] = [0..<9] @ [9 :: nat]" using upt_Suc [of 0 9] by simp
  ultimately show ?thesis unfolding low top_limb_masked [OF assms] by (simp only: map_append list.map)
qed

lemma limb_windows_value: "(\<Sum>i\<leftarrow>[0..<10]. int (limb_window N i) * 2 ^ ([0, 6, 5, 3, 2, 0, 7, 5, 4, 2] ! i) * fw i) = int (N mod 2 ^ 255)"
proof -
  have "N mod 2 ^ 255 = N mod 2 ^ 32 + 2 ^ 32 * (N div 2 ^ 32 mod 2 ^ 24) + 2 ^ 56 * (N div 2 ^ 56 mod 2 ^ 24) + 2 ^ 80 * (N div 2 ^ 80 mod 2 ^ 24) +
    2 ^ 104 * (N div 2 ^ 104 mod 2 ^ 24) + 2 ^ 128 * (N div 2 ^ 128 mod 2 ^ 32) + 2 ^ 160 * (N div 2 ^ 160 mod 2 ^ 24) +
    2 ^ 184 * (N div 2 ^ 184 mod 2 ^ 24) + 2 ^ 208 * (N div 2 ^ 208 mod 2 ^ 24) + 2 ^ 232 * (N div 2 ^ 232 mod 2 ^ 23)"
  proof -
    have w: "N mod 2 ^ c = N mod 2 ^ a + 2 ^ a * (N div 2 ^ a mod 2 ^ b)" if "c = a + b" for a b c
      unfolding that by (rule window_split)
    note w = w [of 255 232 23] w [of 232 208 24] w [of 208 184 24] w [of 184 160 24] w [of 160 128 32] w [of 128 104 24]
      w [of 104 80 24] w [of 80 56 24] w [of 56 32 24]
    show ?thesis by (subst w, simp)+ (rule refl)
  qed
  then show ?thesis by (simp add: limb_window_def fw_def upt_conv_Cons flip: One_nat_def)
qed

lemma y_limb:
  assumes "length s = 32" "i < 10"
  shows "sint (y_limbs s ! i) = int (limb_window (le_nat s) i) * 2 ^ ([0, 6, 5, 3, 2, 0, 7, 5, 4, 2] ! i)"
proof -
  have "map sint (y_limbs s) ! i = map (\<lambda>i. int (limb_window (le_nat s) i) * 2 ^ ([0, 6, 5, 3, 2, 0, 7, 5, 4, 2] ! i)) [0..<10] ! i"
    unfolding y_limbs_sint [OF assms(1)] ..
  then show ?thesis using assms(2) by (simp only: nth_map length_frombytes_limbs length_upt nth_upt minus_nat.diff_0 add_0)
qed

lemma y_limbs_value:
  assumes "length s = 32"
  shows "fe_int (y_limbs s) = int (le_nat s mod 2 ^ 255)"
proof -
  note n = y_limb [OF assms]
  have "fe_int (y_limbs s) = (\<Sum>i\<leftarrow>[0..<10]. sint (y_limbs s ! i) * fw i)"
    unfolding lval_def by (simp add: interv_sum_list_conv_sum_set_nat atLeast0LessThan)
  also have "\<dots> = (\<Sum>i\<leftarrow>[0..<10]. int (limb_window (le_nat s) i) * 2 ^ ([0, 6, 5, 3, 2, 0, 7, 5, 4, 2] ! i) * fw i)"
    by (intro arg_cong [of _ _ sum_list] map_cong) (simp_all only: n set_upt atLeastLessThan_iff)
  finally show ?thesis unfolding limb_windows_value .
qed

definition frombytes_start :: bounds where
  "frombytes_start = map (\<lambda>b. (0, 2 ^ b)) [32, 30, 29, 27, 26, 32, 31, 29, 28, 26]"

definition frombytes_bounds :: "bounds \<Rightarrow> bounds option" where
  "frombytes_bounds B = Option.bind (fe_carry9_bounds B) (\<lambda>B. Option.bind (each fe_carry_bounds [1, 3, 5, 7] B) (each fe_carry_bounds [0, 2, 4, 6, 8]))"

lemma frombytes_bounds_ok:
  "case frombytes_bounds frombytes_start of None \<Rightarrow> False
   | Some B \<Rightarrow> length B = 10 \<and> list_all (\<lambda>i. - fe_limit i \<le> fst (B ! i) \<and> snd (B ! i) \<le> fe_limit i) [0..<10]"
  by code_simp

lemma frombytes_window: "i < 10 \<Longrightarrow> limb_window N i * 2 ^ ([0, 6, 5, 3, 2, 0, 7, 5, 4, 2] ! i) \<le> 2 ^ ([32, 30, 29, 27, 26, 32, 31, 29, 28, 26] ! i)"
proof -
  assume i: "i < 10"
  let ?b = "[32, 24, 24, 24, 24, 32, 24, 24, 24, 23] :: nat list" and ?c = "[0, 6, 5, 3, 2, 0, 7, 5, 4, 2] :: nat list"
    and ?d = "[32, 30, 29, 27, 26, 32, 31, 29, 28, 26] :: nat list"
  have "list_all (\<lambda>i. ?b ! i + ?c ! i \<le> ?d ! i) [0..<10]" by code_simp
  then have "?b ! i + ?c ! i \<le> ?d ! i" using i by (simp only: list_all_iff set_upt) simp
  then have "(2::nat) ^ (?b ! i) * 2 ^ (?c ! i) \<le> 2 ^ (?d ! i)" unfolding power_add [symmetric] by (rule power_increasing) simp
  moreover have "limb_window N i \<le> 2 ^ (?b ! i)" by (simp add: limb_window_def less_imp_le)
  then have "limb_window N i * 2 ^ (?c ! i) \<le> 2 ^ (?b ! i) * 2 ^ (?c ! i)" by (rule mult_le_mono1)
  ultimately show ?thesis by (rule order_trans [rotated])
qed

lemma frombytes_start_bounded: "length s = 32 \<Longrightarrow> bounded frombytes_start (y_limbs s)"
proof -
  assume s: "length s = 32"
  show ?thesis unfolding bounded_def list_all2_conv_all_nth within_def
  proof (intro conjI allI impI)
    show "length frombytes_start = length (y_limbs s)" by (simp add: frombytes_start_def)
    fix i assume "i < length frombytes_start"
    then have i: "i < 10" by (simp add: frombytes_start_def)
    let ?d = "[32, 30, 29, 27, 26, 32, 31, 29, 28, 26] :: nat list"
    have b: "frombytes_start ! i = (0, 2 ^ (?d ! i))" unfolding frombytes_start_def using i by (intro nth_map) simp
    show "fst (frombytes_start ! i) \<le> sint (y_limbs s ! i)" unfolding b y_limb [OF s i] by simp
    show "sint (y_limbs s ! i) \<le> snd (frombytes_start ! i)"
      unfolding b y_limb [OF s i] snd_conv
      using of_nat_mono [OF frombytes_window [OF i, of "le_nat s"], where 'a = int] by (simp only: of_nat_mult of_nat_power of_nat_numeral)
  qed
qed

lemma frombytes_carries_value:
  assumes h: "length h = 10" "bounded frombytes_start h"
  shows "fe_bounded 1 (frombytes_carries h)" "fe_val (frombytes_carries h) = of_int (fe_int h)"
proof -
  obtain B where B: "frombytes_bounds frombytes_start = Some B" "\<And>i. i < 10 \<Longrightarrow> - fe_limit i \<le> fst (B ! i) \<and> snd (B ! i) \<le> fe_limit i"
    using frombytes_bounds_ok by (auto simp: list_all_iff split: option.splits)
  have "fe_sound (\<lambda>h. fold fe_carry [0, 2, 4, 6, 8] (fold fe_carry [1, 3, 5, 7] (fe_carry9 h))) frombytes_bounds"
  proof -
    have "fe_sound (fold fe_carry [1, 3, 5, 7]) (each fe_carry_bounds [1, 3, 5, 7])"
      "fe_sound (fold fe_carry [0, 2, 4, 6, 8]) (each fe_carry_bounds [0, 2, 4, 6, 8])"
      by (rule sound_each; auto intro: sound_fe_carry)+
    from sound_comp [OF sound_fe_carry9 sound_comp [OF this]] show ?thesis unfolding frombytes_bounds_def [abs_def] .
  qed
  note snd = soundD [OF this h(1)]
  define t where "t = fold fe_carry [0, 2, 4, 6, 8] (fold fe_carry [1, 3, 5, 7] (fe_carry9 h))"
  have t: "length t = 10" "bounded B t" using snd(1) snd(2) [OF B(1) h(2)] by (simp_all add: t_def)
  obtain q where q: "fe_int t = fe_int h + q * p25519" using snd(3) [OF B(1) h(2)] by (auto simp: t_def)
  have f: "frombytes_carries h = map ucast t" by (simp add: frombytes_carries_def Let_def t_def)
  have lim: "\<bar>sint (t ! i)\<bar> \<le> fe_limit i" if "i < 10" for i
    using bounded_nth [OF t(2), of i] B(2) [OF that] t(1) that by (auto simp: abs_le_iff)
  have n: "fe_bounded 1 (map ucast t)" "fe_int (map ucast t :: fe) = fe_int t" by (rule fe_narrow [OF t(1) lim], assumption)+
  show "fe_bounded 1 (frombytes_carries h)" unfolding f by (rule n(1))
  show "fe_val (frombytes_carries h) = of_int (fe_int h)" unfolding f fe_val_def n(2) q by simp
qed

lemma frombytes_value:
  assumes "length s = 32"
  shows "fe_bounded 1 (frombytes_carries (y_limbs s))" "fe_val (frombytes_carries (y_limbs s)) = of_nat (le_nat s mod 2 ^ 255)"
  using frombytes_carries_value [OF length_frombytes_limbs frombytes_start_bounded [OF assms]]
  unfolding y_limbs_value [OF assms] by simp_all

section \<open>The canonical range\<close>

lemma window_mod: "o' + w \<le> n \<Longrightarrow> (N mod 2 ^ n) div 2 ^ o' mod 2 ^ w = N div 2 ^ o' mod 2 ^ w" for N :: nat
proof -
  assume "o' + w \<le> n"
  then obtain k where n: "n = o' + w + k" by (metis le_add_diff_inverse)
  have "(N mod 2 ^ n) div 2 ^ o' = N div 2 ^ o' mod 2 ^ (w + k)" unfolding n add.assoc power_add [of 2 o'] by (simp add: mod_mult2_eq)
  then show ?thesis by (simp add: mod_mod_cancel le_imp_power_dvd)
qed

lemma limb_window_mod: "i < 10 \<Longrightarrow> limb_window (N mod 2 ^ 255) i = limb_window N i"
proof -
  assume i: "i < 10"
  let ?o = "[0, 32, 56, 80, 104, 128, 160, 184, 208, 232] :: nat list" and ?w = "[32, 24, 24, 24, 24, 32, 24, 24, 24, 23] :: nat list"
  have "list_all (\<lambda>i. ?o ! i + ?w ! i \<le> 255) [0..<10]" by code_simp
  then have "?o ! i + ?w ! i \<le> 255" using i by (simp only: list_all_iff set_upt) simp
  then show ?thesis unfolding limb_window_def by (rule window_mod)
qed

lemma top_window:
  assumes M: "2 ^ 255 - 2 ^ 32 \<le> M" "M < 2 ^ 255" and "32 \<le> k" "k + w \<le> 255"
  shows "(M::nat) div 2 ^ k mod 2 ^ w = 2 ^ w - 1"
proof -
  obtain j where j: "255 = k + j" using assms(4) by (metis add_leD1 le_add_diff_inverse)
  have "(2::nat) ^ 32 \<le> 2 ^ k" using assms(3) by (intro power_increasing) simp_all
  then have "2 ^ k * (2 ^ j - 1) \<le> M" using M(1) unfolding j power_add diff_mult_distrib2 by linarith
  moreover have "M < 2 ^ k * Suc (2 ^ j - 1)" using M(2) unfolding j power_add by simp
  ultimately have "M div 2 ^ k = 2 ^ j - 1" by (intro div_nat_eqI) (simp_all only: mult.commute)
  moreover have "w \<le> j" using assms(4) j by linarith
  then have "take_bit w (mask j :: nat) = mask w" by (simp add: take_bit_of_mask min_absorb1)
  ultimately show ?thesis by (simp add: take_bit_eq_mod mask_eq_exp_minus_1)
qed

lemma y_limbs_sum: "length s = 32 \<Longrightarrow> (\<Sum>i\<leftarrow>[0..<10]. sint (y_limbs s ! i) * fw i) = int (le_nat s mod 2 ^ 255)"
  using y_limbs_value [of s] unfolding lval_def by (simp add: interv_sum_list_conv_sum_set_nat atLeast0LessThan)

definition canonical_limbs :: "int list" where
  "canonical_limbs = [0, 1073741760, 536870880, 134217720, 67108860, 4294967295, 2147483520, 536870880, 268435440, 33554428]"

lemma not_canonical_sint:
  "not_canonical h \<longleftrightarrow> (\<forall>i\<in>{1..<10}. sint (h ! i) = canonical_limbs ! i) \<and> 4294967277 \<le> sint (h ! 0)"
proof -
  have s: "h ! i = c \<longleftrightarrow> sint (h ! i) = sint c" for i c using signed_word_eqI by metis
  have c: "map sint [1073741760 :: i64, 536870880, 134217720, 67108860, 4294967295, 2147483520, 536870880, 268435440, 33554428] =
    map ((!) canonical_limbs) [1..<10]" by code_simp
  have l: "(\<forall>i\<in>{1..<10}. P i) \<longleftrightarrow> list_all P [1..<10]" for P :: "nat \<Rightarrow> bool" by (simp add: list_all_iff)
  show ?thesis unfolding not_canonical_def s l using c by (simp add: upt_conv_Cons flip: One_nat_def) blast
qed

lemma not_canonical_iff:
  assumes s: "length s = 32"
  shows "not_canonical (y_limbs s) \<longleftrightarrow> p25519 \<le> int (le_nat s mod 2 ^ 255)"
proof
  let ?N = "le_nat s mod 2 ^ 255"
  assume "not_canonical (y_limbs s)"
  then have "\<forall>i\<in>{1..<10}. sint (y_limbs s ! i) = canonical_limbs ! i" and 0: "4294967277 \<le> sint (y_limbs s ! 0)"
    unfolding not_canonical_sint by simp_all
  then have "map (\<lambda>i. sint (y_limbs s ! i) * fw i) [1..<10] = map (\<lambda>i. canonical_limbs ! i * fw i) [1..<10]" by simp
  moreover have "(\<Sum>i\<leftarrow>[1..<10]. canonical_limbs ! i * fw i) = 2 ^ 255 - 2 ^ 32" by code_simp
  moreover have "[0..<10] = 0 # [1..<10 :: nat]" by (simp add: upt_conv_Cons flip: One_nat_def)
  ultimately have "int ?N = sint (y_limbs s ! 0) * fw 0 + (2 ^ 255 - 2 ^ 32)" using y_limbs_sum [OF s] by (simp only: list.map sum_list.Cons)
  moreover have "fw 0 = 1" by code_simp
  ultimately show "p25519 \<le> int ?N" using 0 by (simp add: p25519_def)
next
  let ?N = "le_nat s mod 2 ^ 255"
  assume "p25519 \<le> int ?N"
  then have N: "2 ^ 255 - 19 \<le> ?N" by (simp add: p25519_def)
  then have N': "2 ^ 255 - 2 ^ 32 \<le> ?N" by simp
  let ?o = "[0, 32, 56, 80, 104, 128, 160, 184, 208, 232] :: nat list" and ?w = "[32, 24, 24, 24, 24, 32, 24, 24, 24, 23] :: nat list"
    and ?c = "[0, 6, 5, 3, 2, 0, 7, 5, 4, 2] :: nat list"
  have c: "list_all (\<lambda>i. 32 \<le> ?o ! i \<and> ?o ! i + ?w ! i \<le> 255 \<and> (2 ^ (?w ! i) - 1) * 2 ^ (?c ! i) = canonical_limbs ! i) [1..<10]" by code_simp
  have "sint (y_limbs s ! i) = canonical_limbs ! i" if "i \<in> {1..<10}" for i
  proof -
    have i: "i < 10" using that by simp
    have "32 \<le> ?o ! i" "?o ! i + ?w ! i \<le> 255" and e: "(2 ^ (?w ! i) - 1) * 2 ^ (?c ! i) = canonical_limbs ! i"
      using c that unfolding list_all_iff set_upt by blast+
    then have "limb_window ?N i = 2 ^ (?w ! i) - 1" unfolding limb_window_def using N' by (intro top_window) simp_all
    then show ?thesis unfolding y_limb [OF s i] limb_window_mod [OF i] e [symmetric] by (simp add: of_nat_diff)
  qed
  moreover have "4294967277 \<le> sint (y_limbs s ! 0)"
  proof -
    have "?N div 2 ^ 32 = 2 ^ 223 - 1" using N by (intro div_nat_eqI) simp_all
    then have "?N mod 2 ^ 32 = ?N - 2 ^ 32 * (2 ^ 223 - 1)" using minus_mult_div_eq_mod [of ?N "2 ^ 32"] by simp
    then have "4294967277 \<le> limb_window ?N 0" using N by (simp add: limb_window_def)
    then show ?thesis using y_limb [OF s, of 0] by (simp only: limb_window_mod) simp
  qed
  ultimately show "not_canonical (y_limbs s)" unfolding not_canonical_sint by blast
qed

section \<open>The decoded point\<close>

lemma fe_nz: "fe_bounded 3 f \<Longrightarrow> fe_isnonzero f \<noteq> 0 \<longleftrightarrow> fe_val f \<noteq> 0"
  by (simp add: fe_isnonzero_value)

lemma fe_consts_bounded: "fe_bounded 1 fe_d" "fe_bounded 1 fe_sqrtm1" "fe_bounded 1 fe_ma" "fe_bounded 1 fe_ma2"
  "fe_bounded 1 fe_fffb1" "fe_bounded 1 fe_fffb2" "fe_bounded 1 fe_fffb3" "fe_bounded 1 fe_fffb4"
  by code_simp+

lemma frombytes_root_value:
  assumes u: "fe_bounded 2 u" and v: "fe_bounded 2 v" and r: "frombytes_root u v = Some X"
  shows "fe_bounded 1 X" "fe_val v * (fe_val X * fe_val X) = fe_val u"
proof -
  define W where "W = fe_divpowm1 u v"
  have W: "fe_bounded 1 W" unfolding W_def by (intro fe_divpowm1_sound(1) feo.bnd_up u v)
  note s = feo.arith W u v fe_consts_bounded
  have i: "fe_val fe_sqrtm1 * fe_val fe_sqrtm1 = - 1" using fe_sqrtm1_square by (simp add: power2_eq_square)
  have "fe_bounded 1 X \<and> fe_val v * (fe_val X * fe_val X) = fe_val u"
  proof (cases "fe_val (fe_mul (fe_sq W) v) = fe_val u")
    case True
    then have "X = W" using r by (simp add: frombytes_root_def Let_def W_def [symmetric] fe_nz s)
    then show ?thesis using True W by (simp add: s ac_simps)
  next
    case False
    then have X: "X = fe_mul W fe_sqrtm1" and n: "fe_val (fe_mul (fe_sq W) v) + fe_val u = 0"
      using r by (simp_all add: frombytes_root_def Let_def W_def [symmetric] fe_nz s split: if_splits)
    have "fe_val v * (fe_val X * fe_val X) = fe_val v * (fe_val W * fe_val W) * (fe_val fe_sqrtm1 * fe_val fe_sqrtm1)"
      unfolding X by (simp add: s ac_simps)
    also have "\<dots> = - fe_val (fe_mul (fe_sq W) v)" unfolding i by (simp add: s ac_simps)
    also have "\<dots> = fe_val u" using n by (simp add: add_eq_0_iff)
    finally show ?thesis unfolding X by (simp add: s)
  qed
  then show "fe_bounded 1 X" "fe_val v * (fe_val X * fe_val X) = fe_val u" by simp_all
qed

lemma Rep_fp_uminus: "x \<noteq> 0 \<Longrightarrow> Rep_fp (- x) = p25519 - Rep_fp x"
proof -
  assume x: "x \<noteq> 0"
  have r: "0 \<le> Rep_fp x" "Rep_fp x < p25519" using Rep_fp [of x] by auto
  moreover have "Rep_fp x \<noteq> 0" using x by (simp add: Rep_fp_inject [symmetric] zero_fp.rep_eq)
  ultimately have "(- Rep_fp x) mod p25519 = p25519 - Rep_fp x" by (simp add: zmod_zminus1_eq_if)
  then show ?thesis by (simp add: uminus_fp.rep_eq)
qed

lemma top_bit: "drop_bit 7 (b :: u8) = of_bool (bit b 7)"
proof (rule bit_word_eqI)
  fix n assume "n < LENGTH(8)"
  then show "bit (drop_bit 7 b) n = bit (of_bool (bit b 7) :: u8) n"
    by (cases n) (auto simp: bit_drop_bit_eq bit_of_bool_iff dest: bit_imp_le_length)
qed

lemma sign_bit:
  assumes "fe_bounded 3 X"
  shows "fe_isnegative X = ucast (drop_bit 7 (b :: u8)) \<longleftrightarrow> (odd (Rep_fp (fe_val X)) \<longleftrightarrow> bit b 7)"
proof -
  have "ucast (drop_bit 7 b) = (of_bool (bit b 7) :: i32)" unfolding top_bit by (cases "bit b 7") (simp_all only: of_bool_eq unsigned_0 unsigned_1)
  then show ?thesis unfolding fe_isnegative_value [OF assms] by (cases "bit b 7") (simp_all split: if_splits)
qed

lemma frombytes_sign_value:
  assumes X: "fe_bounded 1 X" and r: "frombytes_sign X b = Some X'"
  shows "fe_bounded 1 X'" "fe_val X' * fe_val X' = fe_val X * fe_val X" "odd (Rep_fp (fe_val X')) \<longleftrightarrow> bit b 7"
proof -
  note s = sign_bit [OF feo.bnd_up(2) [OF X]]
  have p: "odd p25519" by code_simp
  have "fe_bounded 1 X' \<and> fe_val X' * fe_val X' = fe_val X * fe_val X \<and> (odd (Rep_fp (fe_val X')) \<longleftrightarrow> bit b 7)"
  proof (cases "odd (Rep_fp (fe_val X)) \<longleftrightarrow> bit b 7")
    case True
    then show ?thesis using r X by (simp add: frombytes_sign_def s)
  next
    case False
    then have n: "fe_val X \<noteq> 0" and X': "X' = fe_neg X"
      using r X by (simp_all add: frombytes_sign_def s fe_nz feo.bnd_up split: if_splits)
    have v: "fe_bounded 1 X'" "fe_val X' = - fe_val X" unfolding X' using fe_neg_sound [OF X] by simp_all
    have "odd (Rep_fp (fe_val X')) \<longleftrightarrow> even (Rep_fp (fe_val X))" unfolding v(2) Rep_fp_uminus [OF n] using p by simp
    then show ?thesis using v False by auto
  qed
  then show "fe_bounded 1 X'" "fe_val X' * fe_val X' = fe_val X * fe_val X" "odd (Rep_fp (fe_val X')) \<longleftrightarrow> bit b 7" by simp_all
qed

definition decoded :: "bytes \<Rightarrow> ge_p3 \<Rightarrow> fp \<Rightarrow> fp \<Rightarrow> bool" where
  "decoded s P x y \<longleftrightarrow> p3_rep P x y 1 \<and> on_curve x y \<and> Rep_fp y = int (le_nat s mod 2 ^ 255) \<and> (odd (Rep_fp x) \<longleftrightarrow> bit (s ! 31) 7)"

lemma ge_frombytes_decoded:
  assumes s: "length s = 32" and r: "ge_frombytes_vartime s = Some P"
  shows "decoded s P (fe_val (p3_X P)) (fe_val (p3_Y P))"
proof -
  let ?N = "le_nat s mod 2 ^ 255"
  define Y where "Y = frombytes_carries (y_limbs s)"
  note Y = frombytes_value [OF s, folded Y_def]
  define u v where "u = fe_sub (fe_sq Y) fe_1" and "v = fe_add (fe_mul (fe_sq Y) fe_d) fe_1"
  note a = feo.arith Y(1) fe_consts_bounded fe_01
  have uv: "fe_bounded 2 u" "fe_bounded 2 v" unfolding u_def v_def by (simp_all add: a)
  have c: "\<not> not_canonical (y_limbs s)" using r by (auto simp: ge_frombytes_vartime_def Let_def split: if_splits)
  then have N: "int ?N < p25519" unfolding not_canonical_iff [OF s] by simp
  obtain X X' where X: "frombytes_root u v = Some X" "frombytes_sign X (s ! 31) = Some X'"
    and P: "P = \<lparr>p3_X = X', p3_Y = Y, p3_Z = fe_1, p3_T = fe_mul X' Y\<rparr>"
    using r c by (auto simp: ge_frombytes_vartime_def Let_def u_def v_def Y_def bind_eq_Some_conv)
  note R = frombytes_root_value [OF uv X(1)]
  note S = frombytes_sign_value [OF R(1) X(2)]
  have "fe_val v * (fe_val X' * fe_val X') = fe_val u" using R(2) S(2) by simp
  then have "on_curve (fe_val X') (fe_val Y)" unfolding on_curve_def u_def v_def by (simp add: a algebra_simps)
  moreover have "Rep_fp (fe_val Y) = int ?N" unfolding Y(2) Rep_fp_of_nat using N by simp
  moreover have "p3_rep P (fe_val X') (fe_val Y) 1" unfolding P p3_rep_def by (simp add: a S(1))
  ultimately show ?thesis using S(3) by (simp add: decoded_def P)
qed

section \<open>Writing the point back\<close>

lemma low_high: "a + m * b = c + m * d \<Longrightarrow> a < m \<Longrightarrow> c < m \<Longrightarrow> a = c \<and> b = (d::nat)"
proof -
  assume e: "a + m * b = c + m * d" and l: "a < m" "c < m"
  from l have "(a + m * b) mod m = a" "(c + m * d) mod m = c" "(a + m * b) div m = b" "(c + m * d) div m = d" by simp_all
  then show ?thesis unfolding e by simp
qed

lemma le_nat_inj: "length xs = length ys \<Longrightarrow> le_nat xs = le_nat ys \<longleftrightarrow> xs = ys"
proof (induction xs ys rule: list_induct2)
  case (Cons x xs y ys)
  have "unat x < 256" "unat y < 256" by (rule unat_u8_lt)+
  then have "unat x + 256 * le_nat xs = unat y + 256 * le_nat ys \<longleftrightarrow> unat x = unat y \<and> le_nat xs = le_nat ys"
    using low_high [of "unat x" 256 "le_nat xs" "unat y" "le_nat ys"] by auto
  then show ?case using Cons.IH by (simp add: word_unat_eq_iff)
qed simp

lemma le_nat_top: "length s = 32 \<Longrightarrow> le_nat s = le_nat (take 31 s) + 2 ^ 248 * unat (s ! 31)"
proof -
  assume s: "length s = 32"
  have "s = take 31 s @ [s ! 31]" using s by (simp add: take_Suc_conv_app_nth [symmetric])
  then have "le_nat s = le_nat (take 31 s) + 256 ^ length (take 31 s) * unat (s ! 31)" using le_nat_append [of "take 31 s" "[s ! 31]"] by simp
  then show ?thesis using s by simp
qed

lemma top_byte_split: "unat (b :: u8) = unat b mod 128 + 128 * of_bool (bit b 7)"
proof -
  have "unat b div 128 = unat (drop_bit 7 b)" by (simp add: unat_shr)
  also have "\<dots> = of_bool (bit b 7)" unfolding top_bit by simp
  finally show ?thesis using mod_mult_div_eq [of "unat b" 128] by simp
qed

lemma le_nat_low: "le_nat (take 31 s) < 2 ^ 248"
proof -
  have "(256::nat) ^ length (take 31 s) \<le> 256 ^ 31" by (intro power_increasing) simp_all
  then show ?thesis using le_nat_bound [of "take 31 s"] by simp
qed

lemma top_byte_mod: "length s = 32 \<Longrightarrow> le_nat s mod 2 ^ 255 = le_nat (take 31 s) + 2 ^ 248 * (unat (s ! 31) mod 128)"
proof -
  assume s: "length s = 32"
  have "le_nat s = (le_nat (take 31 s) + 2 ^ 248 * (unat (s ! 31) mod 128)) + 2 ^ 255 * of_bool (bit (s ! 31) 7)"
    unfolding le_nat_top [OF s] by (subst top_byte_split) simp
  moreover have "le_nat (take 31 s) + 2 ^ 248 * (unat (s ! 31) mod 128) < 2 ^ 255"
    using le_nat_low [of s] mod_less_divisor [of 128 "unat (s ! 31)"] by simp
  ultimately show ?thesis by (simp only: mod_mult_self2 mod_less)
qed

lemma top_byte_set: "unat (b :: u8) < 128 \<Longrightarrow> unat (b XOR (if g then 128 else 0)) = unat b + 128 * of_bool g"
proof -
  assume b: "unat b < 128"
  have "list_all (\<lambda>n. unat (word_of_nat n XOR (128 :: u8)) = n + 128) [0..<128]" by code_simp
  then have "unat (word_of_nat (unat b) XOR (128 :: u8)) = unat b + 128" using b unfolding list_all_iff set_upt by (elim ballE [of _ _ "unat b"]) simp_all
  then show ?thesis by simp
qed

lemma tobytes_frombytes:
  assumes s: "length s = 32" and d: "decoded s P x y"
  shows "ge_p3_tobytes P = s"
proof -
  note P = d [unfolded decoded_def p3_rep_def]
  define r where "r = fe_invert (p3_Z P)"
  have r: "fe_bounded 1 r" "fe_val r = 1"
    using fe_invert_sound [of "p3_Z P"] P by (simp_all add: r_def feo.bnd_up)
  define X Y where "X = fe_mul (p3_X P) r" and "Y = fe_mul (p3_Y P) r"
  have XY: "fe_bounded 1 X" "fe_bounded 1 Y" "fe_val X = x" "fe_val Y = y" using P r by (simp_all add: X_def Y_def feo.arith)
  let ?t = "fe_tobytes Y" and ?b = "bit (s ! 31) 7"
  have "int (le_nat ?t) = int (le_nat s mod 2 ^ 255)"
    using fe_tobytes_value [OF feo.bnd_up(2) [OF XY(2)]] Rep_fe_val [of Y] P XY(4) by simp
  then have t: "le_nat ?t = le_nat s mod 2 ^ 255" by (simp only: of_nat_eq_iff)
  have sg: "ucast (push_bit 7 (fe_isnegative X)) = (if ?b then 128 else 0 :: u8)"
    unfolding fe_isnegative_value [OF feo.bnd_up(2) [OF XY(1)]] XY(3) using P by simp
  have n: "le_nat s mod 2 ^ 255 = le_nat (take 31 s) + 2 ^ 248 * (unat (s ! 31) mod 128)"
    using top_byte_mod [OF s] .
  have "le_nat (take 31 ?t) = le_nat (take 31 s) \<and> unat (?t ! 31) = unat (s ! 31) mod 128"
    using t unfolding n le_nat_top [OF length_fe_tobytes] by (rule low_high [OF _ le_nat_low le_nat_low])
  then have "take 31 ?t = take 31 s" "unat (?t ! 31) = unat (s ! 31) mod 128" using s by (simp_all add: le_nat_inj)
  moreover have "?t ! 31 XOR (if ?b then 128 else 0) = s ! 31"
    using top_byte_split [of "s ! 31"] top_byte_set [of "?t ! 31" ?b] calculation(2) by (simp add: word_unat_eq_iff)
  ultimately have "?t[31 := ?t ! 31 XOR (if ?b then 128 else 0)] = s"
    using s by (auto simp: list_eq_iff_nth_eq nth_list_update)
  then show ?thesis by (simp add: ge_p3_tobytes_def Let_def sg flip: r_def X_def Y_def)
qed

section \<open>Hashing to the curve\<close>

text \<open>Projective points of the curve; \<open>X = x Z\<close>, \<open>Y = y Z\<close> where \<open>Z\<close> has an inverse.\<close>

definition proj_curve :: "fp \<Rightarrow> fp \<Rightarrow> fp \<Rightarrow> bool" where
  "proj_curve X Y Z \<longleftrightarrow> (Y * Y - X * X) * (Z * Z) = Z * Z * (Z * Z) + fe_val fe_d * (X * X) * (Y * Y)"

lemma proj_curve_affine:
  assumes "proj_curve X Y Z" "Z * iz = 1"
  shows "on_curve (X * iz) (Y * iz)"
proof -
  have "(Y * Y - X * X) * (Z * Z) * (iz * iz * (iz * iz)) = (Z * Z * (Z * Z) + fe_val fe_d * (X * X) * (Y * Y)) * (iz * iz * (iz * iz))"
    using assms(1) by (simp add: proj_curve_def)
  moreover have "(Y * Y - X * X) * (Z * Z) * (iz * iz * (iz * iz)) = (Y * Y - X * X) * (iz * iz) * ((Z * iz) * (Z * iz))"
    "(Z * Z * (Z * Z) + fe_val fe_d * (X * X) * (Y * Y)) * (iz * iz * (iz * iz)) =
       (Z * iz) * (Z * iz) * ((Z * iz) * (Z * iz)) + fe_val fe_d * (X * iz * (X * iz)) * (Y * iz * (Y * iz))"
    by (simp_all add: algebra_simps)
  ultimately show ?thesis unfolding assms(2) on_curve_def by (simp add: algebra_simps)
qed

text \<open>Multiples of A + 2 = 4 * 121666 cancel.\<close>

lemma cancel_A2:
  assumes "(486664 :: fp) * a = 486664 * b"
  shows "a = b"
proof -
  have "(of_int (9273926483667359835784520877188641297385528469960804754097196383271485070889 * 486664) :: fp) = of_int 1"
    by (rule of_int_fpI) (simp add: p25519_def)
  then have "\<exists>c. c * (486664 :: fp) = 1" unfolding of_int_mult of_int_numeral of_int_1 by (rule exI)
  then obtain c :: fp where "c * 486664 = 1" ..
  then show ?thesis using arg_cong [OF assms, of "(*) c"] by (simp add: mult.assoc [symmetric])
qed

lemma elligator_curve:
  assumes "xi * xi * (z * z + w * w + 486662 * (z * w)) = - (z * w) * 486664"
  shows "proj_curve (xi * (z + w)) (z - w) (z + w)"
proof -
  have d: "486664 * fe_val fe_d = - 486660" using arg_cong [OF fe_d_values(1), of "(*) 4"] by (simp add: mult.assoc [symmetric])
  let ?Y = "z - w" and ?Z = "z + w"
  have "486664 * (?Y * ?Y - ?Z * ?Z) = 4 * (- (z * w) * 486664)" by (simp add: algebra_simps)
  also have "\<dots> = xi * xi * (486664 * (?Z * ?Z) - 486660 * (?Y * ?Y))" unfolding assms [symmetric] by (simp add: algebra_simps)
  finally have e: "486664 * (?Y * ?Y - ?Z * ?Z) * (?Z * ?Z) = xi * xi * (486664 * (?Z * ?Z) - 486660 * (?Y * ?Y)) * (?Z * ?Z)" by simp
  have "486664 * ((?Y * ?Y - xi * ?Z * (xi * ?Z)) * (?Z * ?Z)) =
     486664 * (?Z * ?Z * (?Z * ?Z)) + (486664 * fe_val fe_d) * ((xi * ?Z) * (xi * ?Z)) * (?Y * ?Y)"
    using e unfolding d by (simp only: eq_iff_diff_eq_0 [of _ "_ * (?Z * ?Z)"] eq_iff_diff_eq_0 [of _ "_ + _"]) (simp add: algebra_simps)
  then show ?thesis unfolding proj_curve_def by - (rule cancel_A2, simp only: distrib_left [of 486664] mult.assoc [of 486664])
qed

lemma fromfe_check_iff:
  assumes "fe_bounded 1 (p2_X r)" "fe_bounded 3 (p2_Y r)" "fe_bounded 3 (p2_Z r)"
  defines "iz \<equiv> fe_val (p2_Z r) ^ (2 ^ 255 - 21)"
  shows "fromfe_check r \<longleftrightarrow> on_curve (fe_val (p2_X r) * iz) (fe_val (p2_Y r) * iz)"
proof -
  note i = fe_invert_sound [OF assms(3), folded iz_def]
  define x y where "x = fe_sq (fe_mul (p2_X r) (fe_invert (p2_Z r)))" and "y = fe_sq (fe_mul (p2_Y r) (fe_invert (p2_Z r)))"
  note a = feo.arith fe_01 fe_consts_bounded assms(1-3) i
  have x: "fe_bounded 1 x" "fe_val x = fe_val (p2_X r) * iz * (fe_val (p2_X r) * iz)" by (simp_all add: x_def a)
  have y: "fe_bounded 1 y" "fe_val y = fe_val (p2_Y r) * iz * (fe_val (p2_Y r) * iz)" by (simp_all add: y_def a)
  define t where "t = fe_sub (fe_add (fe_mul fe_d (fe_mul x y)) x) y"
  have t: "fe_bounded 3 t" "fe_val t = fe_val fe_d * (fe_val x * fe_val y) + fe_val x - fe_val y" using x(1) y(1) by (simp_all add: t_def a)
  have "fe_bounded 4 (fe_add t fe_1)" "fe_val (fe_add t fe_1) = fe_val t + 1"
    using fe_add_sound [OF t(1) fe_01(2)] by (simp_all add: fe_01)
  then have "fromfe_check r \<longleftrightarrow> fe_val t + 1 = 0"
    unfolding fromfe_check_def Let_def x_def [symmetric] y_def [symmetric] t_def [symmetric] by (simp add: fe_isnonzero_loose)
  moreover have "fe_val y - fe_val x - (1 + fe_val fe_d * fe_val x * fe_val y) = - (fe_val t + 1)" unfolding t(2) by (simp add: algebra_simps)
  ultimately show ?thesis
    unfolding on_curve_def x(2) [symmetric] y(2) [symmetric] eq_iff_diff_eq_0 [of "fe_val y - fe_val x"] by (simp only: neg_equal_0_iff_equal)
qed

lemma fromfe_check_passes:
  assumes "fe_bounded 1 (p2_X r)" "fe_bounded 3 (p2_Y r)" "fe_bounded 3 (p2_Z r)"
    and "proj_curve (fe_val (p2_X r)) (fe_val (p2_Y r)) (fe_val (p2_Z r))" "fe_val (p2_Z r) * fe_val (p2_Z r) ^ (2 ^ 255 - 21) = 1"
  shows "fromfe_check r"
  unfolding fromfe_check_iff [OF assms(1-3)] by (rule proj_curve_affine [OF assms(4,5)])

lemma elligator_denominator:
  assumes "w = v + 1" "x = w * w - 486662 ^ 2 * v" "z = - 486662 * v \<or> z = - 486662"
  shows "z * z + w * w + 486662 * (z * w) = (x :: fp)"
  using assms by (auto simp: algebra_simps power2_eq_square)

lemma fromfe_root_value:
  assumes u: "fe_bounded 1 u" and v: "fe_bounded 1 v" "fe_val v = 2 * (fe_val u * fe_val u)"
    and w: "fe_bounded 2 w" "fe_val w = fe_val v + 1"
    and x: "fe_bounded 2 x" "fe_val x = fe_val w * fe_val w - 486662 ^ 2 * fe_val v"
    and r: "fromfe_root u v w x = Some (X, z, sg)"
  shows "fe_bounded 1 X" "fe_bounded 1 z"
    "fe_val X * fe_val X * (fe_val z * fe_val z + fe_val w * fe_val w + 486662 * (fe_val z * fe_val w)) = - (fe_val z * fe_val w) * 486664"
proof -
  define D where "D = fe_divpowm1 w x"
  have D: "fe_bounded 1 D" unfolding D_def by (intro fe_divpowm1_sound(1) feo.bnd_up w x)
  note a = feo.arith D u v(1) w(1) x(1) fe_consts_bounded fe_copy_def
  let ?t = "fe_val D * fe_val D * fe_val x"
  note r = r [unfolded fromfe_root_def Let_def, folded D_def]
  note f = fe_fffb_squares [unfolded power2_eq_square]
  consider (b2) "fe_val w = ?t" "X = fe_mul (fe_mul D fe_fffb2) u" "z = fe_mul fe_ma v"
    | (b1) "fe_val w = - ?t" "X = fe_mul (fe_mul D fe_fffb1) u" "z = fe_mul fe_ma v"
    | (b4) "fe_val w = ?t * fe_val fe_sqrtm1" "X = fe_mul D fe_fffb4" "z = fe_ma"
    | (b3) "fe_val w = - (?t * fe_val fe_sqrtm1)" "X = fe_mul D fe_fffb3" "z = fe_ma"
    using r by (auto simp: fe_nz a split: if_splits simp: eq_neg_iff_add_eq_0)
  then have "fe_bounded 1 X \<and> fe_bounded 1 z \<and> (fe_val z = - 486662 * fe_val v \<or> fe_val z = - 486662) \<and>
     fe_val X * fe_val X * fe_val x = - (fe_val z * fe_val w) * 486664"
  proof cases
    case b2
    then have "fe_val X * fe_val X * fe_val x = ?t * (fe_val fe_fffb2 * fe_val fe_fffb2) * (fe_val u * fe_val u)" by (simp add: a ac_simps)
    also have "\<dots> = fe_val w * 486662 * 486664 * fe_val v" unfolding f b2(1) v(2) by (simp add: ac_simps)
    finally show ?thesis using b2 by (simp add: a fe_ma_values ac_simps)
  next
    case b1
    then have "fe_val X * fe_val X * fe_val x = ?t * (fe_val fe_fffb1 * fe_val fe_fffb1) * (fe_val u * fe_val u)" by (simp add: a ac_simps)
    also have "\<dots> = fe_val w * 486662 * 486664 * fe_val v" unfolding f b1(1) v(2) by (simp add: ac_simps)
    finally show ?thesis using b1 by (simp add: a fe_ma_values ac_simps)
  next
    case b4
    then have "fe_val X * fe_val X * fe_val x = ?t * (fe_val fe_fffb4 * fe_val fe_fffb4)" by (simp add: a ac_simps)
    also have "\<dots> = fe_val w * 486662 * 486664" unfolding f b4(1) by (simp add: ac_simps)
    finally show ?thesis using b4 by (simp add: a fe_ma_values ac_simps)
  next
    case b3
    then have "fe_val X * fe_val X * fe_val x = ?t * (fe_val fe_fffb3 * fe_val fe_fffb3)" by (simp add: a ac_simps)
    also have "\<dots> = fe_val w * 486662 * 486664" unfolding f b3(1) by (simp add: ac_simps)
    finally show ?thesis using b3 by (simp add: a fe_ma_values ac_simps)
  qed
  then show "fe_bounded 1 X" "fe_bounded 1 z"
    "fe_val X * fe_val X * (fe_val z * fe_val z + fe_val w * fe_val w + 486662 * (fe_val z * fe_val w)) = - (fe_val z * fe_val w) * 486664"
    using elligator_denominator [OF w(2) x(2)] by auto
qed

lemma unmasked_bounded:
  assumes s: "length s = 32"
  shows "bounded frombytes_start (frombytes_limbs s (push_bit 2 (load_3 s 29)))" (is "bounded _ ?h")
  unfolding bounded_def list_all2_conv_all_nth
proof (intro conjI allI impI)
  show "length frombytes_start = length ?h" by (simp add: frombytes_start_def)
  fix i assume "i < length frombytes_start"
  then have i: "i < 10" by (simp add: frombytes_start_def)
  note b = frombytes_start_bounded [OF s, unfolded bounded_def list_all2_conv_all_nth, THEN conjunct2, rule_format, of i]
  show "within (frombytes_start ! i) (?h ! i)"
  proof (cases "i = 9")
    case True
    have "le_nat s div 2 ^ 232 mod 2 ^ 24 < 2 ^ 24" by simp
    then have "0 \<le> sint (push_bit 2 (load_3 s 29)) \<and> sint (push_bit 2 (load_3 s 29)) \<le> 2 ^ 26"
      using load_3_shl [of 29 s 2] s by simp
    then show ?thesis by (simp add: True within_def frombytes_start_def frombytes_limbs_def)
  next
    case False
    then have "i < 9" using i by linarith
    then have "frombytes_limbs s h ! i = take 9 (frombytes_limbs s h) ! i" for h by simp
    then have "?h ! i = y_limbs s ! i" by (simp add: frombytes_limbs_def)
    then show ?thesis using b i by (simp add: frombytes_start_def)
  qed
qed

lemma ge_fromfe_curve:
  assumes s: "length s = 32" and r: "ge_fromfe_frombytes_vartime s = Some r"
  shows "proj_curve (fe_val (p2_X r)) (fe_val (p2_Y r)) (fe_val (p2_Z r))"
proof -
  define u where "u = frombytes_carries (frombytes_limbs s (push_bit 2 (load_3 s 29)))"
  have u: "fe_bounded 1 u" unfolding u_def by (rule frombytes_carries_value [OF length_frombytes_limbs unmasked_bounded [OF s]])
  define v w x where "v = fe_sq2 u" and "w = fe_add v fe_1" and "x = fe_add (fe_sq w) (fe_mul fe_ma2 v)"
  note a = feo.arith u fe_consts_bounded fe_01
  have v: "fe_bounded 1 v" "fe_val v = 2 * (fe_val u * fe_val u)" by (simp_all add: v_def a)
  have w: "fe_bounded 2 w" "fe_val w = fe_val v + 1" using v by (simp_all add: w_def a)
  have x: "fe_bounded 2 x" "fe_val x = fe_val w * fe_val w - 486662 ^ 2 * fe_val v" using v w by (simp_all add: x_def a fe_ma_values)
  obtain X z sg X' where X: "fromfe_root u v w x = Some (X, z, sg)"
    "fromfe_setsign X sg = Some X'"
    and re: "r = \<lparr>p2_X = fe_mul X' (fe_add z w), p2_Y = fe_sub z w, p2_Z = fe_add z w\<rparr>"
    using r unfolding ge_fromfe_frombytes_vartime_def Let_def u_def [symmetric] v_def [symmetric] w_def [symmetric] x_def [symmetric]
    by (auto simp: bind_eq_Some_conv split: if_splits)
  note R = fromfe_root_value [OF u v w x X(1)]
  have "fe_bounded 1 X' \<and> fe_val X' * fe_val X' = fe_val X * fe_val X"
    using X(2) R(1) fe_neg_sound [OF R(1)] by (auto simp: fromfe_setsign_def split: if_splits)
  then have X': "fe_bounded 1 X'" "fe_val X' * fe_val X' = fe_val X * fe_val X" by simp_all
  show ?thesis using elligator_curve [OF R(3) [folded X'(2)]] R(1,2) X'(1) w(1) by (simp add: re feo.arith)
qed

section \<open>The properties\<close>

text \<open>The encoding of the neutral element.\<close>

lemma frombytes_one: "\<exists>P. ge_frombytes_vartime (1 # replicate 31 0) = Some P"
proof -
  let ?s = "1 # replicate 31 0 :: bytes"
  define Y where "Y = frombytes_carries (y_limbs ?s)"
  have n: "le_nat ?s = 1" by code_simp
  then have Y: "fe_bounded 1 Y" "fe_val Y = 1" using frombytes_value [of ?s] by (simp_all add: Y_def)
  define u v where "u = fe_sub (fe_sq Y) fe_1" and "v = fe_add (fe_mul (fe_sq Y) fe_d) fe_1"
  note a = feo.arith Y(1) fe_consts_bounded fe_01
  have uv: "fe_bounded 2 u" "fe_bounded 2 v" "fe_val u = 0" unfolding u_def v_def by (simp_all add: a Y(2))
  define W where "W = fe_divpowm1 u v"
  have W: "fe_bounded 1 W" "fe_val W = 0" using fe_divpowm1_sound [of u v] uv by (simp_all add: W_def feo.bnd_up)
  have "frombytes_root u v = Some W" using W uv by (simp add: frombytes_root_def Let_def W_def [symmetric] fe_nz feo.arith)
  moreover have "frombytes_sign W (?s ! 31) = Some W"
    using sign_bit [OF feo.bnd_up(2) [OF W(1)], of 0] by (simp add: frombytes_sign_def W(2) zero_fp.rep_eq)
  moreover have "\<not> not_canonical (y_limbs ?s)" using not_canonical_iff [of ?s] unfolding n by (simp add: p25519_def)
  ultimately show ?thesis unfolding ge_frombytes_vartime_def Let_def Y_def [symmetric] u_def [symmetric] v_def [symmetric] by simp
qed

text \<open>C29: Reading a point is sound: whatever 32 bytes \<open>ge_frombytes_vartime\<close> accepts, the low 255 bits are a canonical y
  coordinate (below 2^255 - 19), the result is a point of the curve with this y, reduced limbs, Z = 1 and T = x y, and the
  parity of its x coordinate is the top bit.
\<close>

theorem ge_frombytes_vartime_sound:
  "length s = 32 \<Longrightarrow> ge_frombytes_vartime s = Some P \<Longrightarrow> decoded s P (fe_val (p3_X P)) (fe_val (p3_Y P))"
  by (rule ge_frombytes_decoded)

theorem ge_frombytes_vartime_sound_witness:
  "\<exists>P. ge_frombytes_vartime (1 # replicate 31 0) = Some P \<and> decoded (1 # replicate 31 0) P (fe_val (p3_X P)) (fe_val (p3_Y P))"
proof -
  obtain P where "ge_frombytes_vartime (1 # replicate 31 0) = Some P" using frombytes_one ..
  with ge_frombytes_vartime_sound [of "1 # replicate 31 0" P] show ?thesis by auto
qed

text \<open>C30: Bytes and points round trip: \<open>ge_p3_tobytes\<close> of a point read by \<open>ge_frombytes_vartime\<close> gives the 32 bytes back,
  so that no point has two accepted encodings.
\<close>

theorem frombytes_tobytes_roundtrip:
  "length s = 32 \<Longrightarrow> ge_frombytes_vartime s = Some P \<Longrightarrow> ge_p3_tobytes P = s"
  by (rule tobytes_frombytes [OF _ ge_frombytes_decoded])

theorem frombytes_tobytes_roundtrip_witness:
  "\<exists>P. ge_frombytes_vartime (1 # replicate 31 0) = Some P \<and> ge_p3_tobytes P = 1 # replicate 31 0"
proof -
  obtain P where "ge_frombytes_vartime (1 # replicate 31 0) = Some P" using frombytes_one ..
  with frombytes_tobytes_roundtrip [of "1 # replicate 31 0" P] show ?thesis by auto
qed

text \<open>Zero bytes hash to the point of order two.\<close>

lemma fromfe_zero: "\<exists>r. ge_fromfe_frombytes_vartime (replicate 32 0) = Some r"
proof -
  let ?s = "replicate 32 0 :: bytes"
  define u where "u = frombytes_carries (frombytes_limbs ?s (push_bit 2 (load_3 ?s 29)))"
  have "frombytes_limbs ?s (push_bit 2 (load_3 ?s 29)) = replicate 10 0" by code_simp
  then have u: "fe_bounded 1 u" "fe_val u = 0"
    using frombytes_carries_value [OF length_frombytes_limbs unmasked_bounded [of ?s]] by (simp_all add: u_def lval_def)
  define v w x where "v = fe_sq2 u" and "w = fe_add v fe_1" and "x = fe_add (fe_sq w) (fe_mul fe_ma2 v)"
  note a = feo.arith u(1) fe_consts_bounded fe_01
  have v: "fe_bounded 1 v" "fe_val v = 0" by (simp_all add: v_def a u(2))
  have w: "fe_bounded 2 w" "fe_val w = 1" using v by (simp_all add: w_def a)
  have x: "fe_bounded 2 x" "fe_val x = 1" using v w by (simp_all add: x_def a)
  define D where "D = fe_divpowm1 w x"
  have D: "fe_bounded 1 D" "fe_val D = 1" using fe_divpowm1_sound [of w x] w x by (simp_all add: D_def feo.bnd_up)
  define X z where "X = fe_mul (fe_mul D fe_fffb2) u" and "z = fe_mul fe_ma v"
  have Xz: "fe_bounded 1 X" "fe_val X = 0" "fe_bounded 1 z" "fe_val z = 0" using D v u by (simp_all add: X_def z_def a)
  have "fromfe_root u v w x = Some (X, z, 0)"
    unfolding fromfe_root_def Let_def D_def [symmetric] using D w x by (simp add: fe_nz a X_def z_def fe_copy_def)
  moreover have "fromfe_setsign X 0 = Some X"
    using fe_isnegative_value [OF feo.bnd_up(2) [OF Xz(1)]] by (simp add: fromfe_setsign_def Xz zero_fp.rep_eq)
  moreover have "fromfe_check \<lparr>p2_X = fe_mul X (fe_add z w), p2_Y = fe_sub z w, p2_Z = fe_add z w\<rparr>"
    using Xz w by (simp add: fromfe_check_iff a on_curve_def)
  ultimately show ?thesis unfolding ge_fromfe_frombytes_vartime_def Let_def u_def [symmetric] v_def [symmetric] w_def [symmetric] x_def [symmetric]
    by simp
qed



end
