(* ===== verification/Tree_Hash.thy ===== *)
theory Tree_Hash
  imports Keccak
begin

text \<open>
  The hash tree over the transactions of a block, \<open>crypto/tree-hash.c\<close>. A hash is the list of its 32 bytes and the
  array with its count a list; a failed assertion is \<open>None\<close>. The buffer \<open>ints\<close> is a list of hashes updated in place.
  The lemmas show that the root is the one of the tree specified by \<open>merkle\<close>, and that it binds the leaves.
\<close>

unbundle bit_operations_syntax

section \<open>The code\<close>

text \<open>The loop doubles \<open>pow\<close> in 64 bits; it would not end for a count above 2^63, which the assertions exclude.\<close>

partial_function (option) tree_hash_cnt_loop :: "u64 \<Rightarrow> u64 \<Rightarrow> u64 option" where
  [code]: "tree_hash_cnt_loop count pow =
     (if pow < count then tree_hash_cnt_loop count (push_bit 1 pow) else Some pow)"

definition tree_hash_cnt :: "u64 \<Rightarrow> u64 option" where
  "tree_hash_cnt count =
     (if \<not> count \<ge> 3 then None
      else if \<not> count \<le> 0x10000000 then None
      else map_option (drop_bit 1) (tree_hash_cnt_loop count 2))"

text \<open>The first loop, over \<open>i\<close> and \<open>j\<close>, hashes pairs of the input into the buffer; it also returns the last \<open>i\<close>.\<close>

function tree_leaves :: "hash list \<Rightarrow> nat \<Rightarrow> nat \<Rightarrow> nat \<Rightarrow> hash list \<Rightarrow> hash list \<times> nat" where
  "tree_leaves hashes cnt i j ints =
     (if j < cnt then
        tree_leaves hashes cnt (i + 2) (Suc j) (ints[j := cn_fast_hash (hashes ! i @ hashes ! (i + 1))])
      else (ints, i))"
  by pat_completeness auto
termination by (relation "measure (\<lambda>(hashes, cnt, i, j, ints). cnt - j)") auto

text \<open>One round of the second loop: the pairs of the buffer are hashed in place.\<close>

definition tree_level :: "nat \<Rightarrow> hash list \<Rightarrow> hash list" where
  "tree_level cnt ints = fold (\<lambda>j ints. ints[j := cn_fast_hash (ints ! (2 * j) @ ints ! (2 * j + 1))]) [0..<cnt] ints"

function tree_levels :: "nat \<Rightarrow> hash list \<Rightarrow> hash list" where
  "tree_levels cnt ints =
     (if cnt > 2 then
        let cnt = cnt div 2
        in tree_levels cnt (tree_level cnt ints)
      else ints)"
  by pat_completeness auto
termination by (relation "measure fst") auto

declare tree_leaves.simps [simp del] tree_levels.simps [simp del]

definition tree_hash :: "hash list \<Rightarrow> hash option" where
  "tree_hash hashes =
     (let count = length hashes
      in if \<not> count > 0 then None
         else if count = 1 then Some (hashes ! 0)
         else if count = 2 then Some (cn_fast_hash (hashes ! 0 @ hashes ! 1))
         else
           Option.bind (tree_hash_cnt (of_nat count)) (\<lambda>cnt.
             let cnt = unat cnt;
                 ints = replicate (2 * cnt) (replicate HASH_SIZE 0);
                 n = 2 * cnt - count;
                 ints = take n hashes @ drop n ints;
                 r = tree_leaves hashes cnt n n ints;
                 ints = fst r;
                 i = snd r
             in if i \<noteq> count then None
                else
                  let ints = tree_levels cnt ints
                  in Some (cn_fast_hash (ints ! 0 @ ints ! 1))))"

section \<open>The specification\<close>

fun pair_up :: "hash list \<Rightarrow> hash list" where
  "pair_up (x # y # hs) = cn_fast_hash (x @ y) # pair_up hs"
| "pair_up hs = []"

fun merkle :: "nat \<Rightarrow> hash list \<Rightarrow> hash" where
  "merkle 0 hs = hd hs"
| "merkle (Suc k) hs = cn_fast_hash (merkle k (take (2 ^ k) hs) @ merkle k (drop (2 ^ k) hs))"

text \<open>The lowest full level: as many hashes as fit are taken as they are, the others are hashed in pairs.\<close>

definition tree_base :: "nat \<Rightarrow> hash list \<Rightarrow> hash list" where
  "tree_base k hs = take (2 * 2 ^ k - length hs) hs @ pair_up (drop (2 * 2 ^ k - length hs) hs)"

lemma pow2_between: "1 < n \<Longrightarrow> n \<le> 2 ^ m \<Longrightarrow> \<exists>k<m. 2 ^ k < n \<and> n \<le> (2 ^ Suc k :: nat)"
proof (induction m)
  case (Suc m)
  then show ?case by (cases "n \<le> 2 ^ m") (auto simp: less_Suc_eq)
qed simp

section \<open>The power of two\<close>

lemma unat_u64_pow: "j < 64 \<Longrightarrow> unat (2 ^ j :: u64) = 2 ^ j"
  using unat_of_nat_u64 [of "2 ^ j"] power_strict_increasing [of j 64 "2 :: nat"] by simp

lemma tree_hash_cnt_loop_value:
  assumes "j \<le> Suc k" "2 ^ k < unat count" "unat count \<le> 2 ^ Suc k" "Suc k \<le> 28" "1 \<le> j"
  shows "tree_hash_cnt_loop count (2 ^ j) = Some (2 ^ Suc k)"
  using assms
proof (induction "Suc k - j" arbitrary: j)
  case 0
  then have j: "j = Suc k" by simp
  have "unat (2 ^ j :: u64) = 2 ^ Suc k" unfolding j using 0 by (intro unat_u64_pow) simp
  then have "\<not> (2 ^ j :: u64) < count" using 0 by (simp add: word_less_nat_alt del: power_Suc)
  then show ?case unfolding j [symmetric] by (subst tree_hash_cnt_loop.simps) simp
next
  case (Suc d)
  then have j: "j \<le> k" by simp
  have u: "unat (2 ^ j :: u64) = 2 ^ j" using j Suc.prems by (intro unat_u64_pow) simp
  have "(2::nat) ^ j \<le> 2 ^ k" using j by (intro power_increasing) simp_all
  then have "(2 ^ j :: u64) < count" unfolding word_less_nat_alt u using Suc.prems(2) by (rule le_less_trans)
  moreover have "tree_hash_cnt_loop count (2 ^ Suc j) = Some (2 ^ Suc k)"
    by (rule Suc.hyps) (use Suc.hyps(2) Suc.prems j in \<open>auto intro: power_increasing\<close>)
  ultimately show ?case by (subst tree_hash_cnt_loop.simps) (simp add: push_bit_eq_mult mult.commute)
qed

lemma tree_hash_cnt_value:
  assumes "2 ^ k < unat count" "unat count \<le> 2 ^ Suc k" "1 \<le> k" "k < 28"
  shows "tree_hash_cnt count = Some (2 ^ k)"
proof -
  have "(2::nat) ^ 1 \<le> 2 ^ k" "(2::nat) ^ Suc k \<le> 2 ^ 28" using assms by (intro power_increasing; simp)+
  then have c: "3 \<le> count" "count \<le> 0x10000000" using assms by (simp_all add: word_le_nat_alt)
  have "tree_hash_cnt_loop count 2 = Some (2 ^ Suc k)" using tree_hash_cnt_loop_value [of 1 k count] assms by simp
  moreover have "drop_bit 1 (2 ^ Suc k) = (2 ^ k :: u64)"
    using assms by (intro word_eqI_unat) (simp add: unat_shr unat_u64_pow del: power_Suc, simp)
  ultimately show ?thesis using c by (simp add: tree_hash_cnt_def del: power_Suc)
qed

section \<open>The levels\<close>

lemma length_pair_up: "length (pair_up hs) = length hs div 2"
  by (induction hs rule: pair_up.induct) simp_all

lemma pair_up_append: "even (length xs) \<Longrightarrow> pair_up (xs @ ys) = pair_up xs @ pair_up ys"
  by (induction xs rule: pair_up.induct) simp_all

lemma pair_up_nth: "2 * j + 1 < length hs \<Longrightarrow> pair_up hs ! j = cn_fast_hash (hs ! (2 * j) @ hs ! (2 * j + 1))"
proof (induction hs arbitrary: j rule: pair_up.induct)
  case (1 x y hs)
  then show ?case by (cases j) simp_all
qed simp_all

lemma merkle_pair_up: "length hs = 2 ^ Suc k \<Longrightarrow> merkle (Suc k) hs = merkle k (pair_up hs)"
proof (induction k arbitrary: hs)
  case 0
  then obtain x y where "hs = [x, y]" by (auto simp: length_Suc_conv numeral_2_eq_2)
  then show ?case by simp
next
  case (Suc k)
  define xs ys where "xs = take (2 ^ Suc k) hs" and "ys = drop (2 ^ Suc k) hs"
  have l: "length xs = 2 ^ Suc k" "length ys = 2 ^ Suc k" using Suc.prems by (simp_all add: xs_def ys_def)
  have "pair_up hs = pair_up xs @ pair_up ys" using pair_up_append [of xs ys] l by (simp add: xs_def ys_def)
  moreover have "length (pair_up xs) = 2 ^ k" using l by (simp add: length_pair_up)
  moreover have "merkle (Suc (Suc k)) hs = cn_fast_hash (merkle (Suc k) xs @ merkle (Suc k) ys)"
    unfolding xs_def ys_def by (rule merkle.simps)
  ultimately show ?case using Suc.IH [OF l(1)] Suc.IH [OF l(2)] by (simp only: merkle.simps(2) [of k] append_eq_conv_conj) simp
qed

lemma tree_level_steps:
  assumes "2 * cnt \<le> length ints" "k \<le> cnt"
  shows "fold (\<lambda>j ints. ints[j := cn_fast_hash (ints ! (2 * j) @ ints ! (2 * j + 1))]) [0..<k] ints = pair_up (take (2 * k) ints) @ drop k ints"
  using assms(2)
proof (induction k)
  case (Suc k)
  define xs where "xs = pair_up (take (2 * k) ints) @ drop k ints"
  have l: "length (pair_up (take (2 * k) ints)) = k" using Suc.prems assms(1) by (simp add: length_pair_up)
  have n: "xs ! i = ints ! i" if "k \<le> i" for i using that l Suc.prems assms(1) by (simp add: xs_def nth_append)
  have "take (2 * Suc k) ints = take (2 * k) ints @ [ints ! (2 * k), ints ! (2 * k + 1)]"
    using Suc.prems assms(1) by (simp add: take_Suc_conv_app_nth)
  then have "pair_up (take (2 * Suc k) ints) = pair_up (take (2 * k) ints) @ [cn_fast_hash (ints ! (2 * k) @ ints ! (2 * k + 1))]"
    using Suc.prems assms(1) by (simp add: pair_up_append)
  moreover have "drop k ints = ints ! k # drop (Suc k) ints" using Suc.prems assms(1) by (intro Cons_nth_drop_Suc [symmetric]) simp
  ultimately have "xs[k := cn_fast_hash (ints ! (2 * k) @ ints ! (2 * k + 1))] = pair_up (take (2 * Suc k) ints) @ drop (Suc k) ints"
    using l by (simp add: xs_def list_update_append)
  then show ?case using Suc n [of "2 * k"] n [of "2 * k + 1"] by (simp add: xs_def)
qed simp

lemma tree_level_value: "2 * cnt \<le> length ints \<Longrightarrow> tree_level cnt ints = pair_up (take (2 * cnt) ints) @ drop cnt ints"
  unfolding tree_level_def by (rule tree_level_steps [OF _ order_refl])

lemma tree_levels_value:
  "2 ^ Suc k \<le> length ints \<Longrightarrow> (let ints' = tree_levels (2 ^ Suc k) ints in cn_fast_hash (ints' ! 0 @ ints' ! 1)) = merkle (Suc k) (take (2 ^ Suc k) ints)"
proof (induction k arbitrary: ints)
  case 0
  then obtain x y zs where "ints = x # y # zs" by (cases ints; cases "tl ints") simp_all
  then show ?case by (simp add: tree_levels.simps)
next
  case (Suc k)
  define xs where "xs = tree_level (2 ^ Suc k) ints"
  have x: "xs = pair_up (take (2 ^ Suc (Suc k)) ints) @ drop (2 ^ Suc k) ints"
    unfolding xs_def using tree_level_value [of "2 ^ Suc k" ints] Suc.prems by simp
  have l: "length (pair_up (take (2 ^ Suc (Suc k)) ints)) = 2 ^ Suc k" using Suc.prems by (simp add: length_pair_up)
  have "2 < (2 ^ Suc (Suc k) :: nat)" using one_less_power [of "2 :: nat" "Suc k"] by simp
  then have t: "tree_levels (2 ^ Suc (Suc k)) ints = tree_levels (2 ^ Suc k) xs"
    by (subst tree_levels.simps) (simp add: xs_def Let_def)
  have "take (2 ^ Suc k) xs = pair_up (take (2 ^ Suc (Suc k)) ints)" unfolding x using l by simp
  moreover have "2 ^ Suc k \<le> length xs" unfolding x using l by simp
  ultimately show ?case using Suc.IH [of xs] merkle_pair_up [of "take (2 ^ Suc (Suc k)) ints" "Suc k"] Suc.prems
    unfolding t by simp
qed

section \<open>The root\<close>

lemma tree_leaves_value:
  assumes "i + 2 * (cnt - j) = length hashes" "j \<le> cnt" "cnt \<le> length ints"
  shows "tree_leaves hashes cnt i j ints = (take j ints @ pair_up (drop i hashes) @ drop cnt ints, length hashes)"
  using assms
proof (induction hashes cnt i j ints rule: tree_leaves.induct)
  case (1 hashes cnt i j ints)
  show ?case
  proof (cases "j < cnt")
    case True
    have i: "i + 1 < length hashes" using 1 True by linarith
    then have "drop i hashes = hashes ! i # hashes ! (i + 1) # drop (i + 2) hashes"
      by (simp add: Cons_nth_drop_Suc [symmetric])
    then have "pair_up (drop i hashes) = cn_fast_hash (hashes ! i @ hashes ! (i + 1)) # pair_up (drop (i + 2) hashes)" by simp
    moreover have "take (Suc j) (ints[j := h]) = take j ints @ [h]" for h using 1 True by (simp add: take_Suc_conv_app_nth)
    ultimately show ?thesis using 1 True by (subst tree_leaves.simps) simp
  next
    case False
    then show ?thesis using 1 by (subst tree_leaves.simps) simp
  qed
qed

lemma tree_hash_value:
  assumes n: "2 ^ k < length hs" "length hs \<le> 2 ^ Suc k" "k < 28"
  shows "tree_hash hs = Some (merkle k (tree_base k hs))"
proof (cases k)
  case 0
  then obtain x y where "hs = [x, y]" using n by (auto simp: length_Suc_conv numeral_2_eq_2 le_Suc_eq)
  then show ?thesis using 0 by (simp add: tree_hash_def tree_base_def)
next
  case (Suc j)
  define m where "m = 2 * 2 ^ k - length hs"
  have "(2::nat) ^ 1 \<le> 2 ^ k" "(2::nat) ^ Suc k \<le> 2 ^ 28" using n Suc by (intro power_increasing; simp)+
  then have l: "2 < length hs" "length hs < 2 ^ 64" using n by simp_all
  then have c: "tree_hash_cnt (of_nat (length hs)) = Some (2 ^ k)"
    using n Suc by (intro tree_hash_cnt_value) (simp_all add: unat_of_nat_u64)
  have u: "unat (2 ^ k :: u64) = 2 ^ k" using n by (intro unat_u64_pow) simp
  define ints where "ints = take m hs @ drop m (replicate (2 * 2 ^ k) (replicate HASH_SIZE 0))"
  have m: "m \<le> 2 ^ k" "m \<le> length hs" "m + 2 * (2 ^ k - m) = length hs" using n by (simp_all add: m_def)
  have i: "length ints = 2 * 2 ^ k" "take m ints = take m hs" using m by (simp_all add: ints_def)
  have t: "tree_leaves hs (2 ^ k) m m ints = (tree_base k hs @ drop (2 ^ k) ints, length hs)"
    using tree_leaves_value [OF m(3,1)] i by (simp add: tree_base_def m_def)
  have "length (tree_base k hs) = 2 ^ k" using m by (simp add: tree_base_def length_pair_up m_def [symmetric])
  then have "take (2 ^ k) (tree_base k hs @ drop (2 ^ k) ints) = tree_base k hs" by simp
  then have f: "cn_fast_hash (tree_levels (2 ^ k) (tree_base k hs @ drop (2 ^ k) ints) ! 0 @ tree_levels (2 ^ k) (tree_base k hs @ drop (2 ^ k) ints) ! 1) =
      merkle k (tree_base k hs)"
    using tree_levels_value [of j "tree_base k hs @ drop (2 ^ k) ints"] i unfolding Suc Let_def by simp
  have "\<not> length hs = 1" "\<not> length hs = 2" "length hs > 0" using l by linarith+
  then show ?thesis
    by (simp only: tree_hash_def Let_def c bind.bind_lunit u m_def [symmetric] ints_def [symmetric] t f fst_conv snd_conv if_False if_True not_True_eq_False refl simp_thms)
qed

section \<open>Binding\<close>

text \<open>The strings that are hashed on the way to the root, and a collision between those of two computations.\<close>

fun pair_inputs :: "hash list \<Rightarrow> bytes list" where
  "pair_inputs (x # y # hs) = (x @ y) # pair_inputs hs"
| "pair_inputs hs = []"

fun merkle_inputs :: "nat \<Rightarrow> hash list \<Rightarrow> bytes list" where
  "merkle_inputs 0 hs = []"
| "merkle_inputs (Suc k) hs = pair_inputs hs @ merkle_inputs k (pair_up hs)"

definition tree_inputs :: "nat \<Rightarrow> hash list \<Rightarrow> bytes list" where
  "tree_inputs k hs = pair_inputs (drop (2 * 2 ^ k - length hs) hs) @ merkle_inputs k (tree_base k hs)"

definition collision :: "bytes list \<Rightarrow> bytes list \<Rightarrow> bool" where
  "collision I J \<longleftrightarrow> (\<exists>x\<in>set I. \<exists>y\<in>set J. x \<noteq> y \<and> cn_fast_hash x = cn_fast_hash y)"

definition all_hashes :: "hash list \<Rightarrow> bool" where
  "all_hashes hs \<longleftrightarrow> (\<forall>h\<in>set hs. length h = 32)"

lemma collision_append: "collision I J \<Longrightarrow> collision (I @ I') (J @ J')" "collision I' J' \<Longrightarrow> collision (I @ I') (J @ J')"
  unfolding collision_def by auto

lemma collision_Cons: "collision I J \<Longrightarrow> collision (x # I) (y # J)"
  "x \<noteq> y \<Longrightarrow> cn_fast_hash x = cn_fast_hash y \<Longrightarrow> collision (x # I) (y # J)"
  unfolding collision_def by auto

lemma pair_up_binding:
  assumes "all_hashes xs" "all_hashes ys" "length xs = length ys" "even (length xs)" "pair_up xs = pair_up ys"
  shows "xs = ys \<or> collision (pair_inputs xs) (pair_inputs ys)"
  using assms
proof (induction xs arbitrary: ys rule: pair_up.induct)
  case (1 a b xs)
  then obtain c d zs where ys: "ys = c # d # zs" by (cases ys; cases "tl ys") auto
  have l: "length a = length c" using 1 ys by (auto simp: all_hashes_def)
  have "xs = zs \<or> collision (pair_inputs xs) (pair_inputs zs)" using 1 ys by (intro "1.IH") (auto simp: all_hashes_def)
  moreover have "cn_fast_hash (a @ b) = cn_fast_hash (c @ d)" using 1 ys by simp
  ultimately show ?case using ys l by (cases "a @ b = c @ d") (auto intro: collision_Cons)
qed auto

lemma all_hashes_pair_up: "all_hashes (pair_up hs)"
  by (induction hs rule: pair_up.induct) (simp_all add: all_hashes_def)

lemma merkle_binding:
  assumes "all_hashes xs" "all_hashes ys" "length xs = 2 ^ k" "length ys = 2 ^ k" "merkle k xs = merkle k ys"
  shows "xs = ys \<or> collision (merkle_inputs k xs) (merkle_inputs k ys)"
  using assms
proof (induction k arbitrary: xs ys)
  case 0
  then show ?case by (cases xs; cases ys) simp_all
next
  case (Suc k)
  have "merkle k (pair_up xs) = merkle k (pair_up ys)" using Suc.prems merkle_pair_up by metis
  then have "pair_up xs = pair_up ys \<or> collision (merkle_inputs k (pair_up xs)) (merkle_inputs k (pair_up ys))"
    using Suc.prems by (intro Suc.IH) (simp_all add: all_hashes_pair_up length_pair_up)
  then show ?case using pair_up_binding [OF Suc.prems(1,2)] Suc.prems(3,4) by (auto intro: collision_append)
qed

lemma tree_base_binding:
  assumes "all_hashes xs" "all_hashes ys" "length xs = length ys" "length xs \<le> 2 * 2 ^ k" "2 ^ k \<le> length xs" "tree_base k xs = tree_base k ys"
  defines "m \<equiv> 2 * 2 ^ k - length xs"
  shows "xs = ys \<or> collision (pair_inputs (drop m xs)) (pair_inputs (drop m ys))"
proof -
  have m: "m \<le> length xs" "even (length xs - m)" using assms(4,5) by (simp_all add: m_def)
  have "take m xs = take m ys" "pair_up (drop m xs) = pair_up (drop m ys)"
    using assms(6) m(1) unfolding tree_base_def assms(3) [symmetric] m_def [symmetric] by (simp_all add: assms(3))
  moreover have "drop m xs = drop m ys \<or> collision (pair_inputs (drop m xs)) (pair_inputs (drop m ys))"
    using assms(1-3) m calculation(2) by (intro pair_up_binding) (auto simp: all_hashes_def dest: in_set_dropD)
  ultimately show ?thesis by (metis append_take_drop_id)
qed

lemma tree_hash_collision:
  assumes h: "all_hashes xs" "all_hashes ys" and n: "length xs = length ys" and k: "2 ^ k < length xs" "length xs \<le> 2 ^ Suc k" "k < 28"
    and r: "tree_hash xs = tree_hash ys"
  shows "xs = ys \<or> collision (tree_inputs k xs) (tree_inputs k ys)"
proof -
  have b: "all_hashes (tree_base k hs)" if "all_hashes hs" for hs
    using that all_hashes_pair_up unfolding tree_base_def all_hashes_def by (auto dest: in_set_takeD)
  have l: "length (tree_base k hs) = 2 ^ k" if "length hs = length xs" for hs
    using that k by (simp add: tree_base_def length_pair_up)
  have "merkle k (tree_base k xs) = merkle k (tree_base k ys)"
    using r tree_hash_value [OF k] tree_hash_value [of k ys] k n by simp
  then have "tree_base k xs = tree_base k ys \<or> collision (merkle_inputs k (tree_base k xs)) (merkle_inputs k (tree_base k ys))"
    using h n by (intro merkle_binding) (simp_all add: b l)
  then show ?thesis using tree_base_binding [OF h n, of k] k n unfolding tree_inputs_def by (auto intro: collision_append)
qed

section \<open>The properties\<close>

text \<open>C32: The loop of \<open>tree_hash_cnt\<close> ends for every count its assertions allow, with the power of two below the count.\<close>

theorem tree_hash_cnt_terminates:
  assumes "3 \<le> unat count" "unat count \<le> 2 ^ 28"
  shows "\<exists>k. tree_hash_cnt count = Some (2 ^ k) \<and> 2 ^ k < unat count \<and> unat count \<le> 2 ^ Suc k"
proof -
  obtain k where k: "k < 28" "2 ^ k < unat count" "unat count \<le> 2 ^ Suc k" using pow2_between [of "unat count" 28] assms by auto
  then have "1 \<le> k" using assms(1) by (cases k) simp_all
  then show ?thesis using tree_hash_cnt_value [OF k(2,3)] k by blast
qed

theorem tree_hash_cnt_terminates_witness: "\<exists>k. tree_hash_cnt 514 = Some (2 ^ k) \<and> 2 ^ k < (514 :: nat) \<and> 514 \<le> (2 ^ Suc k :: nat)"
  using tree_hash_cnt_terminates [of 514] by simp

text \<open>C33: \<open>tree_hash\<close>, which works in place in one buffer, returns the root of the binary hash tree whose lowest full level has
  2^k nodes: the hashes that need no partner, followed by the hashes of pairs of the others. No assertion fails.\<close>

theorem tree_hash_is_merkle_root:
  "2 ^ k < length hs \<Longrightarrow> length hs \<le> 2 ^ Suc k \<Longrightarrow> k < 28 \<Longrightarrow> tree_hash hs = Some (merkle k (tree_base k hs))"
  by (rule tree_hash_value)

theorem tree_hash_is_merkle_root_witness:
  "tree_hash (replicate 3 (replicate 32 0)) =
     Some (cn_fast_hash (replicate 32 0 @ cn_fast_hash (replicate 32 0 @ replicate 32 0)))"
  using tree_hash_is_merkle_root [of 1 "replicate 3 (replicate 32 0)"]
  by (simp add: tree_base_def numeral_3_eq_3)



end
