(* ===== verification/Binary_Archive.thy ===== *)
theory Binary_Archive
  imports Varint "HOL-Library.Monad_Syntax"
begin

text \<open>
  The binary archive of \<open>serialization/binary_archive.h\<close> and the containers of \<open>serialization/container.h\<close>. Reading takes the bytes
  that are left and returns a value and the bytes left after it, or \<open>None\<close>: once \<open>good_\<close> is false, or a serializer returns
  false, every caller returns false and the values read are discarded. Writing returns the bytes put on the stream, which
  does not fail itself.

  The locale \<open>codec\<close> is what every serializable type promises: what was written is read back, and what was read with
  bytes left over is what would be written. (At the end of the input \<open>read_varint\<close> also accepts an integer cut short.)
\<close>

section \<open>The archive\<close>

type_synonym 'a reader = "bytes \<Rightarrow> ('a \<times> bytes) option"
type_synonym 'a writer = "'a \<Rightarrow> bytes"

definition serialize_uint_r :: "nat \<Rightarrow> 'a::len word reader" where
  "serialize_uint_r sz b = (if sz \<le> length b then Some (load_le (take sz b), drop sz b) else None)"

definition serialize_uint_w :: "nat \<Rightarrow> 'a::len word writer" where
  "serialize_uint_w sz v = store_le sz v"

definition serialize_blob_r :: "nat \<Rightarrow> bytes reader" where
  "serialize_blob_r len b = (if len \<le> length b then Some (take len b, drop len b) else None)"

definition serialize_blob_w :: "nat \<Rightarrow> bytes writer" where
  "serialize_blob_w len v = take len v"

definition serialize_uvarint_r :: "nat \<Rightarrow> u64 reader" where
  "serialize_uvarint_r bits b =
     (case read_varint bits b of (n, v, rest) \<Rightarrow> if 0 \<le> n then Some (v, rest) else None)"

definition serialize_uvarint_w :: "u64 writer" where
  "serialize_uvarint_w v = write_varint v"

section \<open>Containers\<close>

text \<open>Elements one after the other, as the loops of the containers and of the arrays without a count.\<close>

fun elements_r :: "'a reader \<Rightarrow> nat \<Rightarrow> 'a list reader" where
  "elements_r p 0 b = Some ([], b)"
| "elements_r p (Suc n) b = do {
     (x, b) \<leftarrow> p b;
     (xs, b) \<leftarrow> elements_r p n b;
     Some (x # xs, b)
   }"

definition elements_w :: "'a writer \<Rightarrow> 'a list writer" where
  "elements_w s v = concat (map s v)"

fun elements_wo :: "('a \<Rightarrow> bytes option) \<Rightarrow> 'a list \<Rightarrow> bytes option" where
  "elements_wo s [] = Some []"
| "elements_wo s (x # xs) = do {
     c \<leftarrow> s x;
     d \<leftarrow> elements_wo s xs;
     Some (c @ d)
   }"

definition do_serialize_container_r :: "'a reader \<Rightarrow> 'a list reader" where
  "do_serialize_container_r p b = do {
     (cnt, b) \<leftarrow> serialize_uvarint_r 64 b;
     if length b < unat cnt then None
     else elements_r p (unat cnt) b
   }"

definition do_serialize_container_w :: "'a writer \<Rightarrow> 'a list writer" where
  "do_serialize_container_w s v =
     (let cnt = of_nat (length v)
      in serialize_uvarint_w cnt @ elements_w s v)"

section \<open>What a serializer promises\<close>

lemma bind_pair_iff: "Option.bind o1 (\<lambda>(x, b). f x b) = Some z \<longleftrightarrow> (\<exists>x b. o1 = Some (x, b) \<and> f x b = Some z)"
  by (cases o1) auto

lemma list_all_conj: "list_all (\<lambda>x. P x \<and> Q x) xs \<Longrightarrow> list_all P xs"
  by (simp add: list_all_iff)

locale codec =
  fixes w :: "'a writer" and r :: "'a reader" and ok :: "'a \<Rightarrow> bool"
  assumes reads_back: "ok x \<Longrightarrow> r (w x @ b) = Some (x, b)"
    and canonical: "r b = Some (x, b') \<Longrightarrow> b' \<noteq> [] \<Longrightarrow> ok x \<and> b = w x @ b'"
begin

lemma read_iff: "b' \<noteq> [] \<Longrightarrow> r b = Some (x, b') \<longleftrightarrow> ok x \<and> b = w x @ b'"
  using reads_back canonical by blast

lemma reads_back_all: "ok x \<Longrightarrow> r (w x) = Some (x, [])"
  using reads_back [of x "[]"] by simp

lemma elements_reads_back: "list_all ok xs \<Longrightarrow> elements_r r (length xs) (elements_w w xs @ b) = Some (xs, b)"
  by (induction xs) (simp_all add: elements_w_def reads_back)

lemma elements_size: "elements_r p n b = Some (xs, b') \<Longrightarrow> length xs = n"
  by (induction n arbitrary: b xs) (auto simp: bind_eq_Some_conv)

lemma elements_canonical: "elements_r r n b = Some (xs, b') \<Longrightarrow> b' \<noteq> [] \<Longrightarrow> list_all ok xs \<and> b = elements_w w xs @ b'"
proof (induction n arbitrary: b xs)
  case (Suc n)
  then obtain x b1 ys where s: "r b = Some (x, b1)" "elements_r r n b1 = Some (ys, b')" "xs = x # ys"
    by (auto simp: bind_eq_Some_conv)
  have t: "list_all ok ys" "b1 = elements_w w ys @ b'" using Suc.IH [OF s(2) Suc.prems(2)] by auto
  then show ?case using canonical [OF s(1)] Suc.prems(2) s(3) by (simp add: elements_w_def)
qed (simp add: elements_w_def)

text \<open>An array of a known size.\<close>

lemma array_codec: "codec (elements_w w) (elements_r r n) (\<lambda>xs. length xs = n \<and> list_all ok xs)"
  by unfold_locales (use elements_reads_back elements_canonical elements_size in \<open>blast+\<close>)

lemma optional_codec:
  "codec (\<lambda>x. if c then w x else []) (\<lambda>b. if c then r b else Some (v, b)) (\<lambda>x. if c then ok x else x = v)"
  by unfold_locales (use reads_back canonical in \<open>auto split: if_splits\<close>)

end

text \<open>
  A type of fixed layout, made of blobs and integers of fixed size only, is canonical also at the end of the input. Arrays of
  such a type are, and the parts that are on the archive for some types of signature only.
\<close>

locale solid_codec =
  fixes w :: "'a writer" and r :: "'a reader" and ok :: "'a \<Rightarrow> bool"
  assumes solid_iff: "r b = Some (x, b') \<longleftrightarrow> ok x \<and> b = w x @ b'"

sublocale solid_codec \<subseteq> codec
  by unfold_locales (auto simp: solid_iff)

context solid_codec
begin

lemma axioms_codec: "codec w r ok"
  by (rule codec_axioms)

lemma elements_solid: "elements_r r n b = Some (xs, b') \<Longrightarrow> list_all ok xs \<and> b = elements_w w xs @ b'"
proof (induction n arbitrary: b xs)
  case (Suc n)
  then obtain x b1 ys where s: "r b = Some (x, b1)" "elements_r r n b1 = Some (ys, b')" "xs = x # ys"
    by (auto simp: bind_eq_Some_conv)
  then show ?case using Suc.IH [OF s(2)] by (simp add: elements_w_def solid_iff)
qed (simp add: elements_w_def)

lemma array_solid: "solid_codec (elements_w w) (elements_r r n) (\<lambda>xs. length xs = n \<and> list_all ok xs)"
  by unfold_locales (use elements_reads_back elements_solid elements_size in blast)

lemma optional_solid:
  "solid_codec (\<lambda>x. if c then w x else []) (\<lambda>b. if c then r b else Some (v, b)) (\<lambda>x. if c then ok x else x = v)"
  by unfold_locales (auto simp: solid_iff)

lemma absent_solid:
  "solid_codec (\<lambda>x. if c then [] else w x) (\<lambda>b. if c then Some (v, b) else r b) (\<lambda>x. if c then x = v else ok x)"
  by unfold_locales (auto simp: solid_iff)

end

text \<open>A type whose writer may return false: it does not on the values that can be read back.\<close>

locale checked_codec = codec "\<lambda>x. the (w x)" r ok for w :: "'a \<Rightarrow> bytes option" and r ok +
  assumes writes: "ok x \<Longrightarrow> w x \<noteq> None"
begin

lemma written: "ok x \<Longrightarrow> w x = Some (the (w x))"
  using writes by simp

lemma elements_written: "list_all ok xs \<Longrightarrow> elements_wo w xs = Some (elements_w (\<lambda>x. the (w x)) xs)"
proof (induction xs)
  case (Cons x xs)
  then show ?case using written [of x] by (cases "w x") (simp_all add: elements_w_def)
qed (simp add: elements_w_def)

end

section \<open>Integers and blobs\<close>

lemma varint_reads_back: "unat v < 2 ^ bits \<Longrightarrow> 0 < bits \<Longrightarrow> bits \<le> 64 \<Longrightarrow> serialize_uvarint_r bits (serialize_uvarint_w v @ b) = Some (v, b)"
  using read_varint_loop_write [of 0 bits v 0 0 b]
  by (simp add: serialize_uvarint_w_def serialize_uvarint_r_def read_varint_def unat_inv)

lemma varint_canonical:
  assumes "serialize_uvarint_r bits b = Some (v, b')" "b' \<noteq> []" "0 < bits" "bits \<le> 64"
  shows "unat v < 2 ^ bits \<and> b = serialize_uvarint_w v @ b'"
proof -
  obtain n where n: "read_varint bits b = (n, v, b')" "0 \<le> n"
    using assms(1) by (auto simp: serialize_uvarint_r_def split: prod.splits if_splits)
  show ?thesis using read_varint_canonical [OF n assms(3,4)] read_varint_range [OF n assms(3,4)] assms(2)
    by (auto simp: serialize_uvarint_w_def)
qed

text \<open>The containers check that there is a byte left for every element, so that elements must not be empty.\<close>

locale element_codec = codec +
  assumes nonempty: "ok x \<Longrightarrow> w x \<noteq> []"
begin

lemma elements_length: "list_all ok xs \<Longrightarrow> length xs \<le> length (elements_w w xs)"
proof (induction xs)
  case (Cons x xs)
  then show ?case using nonempty [of x] by (cases "w x") (simp_all add: elements_w_def)
qed simp

lemma container_reads_back:
  assumes "list_all ok xs" "length xs < 2 ^ 64"
  shows "do_serialize_container_r r (do_serialize_container_w w xs @ b) = Some (xs, b)"
proof -
  have u: "unat (of_nat (length xs) :: u64) = length xs" using assms(2) by (rule unat_of_nat_u64)
  have "serialize_uvarint_r 64 (serialize_uvarint_w (of_nat (length xs)) @ elements_w w xs @ b) = Some (of_nat (length xs), elements_w w xs @ b)"
    using u assms(2) by (intro varint_reads_back) simp_all
  then show ?thesis using elements_reads_back [OF assms(1)] elements_length [OF assms(1)] u
    by (simp add: do_serialize_container_r_def do_serialize_container_w_def)
qed

lemma container_canonical:
  assumes "do_serialize_container_r r b = Some (xs, b')" "b' \<noteq> []"
  shows "list_all ok xs \<and> length xs < 2 ^ 64 \<and> b = do_serialize_container_w w xs @ b'"
proof -
  obtain cnt b1 where s: "serialize_uvarint_r 64 b = Some (cnt, b1)" "elements_r r (unat cnt) b1 = Some (xs, b')"
    using assms(1) by (auto simp: do_serialize_container_r_def bind_eq_Some_conv split: if_splits)
  have l: "length xs = unat cnt" "b1 \<noteq> []"
    using elements_size [OF s(2)] elements_canonical [OF s(2) assms(2)] assms(2) by simp_all
  have "b = serialize_uvarint_w cnt @ b1" using varint_canonical [OF s(1) l(2)] by simp
  then show ?thesis using elements_canonical [OF s(2) assms(2)] l(1) unat_u64_lt [of cnt]
    by (auto simp: do_serialize_container_w_def unat_inv)
qed

lemma vector_codec:
  "element_codec (do_serialize_container_w w) (do_serialize_container_r r) (\<lambda>xs. list_all ok xs \<and> length xs < 2 ^ 64)"
proof unfold_locales
  show "do_serialize_container_w w xs \<noteq> []" for xs
    by (simp add: do_serialize_container_w_def serialize_uvarint_w_def)
qed (use container_reads_back container_canonical in \<open>blast+\<close>)

end

lemma uint_solid:
  assumes "8 * n = LENGTH('a)"
  shows "solid_codec (serialize_uint_w n :: 'a::len word writer) (serialize_uint_r n) (\<lambda>x. True)"
proof unfold_locales
  show "serialize_uint_r n b = Some (x, b') \<longleftrightarrow> True \<and> b = serialize_uint_w n x @ b'" for b b' and x :: "'a word"
    using assms by (auto simp: serialize_uint_r_def serialize_uint_w_def store_load_le load_store_le)
qed

lemma uint_codec:
  assumes "8 * n = LENGTH('a)" "0 < n"
  shows "element_codec (serialize_uint_w n :: 'a::len word writer) (serialize_uint_r n) (\<lambda>x. True)"
proof (intro element_codec.intro element_codec_axioms.intro)
  show "codec (serialize_uint_w n :: 'a word writer) (serialize_uint_r n) (\<lambda>x. True)"
    using uint_solid [OF assms(1)] by (rule solid_codec.axioms_codec)
  show "serialize_uint_w n x \<noteq> []" for x :: "'a word"
    using assms(2) length_store_le [of n x] by (auto simp: serialize_uint_w_def simp del: length_store_le)
qed

lemma blob_solid: "solid_codec (serialize_blob_w n) (serialize_blob_r n) (\<lambda>x. length x = n)"
  by unfold_locales (auto simp: serialize_blob_r_def serialize_blob_w_def intro: append_take_drop_id [symmetric])

lemma blob_codec: "0 < n \<Longrightarrow> element_codec (serialize_blob_w n) (serialize_blob_r n) (\<lambda>x. length x = n)"
  by (intro element_codec.intro element_codec_axioms.intro solid_codec.axioms_codec blob_solid) (auto simp: serialize_blob_w_def)

lemma varint_codec: "0 < bits \<Longrightarrow> bits \<le> 64 \<Longrightarrow> element_codec serialize_uvarint_w (serialize_uvarint_r bits) (\<lambda>v. unat v < 2 ^ bits)"
  by unfold_locales (use varint_reads_back varint_canonical in \<open>simp_all add: serialize_uvarint_w_def\<close>)

lemma varint64_codec: "element_codec serialize_uvarint_w (serialize_uvarint_r 64) (\<lambda>v. True)"
  using varint_codec [of 64] unat_u64_lt by simp

section \<open>The primitive types\<close>

text \<open>
  The types the structures are made of: bytes, 32-bit integers of four bytes, integers of variable length, hashes, keys, key
  images and signatures (blobs), and the vectors of them. The facts collected in \<open>codec_simps\<close> read back what was written and
  turn the success of a reader, with bytes left over, into an equation for its input.
\<close>

named_theorems codec_simps

interpretation byte: element_codec "serialize_uint_w 1 :: u8 writer" "serialize_uint_r 1" "\<lambda>x. True"
  by (rule uint_codec) simp_all

interpretation byte_solid: solid_codec "serialize_uint_w 1 :: u8 writer" "serialize_uint_r 1" "\<lambda>x. True"
  by (rule uint_solid) simp

interpretation word32_solid: solid_codec "serialize_uint_w 4 :: u32 writer" "serialize_uint_r 4" "\<lambda>x. True"
  by (rule uint_solid) simp

interpretation varint: element_codec serialize_uvarint_w "serialize_uvarint_r 64" "\<lambda>x. True"
  by (rule varint64_codec)

interpretation varint32: element_codec serialize_uvarint_w "serialize_uvarint_r 32" "\<lambda>v. unat v < 2 ^ 32"
  by (rule varint_codec) simp_all

interpretation varint8: element_codec serialize_uvarint_w "serialize_uvarint_r 8" "\<lambda>v. unat v < 2 ^ 8"
  by (rule varint_codec) simp_all

interpretation blob32: element_codec "serialize_blob_w 32" "serialize_blob_r 32" "\<lambda>x. length x = 32"
  by (rule blob_codec) simp

interpretation blob32_solid: solid_codec "serialize_blob_w 32" "serialize_blob_r 32" "\<lambda>x. length x = 32"
  by (rule blob_solid)

interpretation blob64_solid: solid_codec "serialize_blob_w 64" "serialize_blob_r 64" "\<lambda>x. length x = 64"
  by (rule blob_solid)

interpretation blob8_solid: solid_codec "serialize_blob_w 8" "serialize_blob_r 8" "\<lambda>x. length x = 8"
  by (rule blob_solid)

interpretation byte_vector: element_codec "do_serialize_container_w (serialize_uint_w 1 :: u8 writer)"
  "do_serialize_container_r (serialize_uint_r 1)" "\<lambda>xs. list_all (\<lambda>x. True) xs \<and> length xs < 2 ^ 64"
  by (rule byte.vector_codec)

interpretation varint_vector: element_codec "do_serialize_container_w serialize_uvarint_w"
  "do_serialize_container_r (serialize_uvarint_r 64)" "\<lambda>xs. list_all (\<lambda>x. True) xs \<and> length xs < 2 ^ 64"
  by (rule varint.vector_codec)

interpretation blob32_vector: element_codec "do_serialize_container_w (serialize_blob_w 32)"
  "do_serialize_container_r (serialize_blob_r 32)" "\<lambda>xs. list_all (\<lambda>x. length x = 32) xs \<and> length xs < 2 ^ 64"
  by (rule blob32.vector_codec)

interpretation blob32_array: solid_codec "elements_w (serialize_blob_w 32)" "elements_r (serialize_blob_r 32) n"
  "\<lambda>xs. length xs = n \<and> list_all (\<lambda>x. length x = 32) xs" for n
  by (rule blob32_solid.array_solid)

interpretation blob64_array: solid_codec "elements_w (serialize_blob_w 64)" "elements_r (serialize_blob_r 64) n"
  "\<lambda>xs. length xs = n \<and> list_all (\<lambda>x. length x = 64) xs" for n
  by (rule blob64_solid.array_solid)

lemmas primitive_reads [codec_simps] =
  byte.reads_back [unfolded One_nat_def] word32_solid.reads_back varint.reads_back varint32.reads_back varint8.reads_back
  blob32.reads_back blob64_solid.reads_back blob8_solid.reads_back byte_vector.reads_back [unfolded One_nat_def]
  varint_vector.reads_back blob32_vector.reads_back blob32_array.reads_back blob64_array.reads_back

lemmas primitive_iffs [codec_simps] =
  byte_solid.solid_iff [unfolded One_nat_def] word32_solid.solid_iff varint.read_iff varint32.read_iff varint8.read_iff
  blob32_solid.solid_iff blob64_solid.solid_iff blob8_solid.solid_iff byte_vector.read_iff [unfolded One_nat_def]
  varint_vector.read_iff blob32_vector.read_iff blob32_array.solid_iff blob64_array.solid_iff

section \<open>Whole blobs\<close>

text \<open>
  \<open>serialize\<close> wants all the input to be used, \<open>serialize_noeof\<close> does not; \<open>parse_binary\<close> and \<open>dump_binary\<close> go from and to a
  string.
\<close>

definition serialize_load :: "'a reader \<Rightarrow> bytes \<Rightarrow> 'a option" where
  "serialize_load r blob = do {
     (v, b) \<leftarrow> r blob;
     if b = [] then Some v else None
   }"

definition serialize_noeof_load :: "'a reader \<Rightarrow> bytes \<Rightarrow> 'a option" where
  "serialize_noeof_load r blob = do {
     (v, b) \<leftarrow> r blob;
     Some v
   }"

definition parse_binary :: "'a reader \<Rightarrow> bytes \<Rightarrow> 'a option" where
  "parse_binary r blob = serialize_load r blob"

context codec
begin

lemma parse_dumped: "ok x \<Longrightarrow> parse_binary r (w x) = Some x"
  by (simp add: parse_binary_def serialize_load_def reads_back_all)

end

end
