(* ===== verification/Ringct_Types.thy ===== *)
theory Ringct_Types
  imports Binary_Archive
begin

text \<open>
  The ring confidential transaction data of \<open>ringct/rctTypes.h\<close> and how it is put on the binary archive: the base part, the
  prunable part, and the number of outputs a set of bulletproofs is good for (\<open>rctTypes.cpp\<close>).

  A reader fills an object that was default-constructed, whose vectors are empty: \<open>PREPARE_CUSTOM_VECTOR_SERIALIZATION\<close> then
  makes value-initialised elements, and the parts of them that are not on the archive stay zero or empty. The other parts of
  the object that are not on the archive are those of the object the reader is given.
\<close>

section \<open>Data\<close>

type_synonym key = bytes

definition zero_key :: key where
  "zero_key = replicate 32 0"

record ctkey =
  ct_dest :: key
  ct_mask :: key

record ecdhTuple =
  ecdh_mask :: key
  ecdh_amount :: key

record boroSig =
  s0 :: "key list"
  s1 :: "key list"
  ee :: key

record rangeSig =
  asig :: boroSig
  Ci :: "key list"

record mgSig =
  mg_ss :: "key list list"
  mg_cc :: key
  mg_II :: "key list"

record clsag =
  cl_s :: "key list"
  cl_c1 :: key
  cl_I :: key
  cl_D :: key

record Bulletproof =
  bp_V :: "key list"
  bp_A :: key
  bp_S :: key
  bp_T1 :: key
  bp_T2 :: key
  bp_taux :: key
  bp_mu :: key
  bp_L :: "key list"
  bp_R :: "key list"
  bp_a :: key
  bp_b :: key
  bp_t :: key

record rctSigBase =
  rct_type :: u8
  message :: key
  mixRing :: "ctkey list list"
  base_pseudoOuts :: "key list"
  ecdhInfo :: "ecdhTuple list"
  outPk :: "ctkey list"
  txnFee :: u64

record rctSigPrunable =
  rangeSigs :: "rangeSig list"
  bulletproofs :: "Bulletproof list"
  MGs :: "mgSig list"
  CLSAGs :: "clsag list"
  pseudoOuts :: "key list"

record rctSig =
  rct_base :: rctSigBase
  rct_p :: rctSigPrunable

abbreviation (input) RCTTypeNull :: u8 where "RCTTypeNull \<equiv> 0"
abbreviation (input) RCTTypeFull :: u8 where "RCTTypeFull \<equiv> 1"
abbreviation (input) RCTTypeSimple :: u8 where "RCTTypeSimple \<equiv> 2"
abbreviation (input) RCTTypeBulletproof :: u8 where "RCTTypeBulletproof \<equiv> 3"
abbreviation (input) RCTTypeBulletproof2 :: u8 where "RCTTypeBulletproof2 \<equiv> 4"
abbreviation (input) RCTTypeCLSAG :: u8 where "RCTTypeCLSAG \<equiv> 5"

section \<open>Structures\<close>

definition ecdhTuple_r :: "u8 \<Rightarrow> ecdhTuple reader" where
  "ecdhTuple_r t b =
     (if t = RCTTypeBulletproof2 \<or> t = RCTTypeCLSAG then do {
        (amount, b) \<leftarrow> serialize_blob_r 8 b;
        Some (\<lparr>ecdh_mask = zero_key, ecdh_amount = amount @ replicate 24 0\<rparr>, b)
      } else do {
        (mask, b) \<leftarrow> serialize_blob_r 32 b;
        (amount, b) \<leftarrow> serialize_blob_r 32 b;
        Some (\<lparr>ecdh_mask = mask, ecdh_amount = amount\<rparr>, b)
      })"

definition ecdhTuple_w :: "u8 \<Rightarrow> ecdhTuple writer" where
  "ecdhTuple_w t e =
     (if t = RCTTypeBulletproof2 \<or> t = RCTTypeCLSAG then serialize_blob_w 8 (ecdh_amount e)
      else serialize_blob_w 32 (ecdh_mask e) @ serialize_blob_w 32 (ecdh_amount e))"

definition outPk_mask_r :: "ctkey reader" where
  "outPk_mask_r b = do {
     (mask, b) \<leftarrow> serialize_blob_r 32 b;
     Some (\<lparr>ct_dest = zero_key, ct_mask = mask\<rparr>, b)
   }"

definition outPk_mask_w :: "ctkey writer" where
  "outPk_mask_w k = serialize_blob_w 32 (ct_mask k)"

definition boroSig_r :: "boroSig reader" where
  "boroSig_r b = do {
     (s0, b) \<leftarrow> elements_r (serialize_blob_r 32) 64 b;
     (s1, b) \<leftarrow> elements_r (serialize_blob_r 32) 64 b;
     (ee, b) \<leftarrow> serialize_blob_r 32 b;
     Some (\<lparr>s0 = s0, s1 = s1, ee = ee\<rparr>, b)
   }"

definition boroSig_w :: "boroSig writer" where
  "boroSig_w v = elements_w (serialize_blob_w 32) (s0 v) @ elements_w (serialize_blob_w 32) (s1 v) @ serialize_blob_w 32 (ee v)"

definition rangeSig_r :: "rangeSig reader" where
  "rangeSig_r b = do {
     (asig, b) \<leftarrow> boroSig_r b;
     (Ci, b) \<leftarrow> elements_r (serialize_blob_r 32) 64 b;
     Some (\<lparr>asig = asig, Ci = Ci\<rparr>, b)
   }"

definition rangeSig_w :: "rangeSig writer" where
  "rangeSig_w v = boroSig_w (asig v) @ elements_w (serialize_blob_w 32) (Ci v)"

definition Bulletproof_r :: "Bulletproof reader" where
  "Bulletproof_r bs = do {
     (A, bs) \<leftarrow> serialize_blob_r 32 bs;
     (S, bs) \<leftarrow> serialize_blob_r 32 bs;
     (T1, bs) \<leftarrow> serialize_blob_r 32 bs;
     (T2, bs) \<leftarrow> serialize_blob_r 32 bs;
     (taux, bs) \<leftarrow> serialize_blob_r 32 bs;
     (mu, bs) \<leftarrow> serialize_blob_r 32 bs;
     (L, bs) \<leftarrow> do_serialize_container_r (serialize_blob_r 32) bs;
     (R, bs) \<leftarrow> do_serialize_container_r (serialize_blob_r 32) bs;
     (a, bs) \<leftarrow> serialize_blob_r 32 bs;
     (b, bs) \<leftarrow> serialize_blob_r 32 bs;
     (t, bs) \<leftarrow> serialize_blob_r 32 bs;
     if L = [] \<or> length L \<noteq> length R then None
     else Some (\<lparr>bp_V = [], bp_A = A, bp_S = S, bp_T1 = T1, bp_T2 = T2, bp_taux = taux, bp_mu = mu, bp_L = L, bp_R = R,
                 bp_a = a, bp_b = b, bp_t = t\<rparr>, bs)
   }"

definition Bulletproof_w :: "Bulletproof \<Rightarrow> bytes option" where
  "Bulletproof_w v =
     (let bs = serialize_blob_w 32 (bp_A v) @ serialize_blob_w 32 (bp_S v) @ serialize_blob_w 32 (bp_T1 v) @
               serialize_blob_w 32 (bp_T2 v) @ serialize_blob_w 32 (bp_taux v) @ serialize_blob_w 32 (bp_mu v) @
               do_serialize_container_w (serialize_blob_w 32) (bp_L v) @ do_serialize_container_w (serialize_blob_w 32) (bp_R v) @
               serialize_blob_w 32 (bp_a v) @ serialize_blob_w 32 (bp_b v) @ serialize_blob_w 32 (bp_t v)
      in if bp_L v = [] \<or> length (bp_L v) \<noteq> length (bp_R v) then None else Some bs)"

text \<open>The number of outputs a bulletproof, and a vector of them, can be for; zero is the error value.\<close>

definition n_bulletproof_max_amounts1 :: "Bulletproof \<Rightarrow> nat" where
  "n_bulletproof_max_amounts1 proof =
     (if length (bp_L proof) < 6 then 0
      else if length (bp_L proof) \<noteq> length (bp_R proof) then 0
      else if 6 + 4 < length (bp_L proof) then 0
      else 2 ^ (length (bp_L proof) - 6))"

fun n_bulletproof_max_amounts_loop :: "nat \<Rightarrow> Bulletproof list \<Rightarrow> nat" where
  "n_bulletproof_max_amounts_loop n [] = n"
| "n_bulletproof_max_amounts_loop n (proof # proofs) =
     (let n2 = n_bulletproof_max_amounts1 proof
      in if \<not> n2 < 4294967295 - n then 0
         else if n2 = 0 then 0
         else n_bulletproof_max_amounts_loop (n + n2) proofs)"

definition n_bulletproof_max_amounts :: "Bulletproof list \<Rightarrow> nat" where
  "n_bulletproof_max_amounts proofs = n_bulletproof_max_amounts_loop 0 proofs"

definition n_bulletproof_amounts1 :: "Bulletproof \<Rightarrow> nat" where
  "n_bulletproof_amounts1 proof =
     (if length (bp_L proof) < 6 then 0
      else if length (bp_L proof) \<noteq> length (bp_R proof) then 0
      else if 6 + 4 < length (bp_L proof) then 0
      else if 2 ^ (length (bp_L proof) - 6) < length (bp_V proof) then 0
      else if length (bp_V proof) * 2 \<le> 2 ^ (length (bp_L proof) - 6) then 0
      else length (bp_V proof))"

fun n_bulletproof_amounts_loop :: "nat \<Rightarrow> Bulletproof list \<Rightarrow> nat" where
  "n_bulletproof_amounts_loop n [] = n"
| "n_bulletproof_amounts_loop n (proof # proofs) =
     (let n2 = n_bulletproof_amounts1 proof
      in if \<not> n2 < 4294967295 - n then 0
         else if n2 = 0 then 0
         else n_bulletproof_amounts_loop (n + n2) proofs)"

definition n_bulletproof_amounts :: "Bulletproof list \<Rightarrow> nat" where
  "n_bulletproof_amounts proofs = n_bulletproof_amounts_loop 0 proofs"

section \<open>The base part\<close>

definition valid_type :: "u8 \<Rightarrow> bool" where
  "valid_type t \<longleftrightarrow> t = RCTTypeFull \<or> t = RCTTypeSimple \<or> t = RCTTypeBulletproof \<or> t = RCTTypeBulletproof2 \<or> t = RCTTypeCLSAG"

definition serialize_rctsig_base_r :: "rctSigBase \<Rightarrow> nat \<Rightarrow> nat \<Rightarrow> rctSigBase reader" where
  "serialize_rctsig_base_r rv inputs outputs b = do {
     (t, b) \<leftarrow> serialize_uint_r 1 b;
     if t = RCTTypeNull then Some (rv\<lparr>rct_type := t\<rparr>, b)
     else if \<not> valid_type t then None
     else do {
       (fee, b) \<leftarrow> serialize_uvarint_r 64 b;
       (po, b) \<leftarrow> (if t = RCTTypeSimple then elements_r (serialize_blob_r 32) inputs b else Some (base_pseudoOuts rv, b));
       (ecdh, b) \<leftarrow> elements_r (ecdhTuple_r t) outputs b;
       (pk, b) \<leftarrow> elements_r outPk_mask_r outputs b;
       Some (rv\<lparr>rct_type := t, txnFee := fee, base_pseudoOuts := po, ecdhInfo := ecdh, outPk := pk\<rparr>, b)
     }
   }"

definition serialize_rctsig_base_w :: "rctSigBase \<Rightarrow> nat \<Rightarrow> nat \<Rightarrow> bytes option" where
  "serialize_rctsig_base_w rv inputs outputs =
     (let t = rct_type rv
      in if t = RCTTypeNull then Some (serialize_uint_w 1 t)
         else if \<not> valid_type t then None
         else if t = RCTTypeSimple \<and> length (base_pseudoOuts rv) \<noteq> inputs then None
         else if length (ecdhInfo rv) \<noteq> outputs then None
         else if length (outPk rv) \<noteq> outputs then None
         else Some (serialize_uint_w 1 t @ serialize_uvarint_w (txnFee rv) @
                    (if t = RCTTypeSimple then elements_w (serialize_blob_w 32) (base_pseudoOuts rv) else []) @
                    elements_w (ecdhTuple_w t) (ecdhInfo rv) @ elements_w outPk_mask_w (outPk rv)))"

section \<open>The prunable part\<close>

definition bp_type :: "u8 \<Rightarrow> bool" where
  "bp_type t \<longleftrightarrow> t = RCTTypeBulletproof \<or> t = RCTTypeBulletproof2 \<or> t = RCTTypeCLSAG"

text \<open>The four loops of \<open>serialize_rctsig_prunable\<close>: bulletproofs, CLSAGs, MLSAGs (rows of the matrix, then the matrices).\<close>

definition bulletproofs_r :: "u8 \<Rightarrow> nat \<Rightarrow> Bulletproof list reader" where
  "bulletproofs_r t outputs b = do {
     (nbp, b) \<leftarrow> (if t = RCTTypeBulletproof2 \<or> t = RCTTypeCLSAG then do { (n, b) \<leftarrow> serialize_uvarint_r 32 b; Some (unat n, b) }
                 else do { (n, b) \<leftarrow> serialize_uint_r 4 b; Some (unat (n :: u32), b) });
     if outputs < nbp then None
     else do {
       (bps, b) \<leftarrow> elements_r Bulletproof_r nbp b;
       if n_bulletproof_max_amounts bps < outputs then None
       else Some (bps, b)
     }
   }"

text \<open>When writing, \<open>nbp\<close> is the size of the vector cut to 32 bits, and only so many bulletproofs are written.\<close>

definition bulletproofs_w :: "u8 \<Rightarrow> nat \<Rightarrow> Bulletproof list \<Rightarrow> bytes option" where
  "bulletproofs_w t outputs bps =
     (let nbp = of_nat (length bps) :: u32
      in if outputs < unat nbp then None
         else do {
           c \<leftarrow> elements_wo Bulletproof_w (take (unat nbp) bps);
           if n_bulletproof_max_amounts bps < outputs then None
           else Some ((if t = RCTTypeBulletproof2 \<or> t = RCTTypeCLSAG then serialize_uvarint_w (ucast nbp) else serialize_uint_w 4 nbp) @ c)
         })"

definition CLSAG_r :: "nat \<Rightarrow> clsag reader" where
  "CLSAG_r ring b = do {
     (s, b) \<leftarrow> elements_r (serialize_blob_r 32) ring b;
     (c1, b) \<leftarrow> serialize_blob_r 32 b;
     (D, b) \<leftarrow> serialize_blob_r 32 b;
     Some (\<lparr>cl_s = s, cl_c1 = c1, cl_I = zero_key, cl_D = D\<rparr>, b)
   }"

definition CLSAG_w :: "nat \<Rightarrow> clsag \<Rightarrow> bytes option" where
  "CLSAG_w ring v =
     (if length (cl_s v) \<noteq> ring then None
      else Some (elements_w (serialize_blob_w 32) (cl_s v) @ serialize_blob_w 32 (cl_c1 v) @ serialize_blob_w 32 (cl_D v)))"

definition MG_r :: "nat \<Rightarrow> nat \<Rightarrow> mgSig reader" where
  "MG_r ring cols b = do {
     (ss, b) \<leftarrow> elements_r (elements_r (serialize_blob_r 32) cols) ring b;
     (cc, b) \<leftarrow> serialize_blob_r 32 b;
     Some (\<lparr>mg_ss = ss, mg_cc = cc, mg_II = []\<rparr>, b)
   }"

definition MG_w :: "nat \<Rightarrow> nat \<Rightarrow> mgSig \<Rightarrow> bytes option" where
  "MG_w ring cols v =
     (if length (mg_ss v) \<noteq> ring then None
      else if \<not> list_all (\<lambda>row. length row = cols) (mg_ss v) then None
      else Some (elements_w (elements_w (serialize_blob_w 32)) (mg_ss v) @ serialize_blob_w 32 (mg_cc v)))"

definition per_input :: "u8 \<Rightarrow> bool" where
  "per_input t \<longleftrightarrow> t = RCTTypeSimple \<or> t = RCTTypeBulletproof \<or> t = RCTTypeBulletproof2"

definition mg_elements :: "u8 \<Rightarrow> nat \<Rightarrow> nat" where
  "mg_elements t inputs = (if per_input t then inputs else 1)"

definition mg_ss2_elements :: "u8 \<Rightarrow> nat \<Rightarrow> nat" where
  "mg_ss2_elements t inputs = (if per_input t then 1 else inputs) + 1"

definition serialize_rctsig_prunable_r :: "rctSigPrunable \<Rightarrow> u8 \<Rightarrow> nat \<Rightarrow> nat \<Rightarrow> u64 \<Rightarrow> rctSigPrunable reader" where
  "serialize_rctsig_prunable_r p t inputs outputs mixin b =
     (if 4294967295 \<le> inputs then None
      else if 4294967295 \<le> outputs then None
      else if 4294967295 \<le> unat mixin then None
      else if t = RCTTypeNull then Some (p, b)
      else if \<not> valid_type t then None
      else do {
        (bps, b) \<leftarrow> (if bp_type t then bulletproofs_r t outputs b else Some (bulletproofs p, b));
        (rs, b) \<leftarrow> (if bp_type t then Some (rangeSigs p, b) else elements_r rangeSig_r outputs b);
        (cls, b) \<leftarrow> (if t = RCTTypeCLSAG then elements_r (CLSAG_r (unat mixin + 1)) inputs b else Some (CLSAGs p, b));
        (mgs, b) \<leftarrow> (if t = RCTTypeCLSAG then Some (MGs p, b)
                    else elements_r (MG_r (unat mixin + 1) (mg_ss2_elements t inputs)) (mg_elements t inputs) b);
        (po, b) \<leftarrow> (if bp_type t then elements_r (serialize_blob_r 32) inputs b else Some (pseudoOuts p, b));
        Some (\<lparr>rangeSigs = rs, bulletproofs = bps, MGs = mgs, CLSAGs = cls, pseudoOuts = po\<rparr>, b)
      })"

definition serialize_rctsig_prunable_w :: "rctSigPrunable \<Rightarrow> u8 \<Rightarrow> nat \<Rightarrow> nat \<Rightarrow> u64 \<Rightarrow> bytes option" where
  "serialize_rctsig_prunable_w p t inputs outputs mixin =
     (if 4294967295 \<le> inputs then None
      else if 4294967295 \<le> outputs then None
      else if 4294967295 \<le> unat mixin then None
      else if t = RCTTypeNull then Some []
      else if \<not> valid_type t then None
      else do {
        c1 \<leftarrow> (if bp_type t then bulletproofs_w t outputs (bulletproofs p)
              else if length (rangeSigs p) \<noteq> outputs then None
              else Some (elements_w rangeSig_w (rangeSigs p)));
        c2 \<leftarrow> (if t = RCTTypeCLSAG then
                if length (CLSAGs p) \<noteq> inputs then None
                else elements_wo (CLSAG_w (unat mixin + 1)) (CLSAGs p)
              else if length (MGs p) \<noteq> mg_elements t inputs then None
              else elements_wo (MG_w (unat mixin + 1) (mg_ss2_elements t inputs)) (MGs p));
        c3 \<leftarrow> (if bp_type t then
                if length (pseudoOuts p) \<noteq> inputs then None
                else Some (elements_w (serialize_blob_w 32) (pseudoOuts p))
              else Some []);
        Some (c1 @ c2 @ c3)
      })"

section \<open>Reading back what was written\<close>

definition ecdhTuple_ok :: "u8 \<Rightarrow> ecdhTuple \<Rightarrow> bool" where
  "ecdhTuple_ok t e \<longleftrightarrow> length (ecdh_amount e) = 32 \<and>
     (if t = RCTTypeBulletproof2 \<or> t = RCTTypeCLSAG then ecdh_mask e = zero_key \<and> drop 8 (ecdh_amount e) = replicate 24 0
      else length (ecdh_mask e) = 32)"

interpretation ecdh: solid_codec "ecdhTuple_w t" "ecdhTuple_r t" "ecdhTuple_ok t" for t
proof unfold_locales
  show "ecdhTuple_r t b = Some (x, b') \<longleftrightarrow> ecdhTuple_ok t x \<and> b = ecdhTuple_w t x @ b'" for x b b'
  proof (cases "t = RCTTypeBulletproof2 \<or> t = RCTTypeCLSAG")
    case True
    then have "ecdhTuple_r t b = Some (x, b') \<longleftrightarrow>
        (\<exists>a. length a = 8 \<and> b = a @ b' \<and> ecdh_mask x = zero_key \<and> ecdh_amount x = a @ replicate 24 0)"
      by (cases x) (auto simp: ecdhTuple_r_def bind_pair_iff codec_simps serialize_blob_w_def)
    also have "\<dots> \<longleftrightarrow> length (ecdh_amount x) = 32 \<and> ecdh_mask x = zero_key \<and> drop 8 (ecdh_amount x) = replicate 24 0 \<and>
        b = take 8 (ecdh_amount x) @ b'" (is "_ \<longleftrightarrow> ?R")
    proof
      assume ?R
      then show "\<exists>a. length a = 8 \<and> b = a @ b' \<and> ecdh_mask x = zero_key \<and> ecdh_amount x = a @ replicate 24 0"
        using append_take_drop_id [of 8 "ecdh_amount x"] by (intro exI [of _ "take 8 (ecdh_amount x)"]) simp
    qed auto
    finally show ?thesis using True by (auto simp: ecdhTuple_w_def ecdhTuple_ok_def serialize_blob_w_def)
  qed (cases x, auto simp: ecdhTuple_r_def ecdhTuple_w_def ecdhTuple_ok_def bind_pair_iff codec_simps)
qed

definition outPk_ok :: "ctkey \<Rightarrow> bool" where
  "outPk_ok k \<longleftrightarrow> ct_dest k = zero_key \<and> length (ct_mask k) = 32"

interpretation outpk: solid_codec outPk_mask_w outPk_mask_r outPk_ok
proof unfold_locales
  show "outPk_mask_r b = Some (x, b') \<longleftrightarrow> outPk_ok x \<and> b = outPk_mask_w x @ b'" for x b b'
    by (cases x) (auto simp: outPk_mask_r_def outPk_mask_w_def outPk_ok_def bind_pair_iff codec_simps)
qed

definition boroSig_ok :: "boroSig \<Rightarrow> bool" where
  "boroSig_ok v \<longleftrightarrow> length (s0 v) = 64 \<and> list_all (\<lambda>k. length k = 32) (s0 v) \<and> length (s1 v) = 64 \<and>
     list_all (\<lambda>k. length k = 32) (s1 v) \<and> length (ee v) = 32"

interpretation boro: solid_codec boroSig_w boroSig_r boroSig_ok
proof unfold_locales
  show "boroSig_r b = Some (x, b') \<longleftrightarrow> boroSig_ok x \<and> b = boroSig_w x @ b'" for x b b'
    by (cases x) (auto simp: boroSig_r_def boroSig_w_def boroSig_ok_def bind_pair_iff codec_simps)
qed

definition rangeSig_ok :: "rangeSig \<Rightarrow> bool" where
  "rangeSig_ok v \<longleftrightarrow> boroSig_ok (asig v) \<and> length (Ci v) = 64 \<and> list_all (\<lambda>k. length k = 32) (Ci v)"

interpretation range: solid_codec rangeSig_w rangeSig_r rangeSig_ok
proof unfold_locales
  show "rangeSig_r b = Some (x, b') \<longleftrightarrow> rangeSig_ok x \<and> b = rangeSig_w x @ b'" for x b b'
    by (cases x) (auto simp: rangeSig_r_def rangeSig_w_def rangeSig_ok_def bind_pair_iff boro.solid_iff codec_simps)
qed

definition Bulletproof_ok :: "Bulletproof \<Rightarrow> bool" where
  "Bulletproof_ok v \<longleftrightarrow> bp_V v = [] \<and>
     list_all (\<lambda>k. length k = 32) [bp_A v, bp_S v, bp_T1 v, bp_T2 v, bp_taux v, bp_mu v, bp_a v, bp_b v, bp_t v] \<and>
     list_all (\<lambda>k. length k = 32) (bp_L v) \<and> list_all (\<lambda>k. length k = 32) (bp_R v) \<and>
     bp_L v \<noteq> [] \<and> length (bp_L v) = length (bp_R v) \<and> length (bp_L v) < 2 ^ 64"

interpretation bulletproof: checked_codec Bulletproof_w Bulletproof_r Bulletproof_ok
proof unfold_locales
  show "Bulletproof_r (the (Bulletproof_w x) @ b) = Some (x, b)" if "Bulletproof_ok x" for x b
    using that by (cases x) (simp add: Bulletproof_r_def Bulletproof_w_def Bulletproof_ok_def codec_simps)
  show "Bulletproof_ok x \<and> b = the (Bulletproof_w x) @ b'" if "Bulletproof_r b = Some (x, b')" "b' \<noteq> []" for x b b'
    using that
    by (auto simp: Bulletproof_r_def Bulletproof_w_def Bulletproof_ok_def bind_eq_Some_conv codec_simps split: if_splits)
  show "Bulletproof_w x \<noteq> None" if "Bulletproof_ok x" for x
    using that by (simp add: Bulletproof_w_def Bulletproof_ok_def Let_def)
qed

definition CLSAG_ok :: "nat \<Rightarrow> clsag \<Rightarrow> bool" where
  "CLSAG_ok ring v \<longleftrightarrow> length (cl_s v) = ring \<and> list_all (\<lambda>k. length k = 32) (cl_s v) \<and> length (cl_c1 v) = 32 \<and>
     cl_I v = zero_key \<and> length (cl_D v) = 32"

interpretation clsag_solid: solid_codec "\<lambda>x. the (CLSAG_w ring x)" "CLSAG_r ring" "CLSAG_ok ring" for ring
proof unfold_locales
  show "CLSAG_r ring b = Some (x, b') \<longleftrightarrow> CLSAG_ok ring x \<and> b = the (CLSAG_w ring x) @ b'" for x b b'
    by (cases x) (auto simp: CLSAG_r_def CLSAG_w_def CLSAG_ok_def bind_pair_iff codec_simps)
qed

interpretation clsag_sig: checked_codec "CLSAG_w ring" "CLSAG_r ring" "CLSAG_ok ring" for ring
  by unfold_locales (simp add: CLSAG_w_def CLSAG_ok_def)

definition MG_ok :: "nat \<Rightarrow> nat \<Rightarrow> mgSig \<Rightarrow> bool" where
  "MG_ok ring cols v \<longleftrightarrow> length (mg_ss v) = ring \<and>
     list_all (\<lambda>row. length row = cols \<and> list_all (\<lambda>k. length k = 32) row) (mg_ss v) \<and> length (mg_cc v) = 32 \<and> mg_II v = []"

interpretation key_matrix: solid_codec "elements_w (elements_w (serialize_blob_w 32))" "elements_r (elements_r (serialize_blob_r 32) cols) n"
  "\<lambda>xs. length xs = n \<and> list_all (\<lambda>row. length row = cols \<and> list_all (\<lambda>k. length k = 32) row) xs" for cols n
  by (rule blob32_array.array_solid)

interpretation mg_solid: solid_codec "\<lambda>x. the (MG_w ring cols x)" "MG_r ring cols" "MG_ok ring cols" for ring cols
proof unfold_locales
  show "MG_r ring cols b = Some (x, b') \<longleftrightarrow> MG_ok ring cols x \<and> b = the (MG_w ring cols x) @ b'" for x b b'
    by (cases x) (auto simp: MG_r_def MG_w_def MG_ok_def bind_pair_iff key_matrix.solid_iff codec_simps dest: list_all_conj)
qed

interpretation mg_sig: checked_codec "MG_w ring cols" "MG_r ring cols" "MG_ok ring cols" for ring cols
  by unfold_locales (auto simp: MG_w_def MG_ok_def dest: list_all_conj)

text \<open>The arrays of them.\<close>

interpretation bulletproof_array: codec "elements_w (\<lambda>x. the (Bulletproof_w x))" "elements_r Bulletproof_r n"
  "\<lambda>xs. length xs = n \<and> list_all Bulletproof_ok xs" for n
  by (rule bulletproof.array_codec)

interpretation range_array: solid_codec "elements_w rangeSig_w" "elements_r rangeSig_r n"
  "\<lambda>xs. length xs = n \<and> list_all rangeSig_ok xs" for n
  by (rule range.array_solid)

interpretation ecdh_array: solid_codec "elements_w (ecdhTuple_w t)" "elements_r (ecdhTuple_r t) n"
  "\<lambda>xs. length xs = n \<and> list_all (ecdhTuple_ok t) xs" for t n
  by (rule ecdh.array_solid)

interpretation outpk_array: solid_codec "elements_w outPk_mask_w" "elements_r outPk_mask_r n"
  "\<lambda>xs. length xs = n \<and> list_all outPk_ok xs" for n
  by (rule outpk.array_solid)

interpretation clsag_array: solid_codec "elements_w (\<lambda>x. the (CLSAG_w ring x))" "elements_r (CLSAG_r ring) n"
  "\<lambda>xs. length xs = n \<and> list_all (CLSAG_ok ring) xs" for ring n
  by (rule clsag_solid.array_solid)

interpretation mg_array: solid_codec "elements_w (\<lambda>x. the (MG_w ring cols x))" "elements_r (MG_r ring cols) n"
  "\<lambda>xs. length xs = n \<and> list_all (MG_ok ring cols) xs" for ring cols n
  by (rule mg_solid.array_solid)

lemmas array_reads [codec_simps] = bulletproof_array.reads_back range_array.reads_back ecdh_array.reads_back
  outpk_array.reads_back clsag_array.reads_back mg_array.reads_back

lemmas array_iffs [codec_simps] = bulletproof_array.read_iff range_array.solid_iff ecdh_array.solid_iff
  outpk_array.solid_iff clsag_array.solid_iff mg_array.solid_iff

text \<open>The base part, read into the object \<open>rv\<close>.\<close>

definition rctSigBase_ok :: "rctSigBase \<Rightarrow> nat \<Rightarrow> nat \<Rightarrow> rctSigBase \<Rightarrow> bool" where
  "rctSigBase_ok rv inputs outputs x \<longleftrightarrow>
     message x = message rv \<and> mixRing x = mixRing rv \<and>
     (if rct_type x = RCTTypeNull
      then base_pseudoOuts x = base_pseudoOuts rv \<and> ecdhInfo x = ecdhInfo rv \<and> outPk x = outPk rv \<and> txnFee x = txnFee rv
      else valid_type (rct_type x) \<and>
        (if rct_type x = RCTTypeSimple
         then length (base_pseudoOuts x) = inputs \<and> list_all (\<lambda>k. length k = 32) (base_pseudoOuts x)
         else base_pseudoOuts x = base_pseudoOuts rv) \<and>
        length (ecdhInfo x) = outputs \<and> list_all (ecdhTuple_ok (rct_type x)) (ecdhInfo x) \<and>
        length (outPk x) = outputs \<and> list_all outPk_ok (outPk x))"

interpretation opt_base_pseudo: solid_codec "\<lambda>x. if t = RCTTypeSimple then elements_w (serialize_blob_w 32) x else []"
  "\<lambda>b. if t = RCTTypeSimple then elements_r (serialize_blob_r 32) inputs b else Some (v, b)"
  "\<lambda>x. if t = RCTTypeSimple then length x = inputs \<and> list_all (\<lambda>k. length k = 32) x else x = v" for t inputs v
  by (rule blob32_array.optional_solid)

text \<open>Of the base part only the fee can be cut short, when there is nothing after it.\<close>

lemma rctsig_base_canonical:
  assumes r: "serialize_rctsig_base_r rv inputs outputs b = Some (x, b')" and ne: "b' \<noteq> [] \<or> rct_type x = RCTTypeNull"
  shows "rctSigBase_ok rv inputs outputs x \<and> b = the (serialize_rctsig_base_w x inputs outputs) @ b'"
proof -
  obtain t :: u8 and b1 where t: "serialize_uint_r 1 b = Some (t, b1)"
    using r by (auto simp: serialize_rctsig_base_r_def bind_eq_Some_conv)
  then have b: "b = serialize_uint_w 1 t @ b1" using byte_solid.solid_iff by blast
  show ?thesis
  proof (cases "t = RCTTypeNull")
    case True
    then have "x = rv\<lparr>rct_type := t\<rparr>" "b1 = b'" using r t by (auto simp: serialize_rctsig_base_r_def)
    then show ?thesis using True b by (simp add: serialize_rctsig_base_w_def rctSigBase_ok_def)
  next
    case False
    have v: "valid_type t"
      using r t False by (simp add: serialize_rctsig_base_r_def split: if_split_asm)
    then obtain fee b2 po b3 ecdh b4 pk where
      s: "serialize_uvarint_r 64 b1 = Some (fee, b2)"
        "(if t = RCTTypeSimple then elements_r (serialize_blob_r 32) inputs b2 else Some (base_pseudoOuts rv, b2)) = Some (po, b3)"
        "elements_r (ecdhTuple_r t) outputs b3 = Some (ecdh, b4)" "elements_r outPk_mask_r outputs b4 = Some (pk, b')"
      and x: "x = rv\<lparr>rct_type := t, txnFee := fee, base_pseudoOuts := po, ecdhInfo := ecdh, outPk := pk\<rparr>"
      using r t False by (simp add: serialize_rctsig_base_r_def bind_pair_iff split del: if_split) blast
    note c = s(2) [unfolded opt_base_pseudo.solid_iff] s(3) [unfolded ecdh_array.solid_iff] s(4) [unfolded outpk_array.solid_iff]
    have "b2 \<noteq> []" using c ne False x by auto
    then have 1: "b1 = serialize_uvarint_w fee @ b2" using s(1) by (simp add: codec_simps)
    then show ?thesis using False x v b c
      by (cases "t = RCTTypeSimple") (simp_all add: serialize_rctsig_base_w_def rctSigBase_ok_def)
  qed
qed

interpretation rct_base_part: checked_codec "\<lambda>x. serialize_rctsig_base_w x inputs outputs"
  "serialize_rctsig_base_r rv inputs outputs" "rctSigBase_ok rv inputs outputs" for rv inputs outputs
proof unfold_locales
  show "serialize_rctsig_base_r rv inputs outputs (the (serialize_rctsig_base_w x inputs outputs) @ b) = Some (x, b)"
    if "rctSigBase_ok rv inputs outputs x" for x b
  proof -
    consider "rct_type x = RCTTypeNull" | "rct_type x \<noteq> RCTTypeNull" "rct_type x = RCTTypeSimple"
      | "rct_type x \<noteq> RCTTypeNull" "rct_type x \<noteq> RCTTypeSimple" by blast
    then show ?thesis
      by cases (use that in \<open>simp_all add: serialize_rctsig_base_r_def serialize_rctsig_base_w_def rctSigBase_ok_def codec_simps Let_def\<close>)
  qed
  show "serialize_rctsig_base_w x inputs outputs \<noteq> None" if "rctSigBase_ok rv inputs outputs x" for x
    using that by (auto simp: serialize_rctsig_base_w_def rctSigBase_ok_def Let_def)
qed (use rctsig_base_canonical in blast)

text \<open>The bulletproofs with their count.\<close>

definition bulletproofs_ok :: "nat \<Rightarrow> Bulletproof list \<Rightarrow> bool" where
  "bulletproofs_ok outputs bps \<longleftrightarrow> length bps < 2 ^ 32 \<and> length bps \<le> outputs \<and> list_all Bulletproof_ok bps \<and>
     outputs \<le> n_bulletproof_max_amounts bps"

lemma bulletproofs_written:
  assumes "bulletproofs_ok outputs bps"
  shows "bulletproofs_w t outputs bps =
    Some ((if t = RCTTypeBulletproof2 \<or> t = RCTTypeCLSAG then serialize_uvarint_w (of_nat (length bps))
           else serialize_uint_w 4 (of_nat (length bps) :: u32)) @ elements_w (\<lambda>x. the (Bulletproof_w x)) bps)"
proof -
  have u: "unat (of_nat (length bps) :: u32) = length bps" using assms unat_of_nat_u32 by (simp add: bulletproofs_ok_def)
  then have "ucast (of_nat (length bps) :: u32) = (of_nat (length bps) :: u64)"
    using unat_inv [of "ucast (of_nat (length bps) :: u32) :: u64"] by simp
  then show ?thesis using assms bulletproof.elements_written [of bps] u
    by (simp add: bulletproofs_w_def bulletproofs_ok_def)
qed

interpretation bulletproofs_part: checked_codec "bulletproofs_w t outputs" "bulletproofs_r t outputs" "bulletproofs_ok outputs"
  for t outputs
proof unfold_locales
  show "bulletproofs_w t outputs x \<noteq> None" if "bulletproofs_ok outputs x" for x
    using bulletproofs_written [OF that] by simp
  show "bulletproofs_r t outputs (the (bulletproofs_w t outputs x) @ b) = Some (x, b)" if ok: "bulletproofs_ok outputs x" for x b
  proof -
    have "length x < 2 ^ 32" using ok by (simp add: bulletproofs_ok_def)
    then have "unat (of_nat (length x) :: u32) = length x" "unat (of_nat (length x) :: u64) = length x"
      using unat_of_nat_u32 [of "length x"] unat_of_nat_u64 [of "length x"] by simp_all
    then show ?thesis using ok
      by (cases "t = RCTTypeBulletproof2 \<or> t = RCTTypeCLSAG")
        (simp_all add: bulletproofs_written bulletproofs_r_def bulletproofs_ok_def codec_simps)
  qed
  show "bulletproofs_ok outputs x \<and> b = the (bulletproofs_w t outputs x) @ b'"
    if r: "bulletproofs_r t outputs b = Some (x, b')" and ne: "b' \<noteq> []" for x b b'
  proof -
    obtain nbp b1 where
      n: "(if t = RCTTypeBulletproof2 \<or> t = RCTTypeCLSAG then do { (n, b) \<leftarrow> serialize_uvarint_r 32 b; Some (unat n, b) }
           else do { (n, b) \<leftarrow> serialize_uint_r 4 b; Some (unat (n :: u32), b) }) = Some (nbp, b1)"
      and e: "\<not> outputs < nbp" "elements_r Bulletproof_r nbp b1 = Some (x, b')" "\<not> n_bulletproof_max_amounts x < outputs"
      using r by (auto simp: bulletproofs_r_def bind_pair_iff split del: if_split split: if_split_asm)
    have x: "length x = nbp" "list_all Bulletproof_ok x" "b1 = elements_w (\<lambda>x. the (Bulletproof_w x)) x @ b'"
      using e(2) ne by (simp_all add: codec_simps)
    have l: "nbp < 2 ^ 32 \<and> b = (if t = RCTTypeBulletproof2 \<or> t = RCTTypeCLSAG then serialize_uvarint_w (of_nat nbp)
        else serialize_uint_w 4 (of_nat nbp :: u32)) @ b1"
    proof (cases "t = RCTTypeBulletproof2 \<or> t = RCTTypeCLSAG")
      case True
      then obtain m where "serialize_uvarint_r 32 b = Some (m, b1)" "nbp = unat m" using n by (auto simp: bind_pair_iff)
      then show ?thesis using True x(3) ne by (simp add: codec_simps)
    next
      case False
      then obtain m :: u32 where "serialize_uint_r 4 b = Some (m, b1)" "nbp = unat m" using n by (auto simp: bind_pair_iff)
      then show ?thesis using False x(3) ne unat_u32_lt [of m] by (simp add: codec_simps)
    qed
    then have ok: "bulletproofs_ok outputs x" using x e by (simp add: bulletproofs_ok_def)
    then show ?thesis using l x by (simp add: bulletproofs_written)
  qed
qed


interpretation opt_bulletproofs: codec "\<lambda>x. if bp_type t then the (bulletproofs_w t outputs x) else []"
  "\<lambda>b. if bp_type t then bulletproofs_r t outputs b else Some (v, b)"
  "\<lambda>x. if bp_type t then bulletproofs_ok outputs x else x = v" for t outputs v
  by (rule bulletproofs_part.optional_codec)

interpretation opt_ranges: solid_codec "\<lambda>x. if bp_type t then [] else elements_w rangeSig_w x"
  "\<lambda>b. if bp_type t then Some (v, b) else elements_r rangeSig_r outputs b"
  "\<lambda>x. if bp_type t then x = v else length x = outputs \<and> list_all rangeSig_ok x" for t outputs v
  by (rule range_array.absent_solid)

interpretation opt_clsags: solid_codec "\<lambda>x. if t = RCTTypeCLSAG then elements_w (\<lambda>x. the (CLSAG_w ring x)) x else []"
  "\<lambda>b. if t = RCTTypeCLSAG then elements_r (CLSAG_r ring) inputs b else Some (v, b)"
  "\<lambda>x. if t = RCTTypeCLSAG then length x = inputs \<and> list_all (CLSAG_ok ring) x else x = v" for t ring inputs v
  by (rule clsag_array.optional_solid)

interpretation opt_mgs: solid_codec "\<lambda>x. if t = RCTTypeCLSAG then [] else elements_w (\<lambda>x. the (MG_w ring cols x)) x"
  "\<lambda>b. if t = RCTTypeCLSAG then Some (v, b) else elements_r (MG_r ring cols) n b"
  "\<lambda>x. if t = RCTTypeCLSAG then x = v else length x = n \<and> list_all (MG_ok ring cols) x" for t ring cols n v
  by (rule mg_array.absent_solid)

interpretation opt_pseudo: solid_codec "\<lambda>x. if bp_type t then elements_w (serialize_blob_w 32) x else []"
  "\<lambda>b. if bp_type t then elements_r (serialize_blob_r 32) inputs b else Some (v, b)"
  "\<lambda>x. if bp_type t then length x = inputs \<and> list_all (\<lambda>k. length k = 32) x else x = v" for t inputs v
  by (rule blob32_array.optional_solid)

definition rctSigPrunable_ok :: "rctSigPrunable \<Rightarrow> u8 \<Rightarrow> nat \<Rightarrow> nat \<Rightarrow> u64 \<Rightarrow> rctSigPrunable \<Rightarrow> bool" where
  "rctSigPrunable_ok p t inputs outputs mixin x \<longleftrightarrow>
     inputs < 4294967295 \<and> outputs < 4294967295 \<and> unat mixin < 4294967295 \<and>
     (if t = RCTTypeNull then x = p
      else valid_type t \<and>
        (if bp_type t then bulletproofs_ok outputs (bulletproofs x) else bulletproofs x = bulletproofs p) \<and>
        (if bp_type t then rangeSigs x = rangeSigs p else length (rangeSigs x) = outputs \<and> list_all rangeSig_ok (rangeSigs x)) \<and>
        (if t = RCTTypeCLSAG then length (CLSAGs x) = inputs \<and> list_all (CLSAG_ok (unat mixin + 1)) (CLSAGs x)
         else CLSAGs x = CLSAGs p) \<and>
        (if t = RCTTypeCLSAG then MGs x = MGs p
         else length (MGs x) = mg_elements t inputs \<and> list_all (MG_ok (unat mixin + 1) (mg_ss2_elements t inputs)) (MGs x)) \<and>
        (if bp_type t then length (pseudoOuts x) = inputs \<and> list_all (\<lambda>k. length k = 32) (pseudoOuts x)
         else pseudoOuts x = pseudoOuts p))"

lemma prunable_written:
  assumes "rctSigPrunable_ok p t inputs outputs mixin x" "t \<noteq> RCTTypeNull"
  shows "serialize_rctsig_prunable_w x t inputs outputs mixin =
    Some ((if bp_type t then the (bulletproofs_w t outputs (bulletproofs x)) else []) @
          (if bp_type t then [] else elements_w rangeSig_w (rangeSigs x)) @
          (if t = RCTTypeCLSAG then elements_w (\<lambda>x. the (CLSAG_w (unat mixin + 1) x)) (CLSAGs x) else []) @
          (if t = RCTTypeCLSAG then [] else elements_w (\<lambda>x. the (MG_w (unat mixin + 1) (mg_ss2_elements t inputs) x)) (MGs x)) @
          (if bp_type t then elements_w (serialize_blob_w 32) (pseudoOuts x) else []))"
proof (cases "bp_type t")
  case True
  then obtain c where "bulletproofs_w t outputs (bulletproofs x) = Some c"
    using assms bulletproofs_part.written [of outputs "bulletproofs x" t] by (auto simp: rctSigPrunable_ok_def)
  then show ?thesis using assms True
    by (cases "t = RCTTypeCLSAG")
      (simp_all add: serialize_rctsig_prunable_w_def rctSigPrunable_ok_def clsag_sig.elements_written mg_sig.elements_written)
next
  case False
  then show ?thesis using assms
    by (simp add: serialize_rctsig_prunable_w_def rctSigPrunable_ok_def mg_sig.elements_written bp_type_def)
qed

text \<open>Nor can the prunable part be cut short when there are inputs: it ends with signatures or commitments.\<close>

lemma blobs_nonempty: "xs \<noteq> [] \<Longrightarrow> list_all (\<lambda>k. length k = 32) xs \<Longrightarrow> elements_w (serialize_blob_w 32) xs \<noteq> []"
  by (cases xs) (auto simp: elements_w_def serialize_blob_w_def)

lemma mgs_nonempty: "xs \<noteq> [] \<Longrightarrow> list_all (MG_ok ring cols) xs \<Longrightarrow> elements_w (\<lambda>x. the (MG_w ring cols x)) xs \<noteq> []"
  by (cases xs) (auto simp: elements_w_def MG_w_def MG_ok_def serialize_blob_w_def dest: list_all_conj)

lemma rctsig_prunable_canonical:
  assumes r: "serialize_rctsig_prunable_r p t inputs outputs mixin b = Some (x, b')"
    and ne: "b' \<noteq> [] \<or> 0 < inputs \<or> t = RCTTypeNull"
  shows "rctSigPrunable_ok p t inputs outputs mixin x \<and> b = the (serialize_rctsig_prunable_w x t inputs outputs mixin) @ b' \<and>
    (t \<noteq> RCTTypeNull \<longrightarrow> b \<noteq> [])"
proof (cases "t = RCTTypeNull")
  case True
  then show ?thesis using r
    by (auto simp: serialize_rctsig_prunable_r_def serialize_rctsig_prunable_w_def rctSigPrunable_ok_def split: if_split_asm)
next
  case False
  have g: "inputs < 4294967295" "outputs < 4294967295" "unat mixin < 4294967295" "valid_type t"
    using r False by (simp_all add: serialize_rctsig_prunable_r_def split: if_split_asm)
  let ?ring = "unat mixin + 1" let ?cols = "mg_ss2_elements t inputs"
  obtain bps b1 rs b2 cls b3 mgs b4 po where
    s: "(if bp_type t then bulletproofs_r t outputs b else Some (bulletproofs p, b)) = Some (bps, b1)"
      "(if bp_type t then Some (rangeSigs p, b1) else elements_r rangeSig_r outputs b1) = Some (rs, b2)"
      "(if t = RCTTypeCLSAG then elements_r (CLSAG_r ?ring) inputs b2 else Some (CLSAGs p, b2)) = Some (cls, b3)"
      "(if t = RCTTypeCLSAG then Some (MGs p, b3) else elements_r (MG_r ?ring ?cols) (mg_elements t inputs) b3) = Some (mgs, b4)"
      "(if bp_type t then elements_r (serialize_blob_r 32) inputs b4 else Some (pseudoOuts p, b4)) = Some (po, b')"
    and x: "x = \<lparr>rangeSigs = rs, bulletproofs = bps, MGs = mgs, CLSAGs = cls, pseudoOuts = po\<rparr>"
    using r False g by (simp add: serialize_rctsig_prunable_r_def bind_pair_iff split del: if_split) blast
  note c = s(2) [unfolded opt_ranges.solid_iff] s(3) [unfolded opt_clsags.solid_iff] s(4) [unfolded opt_mgs.solid_iff]
    s(5) [unfolded opt_pseudo.solid_iff]
  have b1: "b1 \<noteq> []"
  proof (cases "b' = []")
    case True
    then have i: "0 < inputs" using ne False by simp
    show ?thesis
    proof (cases "bp_type t")
      case True
      then have "po \<noteq> []" "list_all (\<lambda>k. length k = 32) po" "b4 = elements_w (serialize_blob_w 32) po @ b'" using c(4) i by auto
      then show ?thesis using c(1-3) blobs_nonempty [of po] by simp
    next
      case nb: False
      then have t: "t \<noteq> RCTTypeCLSAG" by (auto simp: bp_type_def)
      have "length mgs = mg_elements t inputs" "list_all (MG_ok ?ring ?cols) mgs" using c(3) t by simp_all
      then have "elements_w (\<lambda>x. the (MG_w ?ring ?cols x)) mgs \<noteq> []"
        using i by (intro mgs_nonempty) (auto simp: mg_elements_def split: if_splits)
      then show ?thesis using c(1-3) t by simp
    qed
  qed (use c in simp)
  note c1 = opt_bulletproofs.canonical [OF s(1) b1]
  have ok: "rctSigPrunable_ok p t inputs outputs mixin x"
    unfolding rctSigPrunable_ok_def x using False g c c1 by (simp del: One_nat_def)
  have "b = the (serialize_rctsig_prunable_w x t inputs outputs mixin) @ b'"
    unfolding prunable_written [OF ok False] option.sel using c c1 x by (simp del: One_nat_def)
  then show ?thesis using ok c1 b1 by blast
qed

interpretation rct_prunable_part: checked_codec "\<lambda>x. serialize_rctsig_prunable_w x t inputs outputs mixin"
  "serialize_rctsig_prunable_r p t inputs outputs mixin" "rctSigPrunable_ok p t inputs outputs mixin"
  for p t inputs outputs mixin
proof unfold_locales
  show "serialize_rctsig_prunable_w x t inputs outputs mixin \<noteq> None" if "rctSigPrunable_ok p t inputs outputs mixin x" for x
    using that prunable_written [OF that]
    by (cases "t = RCTTypeNull") (simp_all add: serialize_rctsig_prunable_w_def rctSigPrunable_ok_def)
  show "serialize_rctsig_prunable_r p t inputs outputs mixin (the (serialize_rctsig_prunable_w x t inputs outputs mixin) @ b) =
      Some (x, b)" if ok: "rctSigPrunable_ok p t inputs outputs mixin x" for x b
  proof (cases "t = RCTTypeNull")
    case True
    then show ?thesis using ok
      by (simp add: serialize_rctsig_prunable_r_def serialize_rctsig_prunable_w_def rctSigPrunable_ok_def)
  next
    case False
    consider "bp_type t" "t = RCTTypeCLSAG" | "bp_type t" "t \<noteq> RCTTypeCLSAG" | "\<not> bp_type t" "t \<noteq> RCTTypeCLSAG"
      by (auto simp: bp_type_def)
    then show ?thesis using ok False unfolding prunable_written [OF ok False] option.sel
      by cases (simp_all add: serialize_rctsig_prunable_r_def rctSigPrunable_ok_def
          bulletproofs_part.reads_back codec_simps)
  qed
qed (use rctsig_prunable_canonical in blast)

end
