(* ===== verification/Transaction.thy ===== *)
theory Transaction
  imports Ringct_Types
begin

text \<open>
  Transactions and blocks (\<open>cryptonote_basic/cryptonote_basic.h\<close>) and how they are put on the binary archive. A base class is
  the first field of its derived class. A reader fills a default-constructed object, \<open>tx\<close>, and also resets the flags of the
  cached hashes; reading and writing both set the sizes of the prefix and of the part that is not prunable.
\<close>

section \<open>Data\<close>

record txout_to_script =
  keys :: "key list"
  script :: bytes

datatype txout_target_v =
    Txout_to_script txout_to_script
  | Txout_to_scripthash hash
  | Txout_to_key key

record txin_to_script =
  script_prev :: hash
  script_prevout :: u64
  script_sigset :: bytes

record txin_to_scripthash =
  scripthash_prev :: hash
  scripthash_prevout :: u64
  scripthash_script :: txout_to_script
  scripthash_sigset :: bytes

record txin_to_key =
  txin_amount :: u64
  key_offsets :: "u64 list"
  k_image :: key

datatype txin_v =
    Txin_gen u64
  | Txin_to_script txin_to_script
  | Txin_to_scripthash txin_to_scripthash
  | Txin_to_key txin_to_key

record tx_out =
  out_amount :: u64
  out_target :: txout_target_v

record transaction_prefix =
  tx_version :: u64
  unlock_time :: u64
  vin :: "txin_v list"
  vout :: "tx_out list"
  tx_extra :: bytes

record transaction =
  tx_prefix :: transaction_prefix
  hash_valid :: bool
  prunable_hash_valid :: bool
  blob_size_valid :: bool
  signatures :: "bytes list list"
  rct_signatures :: rctSig
  tx_hash :: hash
  prunable_hash :: hash
  blob_size :: u64
  pruned :: bool
  unprunable_size :: u32
  prefix_size :: u32

record block_header =
  major_version :: u64
  minor_version :: u64
  timestamp :: u64
  prev_id :: hash
  nonce :: u32

record block =
  blk_header :: block_header
  blk_hash_valid :: bool
  miner_tx :: transaction
  tx_hashes :: "hash list"
  blk_hash :: hash

record account_public_address =
  m_spend_public_key :: key
  m_view_public_key :: key

definition CURRENT_TRANSACTION_VERSION :: u64 where
  "CURRENT_TRANSACTION_VERSION = 2"

definition CRYPTONOTE_MAX_TX_PER_BLOCK :: nat where
  "CRYPTONOTE_MAX_TX_PER_BLOCK = 0x10000000"

definition transaction_prefix_set_null :: "transaction_prefix \<Rightarrow> transaction_prefix" where
  "transaction_prefix_set_null x = x\<lparr>tx_version := 1, unlock_time := 0, vin := [], vout := [], tx_extra := []\<rparr>"

definition transaction_set_null :: "transaction \<Rightarrow> transaction" where
  "transaction_set_null tx =
     tx\<lparr>tx_prefix := transaction_prefix_set_null (tx_prefix tx), signatures := [],
        rct_signatures := (rct_signatures tx)\<lparr>rct_base := (rct_base (rct_signatures tx))\<lparr>rct_type := RCTTypeNull\<rparr>\<rparr>,
        hash_valid := False, prunable_hash_valid := False, blob_size_valid := False,
        pruned := False, unprunable_size := 0, prefix_size := 0\<rparr>"

definition invalidate_hashes :: "transaction \<Rightarrow> transaction" where
  "invalidate_hashes tx = tx\<lparr>hash_valid := False, prunable_hash_valid := False, blob_size_valid := False\<rparr>"

definition set_hash :: "transaction \<Rightarrow> hash \<Rightarrow> transaction" where
  "set_hash tx h = tx\<lparr>tx_hash := h, hash_valid := True\<rparr>"

definition set_prunable_hash :: "transaction \<Rightarrow> hash \<Rightarrow> transaction" where
  "set_prunable_hash tx h = tx\<lparr>prunable_hash := h, prunable_hash_valid := True\<rparr>"

definition set_blob_size :: "transaction \<Rightarrow> u64 \<Rightarrow> transaction" where
  "set_blob_size tx sz = tx\<lparr>blob_size := sz, blob_size_valid := True\<rparr>"

text \<open>The copy constructor is the assignment to an object whose members are indeterminate; a cached value is copied if it is valid.\<close>

definition transaction_assign :: "transaction \<Rightarrow> transaction \<Rightarrow> transaction" where
  "transaction_assign tx t =
     (let tx = tx\<lparr>tx_prefix := tx_prefix t, hash_valid := False, prunable_hash_valid := False, blob_size_valid := False,
                  signatures := signatures t, rct_signatures := rct_signatures t\<rparr>;
          tx = (if hash_valid t then set_hash tx (tx_hash t) else tx);
          tx = (if prunable_hash_valid t then set_prunable_hash tx (prunable_hash t) else tx);
          tx = (if blob_size_valid t then set_blob_size tx (blob_size t) else tx)
      in tx\<lparr>pruned := pruned t, unprunable_size := unprunable_size t, prefix_size := prefix_size t\<rparr>)"

definition block_set_hash :: "block \<Rightarrow> hash \<Rightarrow> block" where
  "block_set_hash bl h = bl\<lparr>blk_hash := h, blk_hash_valid := True\<rparr>"

definition block_invalidate_hashes :: "block \<Rightarrow> block" where
  "block_invalidate_hashes bl = bl\<lparr>blk_hash_valid := False\<rparr>"

definition block_assign :: "block \<Rightarrow> block \<Rightarrow> block" where
  "block_assign bl b =
     (let bl = bl\<lparr>blk_header := blk_header b, blk_hash_valid := False, miner_tx := transaction_assign (miner_tx bl) (miner_tx b),
                  tx_hashes := tx_hashes b\<rparr>
      in if blk_hash_valid b then block_set_hash bl (blk_hash b) else bl)"

text \<open>What an object holds that may be used: a cached value counts only while its flag is set.\<close>

definition same_transaction :: "transaction \<Rightarrow> transaction \<Rightarrow> bool" where
  "same_transaction x y \<longleftrightarrow>
     tx_prefix x = tx_prefix y \<and> signatures x = signatures y \<and> rct_signatures x = rct_signatures y \<and> pruned x = pruned y \<and>
     unprunable_size x = unprunable_size y \<and> prefix_size x = prefix_size y \<and>
     hash_valid x = hash_valid y \<and> (hash_valid x \<longrightarrow> tx_hash x = tx_hash y) \<and>
     prunable_hash_valid x = prunable_hash_valid y \<and> (prunable_hash_valid x \<longrightarrow> prunable_hash x = prunable_hash y) \<and>
     blob_size_valid x = blob_size_valid y \<and> (blob_size_valid x \<longrightarrow> blob_size x = blob_size y)"

lemma assign_same: "same_transaction (transaction_assign tx t) t"
  by (simp add: same_transaction_def transaction_assign_def Let_def set_hash_def set_prunable_hash_def set_blob_size_def)

lemma block_assign_same:
  "let bl = block_assign bl b in blk_header bl = blk_header b \<and> tx_hashes bl = tx_hashes b \<and> same_transaction (miner_tx bl) (miner_tx b) \<and>
     blk_hash_valid bl = blk_hash_valid b \<and> (blk_hash_valid bl \<longrightarrow> blk_hash bl = blk_hash b)"
  using assign_same by (simp add: block_assign_def block_set_hash_def Let_def)

text \<open>
  A default-constructed transaction: its constructor calls \<open>set_null\<close>, its vectors are empty, and its hashes, the message and
  the fee are whatever the memory held.
\<close>

definition default_constructed :: "transaction \<Rightarrow> bool" where
  "default_constructed tx \<longleftrightarrow> transaction_set_null tx = tx \<and>
     mixRing (rct_base (rct_signatures tx)) = [] \<and> base_pseudoOuts (rct_base (rct_signatures tx)) = [] \<and>
     ecdhInfo (rct_base (rct_signatures tx)) = [] \<and> outPk (rct_base (rct_signatures tx)) = [] \<and>
     rct_p (rct_signatures tx) = \<lparr>rangeSigs = [], bulletproofs = [], MGs = [], CLSAGs = [], pseudoOuts = []\<rparr>"

section \<open>Inputs and outputs\<close>

definition txout_to_script_r :: "txout_to_script reader" where
  "txout_to_script_r b = do {
     (ks, b) \<leftarrow> do_serialize_container_r (serialize_blob_r 32) b;
     (sc, b) \<leftarrow> do_serialize_container_r (serialize_uint_r 1) b;
     Some (\<lparr>keys = ks, script = sc\<rparr>, b)
   }"

definition txout_to_script_w :: "txout_to_script writer" where
  "txout_to_script_w x =
     do_serialize_container_w (serialize_blob_w 32) (keys x) @ do_serialize_container_w (serialize_uint_w 1) (script x)"

definition txout_target_r :: "txout_target_v reader" where
  "txout_target_r b = do {
     (t :: u8, b) \<leftarrow> serialize_uint_r 1 b;
     if t = 0x0 then do { (x, b) \<leftarrow> txout_to_script_r b; Some (Txout_to_script x, b) }
     else if t = 0x1 then do { (x, b) \<leftarrow> serialize_blob_r 32 b; Some (Txout_to_scripthash x, b) }
     else if t = 0x2 then do { (x, b) \<leftarrow> serialize_blob_r 32 b; Some (Txout_to_key x, b) }
     else None
   }"

fun txout_target_w :: "txout_target_v writer" where
  "txout_target_w (Txout_to_script x) = serialize_uint_w 1 (0x0 :: u8) @ txout_to_script_w x"
| "txout_target_w (Txout_to_scripthash x) = serialize_uint_w 1 (0x1 :: u8) @ serialize_blob_w 32 x"
| "txout_target_w (Txout_to_key x) = serialize_uint_w 1 (0x2 :: u8) @ serialize_blob_w 32 x"

definition txin_to_script_r :: "txin_to_script reader" where
  "txin_to_script_r b = do {
     (p, b) \<leftarrow> serialize_blob_r 32 b;
     (n, b) \<leftarrow> serialize_uvarint_r 64 b;
     (s, b) \<leftarrow> do_serialize_container_r (serialize_uint_r 1) b;
     Some (\<lparr>script_prev = p, script_prevout = n, script_sigset = s\<rparr>, b)
   }"

definition txin_to_script_w :: "txin_to_script writer" where
  "txin_to_script_w x = serialize_blob_w 32 (script_prev x) @ serialize_uvarint_w (script_prevout x) @
     do_serialize_container_w (serialize_uint_w 1) (script_sigset x)"

definition txin_to_scripthash_r :: "txin_to_scripthash reader" where
  "txin_to_scripthash_r b = do {
     (p, b) \<leftarrow> serialize_blob_r 32 b;
     (n, b) \<leftarrow> serialize_uvarint_r 64 b;
     (sc, b) \<leftarrow> txout_to_script_r b;
     (s, b) \<leftarrow> do_serialize_container_r (serialize_uint_r 1) b;
     Some (\<lparr>scripthash_prev = p, scripthash_prevout = n, scripthash_script = sc, scripthash_sigset = s\<rparr>, b)
   }"

definition txin_to_scripthash_w :: "txin_to_scripthash writer" where
  "txin_to_scripthash_w x = serialize_blob_w 32 (scripthash_prev x) @ serialize_uvarint_w (scripthash_prevout x) @
     txout_to_script_w (scripthash_script x) @ do_serialize_container_w (serialize_uint_w 1) (scripthash_sigset x)"

definition txin_to_key_r :: "txin_to_key reader" where
  "txin_to_key_r b = do {
     (a, b) \<leftarrow> serialize_uvarint_r 64 b;
     (os, b) \<leftarrow> do_serialize_container_r (serialize_uvarint_r 64) b;
     (k, b) \<leftarrow> serialize_blob_r 32 b;
     Some (\<lparr>txin_amount = a, key_offsets = os, k_image = k\<rparr>, b)
   }"

definition txin_to_key_w :: "txin_to_key writer" where
  "txin_to_key_w x = serialize_uvarint_w (txin_amount x) @ do_serialize_container_w serialize_uvarint_w (key_offsets x) @
     serialize_blob_w 32 (k_image x)"

definition txin_r :: "txin_v reader" where
  "txin_r b = do {
     (t :: u8, b) \<leftarrow> serialize_uint_r 1 b;
     if t = 0xff then do { (h, b) \<leftarrow> serialize_uvarint_r 64 b; Some (Txin_gen h, b) }
     else if t = 0x0 then do { (x, b) \<leftarrow> txin_to_script_r b; Some (Txin_to_script x, b) }
     else if t = 0x1 then do { (x, b) \<leftarrow> txin_to_scripthash_r b; Some (Txin_to_scripthash x, b) }
     else if t = 0x2 then do { (x, b) \<leftarrow> txin_to_key_r b; Some (Txin_to_key x, b) }
     else None
   }"

fun txin_w :: "txin_v writer" where
  "txin_w (Txin_gen h) = serialize_uint_w 1 (0xff :: u8) @ serialize_uvarint_w h"
| "txin_w (Txin_to_script x) = serialize_uint_w 1 (0x0 :: u8) @ txin_to_script_w x"
| "txin_w (Txin_to_scripthash x) = serialize_uint_w 1 (0x1 :: u8) @ txin_to_scripthash_w x"
| "txin_w (Txin_to_key x) = serialize_uint_w 1 (0x2 :: u8) @ txin_to_key_w x"

definition tx_out_r :: "tx_out reader" where
  "tx_out_r b = do {
     (a, b) \<leftarrow> serialize_uvarint_r 64 b;
     (t, b) \<leftarrow> txout_target_r b;
     Some (\<lparr>out_amount = a, out_target = t\<rparr>, b)
   }"

definition tx_out_w :: "tx_out writer" where
  "tx_out_w x = serialize_uvarint_w (out_amount x) @ txout_target_w (out_target x)"

section \<open>The prefix\<close>

definition transaction_prefix_r :: "transaction_prefix reader" where
  "transaction_prefix_r b = do {
     (v, b) \<leftarrow> serialize_uvarint_r 64 b;
     if v = 0 \<or> CURRENT_TRANSACTION_VERSION < v then None
     else do {
       (u, b) \<leftarrow> serialize_uvarint_r 64 b;
       (ins, b) \<leftarrow> do_serialize_container_r txin_r b;
       (outs, b) \<leftarrow> do_serialize_container_r tx_out_r b;
       (ex, b) \<leftarrow> do_serialize_container_r (serialize_uint_r 1) b;
       Some (\<lparr>tx_version = v, unlock_time = u, vin = ins, vout = outs, tx_extra = ex\<rparr>, b)
     }
   }"

definition transaction_prefix_w :: "transaction_prefix \<Rightarrow> bytes option" where
  "transaction_prefix_w x =
     (if tx_version x = 0 \<or> CURRENT_TRANSACTION_VERSION < tx_version x then None
      else Some (serialize_uvarint_w (tx_version x) @ serialize_uvarint_w (unlock_time x) @
                 do_serialize_container_w txin_w (vin x) @ do_serialize_container_w tx_out_w (vout x) @
                 do_serialize_container_w (serialize_uint_w 1) (tx_extra x)))"

section \<open>Transactions\<close>

fun get_signature_size :: "txin_v \<Rightarrow> nat" where
  "get_signature_size (Txin_gen h) = 0"
| "get_signature_size (Txin_to_script x) = 0"
| "get_signature_size (Txin_to_scripthash x) = 0"
| "get_signature_size (Txin_to_key x) = length (key_offsets x)"

text \<open>A vector of signatures carries no count; the reader is called with the size already set.\<close>

definition signature_vector_r :: "nat \<Rightarrow> bytes list reader" where
  "signature_vector_r cnt b =
     (if length b < cnt * 64 then None
      else elements_r (serialize_blob_r 64) cnt b)"

fun signatures_r :: "txin_v list \<Rightarrow> bytes list list reader" where
  "signatures_r [] b = Some ([], b)"
| "signatures_r (i # ins) b = do {
     (s, b) \<leftarrow> signature_vector_r (get_signature_size i) b;
     (ss, b) \<leftarrow> signatures_r ins b;
     Some (s # ss, b)
   }"

fun signatures_loop_w :: "txin_v list \<Rightarrow> bytes list list \<Rightarrow> bytes option" where
  "signatures_loop_w (i # ins) (s # ss) =
     (if get_signature_size i \<noteq> length s then None
      else do {
        c \<leftarrow> signatures_loop_w ins ss;
        Some (elements_w (serialize_blob_w 64) s @ c)
      })"
| "signatures_loop_w ins ss = Some []"

definition signatures_w :: "bool \<Rightarrow> txin_v list \<Rightarrow> bytes list list \<Rightarrow> bytes option" where
  "signatures_w is_pruned ins sigs =
     (let signatures_not_expected = (sigs = [])
      in if \<not> signatures_not_expected \<and> length ins \<noteq> length sigs then None
         else if is_pruned then Some []
         else if signatures_not_expected then
           if list_all (\<lambda>i. get_signature_size i = 0) ins then Some [] else None
         else signatures_loop_w ins sigs)"

text \<open>The argument \<open>mixin\<close>: one less than the size of the first ring, in 64 bits.\<close>

fun tx_mixin :: "txin_v list \<Rightarrow> u64" where
  "tx_mixin (Txin_to_key x # ins) = of_nat (length (key_offsets x)) - 1"
| "tx_mixin ins = 0"

definition transaction_r :: "transaction \<Rightarrow> transaction reader" where
  "transaction_r tx b0 =
     (let tx = tx\<lparr>hash_valid := False, prunable_hash_valid := False, blob_size_valid := False\<rparr> in
      do {
        (pre, b) \<leftarrow> transaction_prefix_r b0;
        let tx = tx\<lparr>tx_prefix := pre, prefix_size := of_nat (length b0 - length b)\<rparr>;
        (tx, b) \<leftarrow>
          (if tx_version pre = 1 then do {
             let tx = tx\<lparr>unprunable_size := of_nat (length b0 - length b)\<rparr>;
             (sigs, b) \<leftarrow> (if pruned tx then Some (replicate (length (vin pre)) [], b) else signatures_r (vin pre) b);
             Some (tx\<lparr>signatures := sigs\<rparr>, b)
           }
           else if vin pre = [] then Some (tx, b)
           else do {
             (base, b) \<leftarrow> serialize_rctsig_base_r (rct_base (rct_signatures tx)) (length (vin pre)) (length (vout pre)) b;
             let tx = tx\<lparr>rct_signatures := (rct_signatures tx)\<lparr>rct_base := base\<rparr>, unprunable_size := of_nat (length b0 - length b)\<rparr>;
             if \<not> pruned tx \<and> rct_type base \<noteq> RCTTypeNull then do {
               (p, b) \<leftarrow> serialize_rctsig_prunable_r (rct_p (rct_signatures tx)) (rct_type base) (length (vin pre))
                           (length (vout pre)) (tx_mixin (vin pre)) b;
               Some (tx\<lparr>rct_signatures := (rct_signatures tx)\<lparr>rct_p := p\<rparr>\<rparr>, b)
             }
             else Some (tx, b)
           });
        Some (tx\<lparr>pruned := False\<rparr>, b)
      })"

definition transaction_w :: "transaction \<Rightarrow> (bytes \<times> transaction) option" where
  "transaction_w tx = do {
     c \<leftarrow> transaction_prefix_w (tx_prefix tx);
     let pre = tx_prefix tx;
     let tx = tx\<lparr>prefix_size := of_nat (length c)\<rparr>;
     if tx_version pre = 1 then do {
       let tx = tx\<lparr>unprunable_size := of_nat (length c)\<rparr>;
       d \<leftarrow> signatures_w (pruned tx) (vin pre) (signatures tx);
       Some (c @ d, tx)
     }
     else if vin pre = [] then Some (c, tx)
     else do {
       d \<leftarrow> serialize_rctsig_base_w (rct_base (rct_signatures tx)) (length (vin pre)) (length (vout pre));
       let tx = tx\<lparr>unprunable_size := of_nat (length (c @ d))\<rparr>;
       if \<not> pruned tx \<and> rct_type (rct_base (rct_signatures tx)) \<noteq> RCTTypeNull then do {
         e \<leftarrow> serialize_rctsig_prunable_w (rct_p (rct_signatures tx)) (rct_type (rct_base (rct_signatures tx))) (length (vin pre))
               (length (vout pre)) (tx_mixin (vin pre));
         Some (c @ d @ e, tx)
       }
       else Some (c @ d, tx)
     }
   }"

text \<open>The part of a transaction that is not prunable alone.\<close>

definition serialize_base_r :: "transaction \<Rightarrow> transaction reader" where
  "serialize_base_r tx b = do {
     (pre, b) \<leftarrow> transaction_prefix_r b;
     let tx = tx\<lparr>tx_prefix := pre\<rparr>;
     (tx, b) \<leftarrow>
       (if tx_version pre = 1 then Some (tx, b)
        else if vin pre = [] then Some (tx, b)
        else do {
          (base, b) \<leftarrow> serialize_rctsig_base_r (rct_base (rct_signatures tx)) (length (vin pre)) (length (vout pre)) b;
          Some (tx\<lparr>rct_signatures := (rct_signatures tx)\<lparr>rct_base := base\<rparr>\<rparr>, b)
        });
     Some (tx\<lparr>pruned := True\<rparr>, b)
   }"

definition serialize_base_w :: "transaction \<Rightarrow> bytes option" where
  "serialize_base_w tx = do {
     c \<leftarrow> transaction_prefix_w (tx_prefix tx);
     let pre = tx_prefix tx;
     if tx_version pre = 1 then Some c
     else if vin pre = [] then Some c
     else do {
       d \<leftarrow> serialize_rctsig_base_w (rct_base (rct_signatures tx)) (length (vin pre)) (length (vout pre));
       Some (c @ d)
     }
   }"

section \<open>Blocks\<close>

definition block_header_r :: "block_header reader" where
  "block_header_r b = do {
     (ma, b) \<leftarrow> serialize_uvarint_r 8 b;
     (mi, b) \<leftarrow> serialize_uvarint_r 8 b;
     (t, b) \<leftarrow> serialize_uvarint_r 64 b;
     (p, b) \<leftarrow> serialize_blob_r 32 b;
     (n, b) \<leftarrow> serialize_uint_r 4 b;
     Some (\<lparr>major_version = ma, minor_version = mi, timestamp = t, prev_id = p, nonce = n\<rparr>, b)
   }"

definition block_header_w :: "block_header writer" where
  "block_header_w x = serialize_uvarint_w (major_version x) @ serialize_uvarint_w (minor_version x) @
     serialize_uvarint_w (timestamp x) @ serialize_blob_w 32 (prev_id x) @ serialize_uint_w 4 (nonce x)"

definition block_r :: "block \<Rightarrow> block reader" where
  "block_r bl b = do {
     let bl = bl\<lparr>blk_hash_valid := False\<rparr>;
     (h, b) \<leftarrow> block_header_r b;
     (m, b) \<leftarrow> transaction_r (miner_tx bl) b;
     (hs, b) \<leftarrow> do_serialize_container_r (serialize_blob_r 32) b;
     if CRYPTONOTE_MAX_TX_PER_BLOCK < length hs then None
     else Some (bl\<lparr>blk_header := h, miner_tx := m, tx_hashes := hs\<rparr>, b)
   }"

definition block_w :: "block \<Rightarrow> (bytes \<times> block) option" where
  "block_w bl = do {
     (c, m) \<leftarrow> transaction_w (miner_tx bl);
     if CRYPTONOTE_MAX_TX_PER_BLOCK < length (tx_hashes bl) then None
     else Some (block_header_w (blk_header bl) @ c @ do_serialize_container_w (serialize_blob_w 32) (tx_hashes bl), bl\<lparr>miner_tx := m\<rparr>)
   }"

section \<open>Addresses\<close>

definition account_public_address_r :: "account_public_address reader" where
  "account_public_address_r b = do {
     (s, b) \<leftarrow> serialize_blob_r 32 b;
     (v, b) \<leftarrow> serialize_blob_r 32 b;
     Some (\<lparr>m_spend_public_key = s, m_view_public_key = v\<rparr>, b)
   }"

definition account_public_address_w :: "account_public_address writer" where
  "account_public_address_w x = serialize_blob_w 32 (m_spend_public_key x) @ serialize_blob_w 32 (m_view_public_key x)"

section \<open>Reading back what was written\<close>

interpretation address: solid_codec account_public_address_w account_public_address_r
  "\<lambda>x. length (m_spend_public_key x) = 32 \<and> length (m_view_public_key x) = 32"
proof unfold_locales
  show "account_public_address_r b = Some (x, b') \<longleftrightarrow>
      (length (m_spend_public_key x) = 32 \<and> length (m_view_public_key x) = 32) \<and> b = account_public_address_w x @ b'" for b x b'
    by (cases x) (auto simp: account_public_address_r_def account_public_address_w_def bind_pair_iff codec_simps)
qed

lemma list_all_True [simp]: "list_all (\<lambda>x. True) xs"
  by (simp add: list_all_iff)

definition txout_to_script_ok :: "txout_to_script \<Rightarrow> bool" where
  "txout_to_script_ok x \<longleftrightarrow> list_all (\<lambda>k. length k = 32) (keys x) \<and> length (keys x) < 2 ^ 64 \<and> length (script x) < 2 ^ 64"

interpretation out_script: codec txout_to_script_w txout_to_script_r txout_to_script_ok
proof unfold_locales
  show "txout_to_script_r (txout_to_script_w x @ b) = Some (x, b)" if "txout_to_script_ok x" for x b
    using that by (cases x) (simp add: txout_to_script_r_def txout_to_script_w_def txout_to_script_ok_def codec_simps)
  show "txout_to_script_ok x \<and> b = txout_to_script_w x @ b'" if "txout_to_script_r b = Some (x, b')" "b' \<noteq> []" for x b b'
    using that by (auto simp: txout_to_script_r_def txout_to_script_w_def txout_to_script_ok_def bind_pair_iff codec_simps)
qed

fun txout_target_ok :: "txout_target_v \<Rightarrow> bool" where
  "txout_target_ok (Txout_to_script x) = txout_to_script_ok x"
| "txout_target_ok (Txout_to_scripthash h) = (length h = 32)"
| "txout_target_ok (Txout_to_key k) = (length k = 32)"

interpretation out_target: codec txout_target_w txout_target_r txout_target_ok
proof unfold_locales
  show "txout_target_r (txout_target_w x @ b) = Some (x, b)" if "txout_target_ok x" for x b
    using that by (cases x) (simp_all add: txout_target_r_def out_script.reads_back codec_simps)
  show "txout_target_ok x \<and> b = txout_target_w x @ b'" if "txout_target_r b = Some (x, b')" "b' \<noteq> []" for x b b'
    using that by (auto simp: txout_target_r_def bind_pair_iff out_script.read_iff codec_simps split: if_split_asm)
qed

definition tx_out_ok :: "tx_out \<Rightarrow> bool" where
  "tx_out_ok x \<longleftrightarrow> txout_target_ok (out_target x)"

interpretation tx_output: element_codec tx_out_w tx_out_r tx_out_ok
proof unfold_locales
  show "tx_out_r (tx_out_w x @ b) = Some (x, b)" if "tx_out_ok x" for x b
    using that by (cases x) (simp add: tx_out_r_def tx_out_w_def tx_out_ok_def out_target.reads_back codec_simps)
  show "tx_out_ok x \<and> b = tx_out_w x @ b'" if "tx_out_r b = Some (x, b')" "b' \<noteq> []" for x b b'
    using that by (auto simp: tx_out_r_def tx_out_w_def tx_out_ok_def bind_pair_iff out_target.read_iff codec_simps)
  show "tx_out_w x \<noteq> []" for x by (simp add: tx_out_w_def serialize_uvarint_w_def)
qed

definition txin_to_script_ok :: "txin_to_script \<Rightarrow> bool" where
  "txin_to_script_ok x \<longleftrightarrow> length (script_prev x) = 32 \<and> length (script_sigset x) < 2 ^ 64"

interpretation in_script: codec txin_to_script_w txin_to_script_r txin_to_script_ok
proof unfold_locales
  show "txin_to_script_r (txin_to_script_w x @ b) = Some (x, b)" if "txin_to_script_ok x" for x b
    using that by (cases x) (simp add: txin_to_script_r_def txin_to_script_w_def txin_to_script_ok_def codec_simps)
  show "txin_to_script_ok x \<and> b = txin_to_script_w x @ b'" if "txin_to_script_r b = Some (x, b')" "b' \<noteq> []" for x b b'
    using that by (auto simp: txin_to_script_r_def txin_to_script_w_def txin_to_script_ok_def bind_pair_iff codec_simps)
qed

definition txin_to_scripthash_ok :: "txin_to_scripthash \<Rightarrow> bool" where
  "txin_to_scripthash_ok x \<longleftrightarrow> length (scripthash_prev x) = 32 \<and> txout_to_script_ok (scripthash_script x) \<and>
     length (scripthash_sigset x) < 2 ^ 64"

interpretation in_scripthash: codec txin_to_scripthash_w txin_to_scripthash_r txin_to_scripthash_ok
proof unfold_locales
  show "txin_to_scripthash_r (txin_to_scripthash_w x @ b) = Some (x, b)" if "txin_to_scripthash_ok x" for x b
    using that by (cases x)
      (simp add: txin_to_scripthash_r_def txin_to_scripthash_w_def txin_to_scripthash_ok_def out_script.reads_back codec_simps)
  show "txin_to_scripthash_ok x \<and> b = txin_to_scripthash_w x @ b'"
    if "txin_to_scripthash_r b = Some (x, b')" "b' \<noteq> []" for x b b'
    using that by (auto simp: txin_to_scripthash_r_def txin_to_scripthash_w_def txin_to_scripthash_ok_def bind_pair_iff
        out_script.read_iff codec_simps)
qed

definition txin_to_key_ok :: "txin_to_key \<Rightarrow> bool" where
  "txin_to_key_ok x \<longleftrightarrow> length (key_offsets x) < 2 ^ 64 \<and> length (k_image x) = 32"

interpretation in_key: codec txin_to_key_w txin_to_key_r txin_to_key_ok
proof unfold_locales
  show "txin_to_key_r (txin_to_key_w x @ b) = Some (x, b)" if "txin_to_key_ok x" for x b
    using that by (cases x) (simp add: txin_to_key_r_def txin_to_key_w_def txin_to_key_ok_def codec_simps)
  show "txin_to_key_ok x \<and> b = txin_to_key_w x @ b'" if "txin_to_key_r b = Some (x, b')" "b' \<noteq> []" for x b b'
    using that by (auto simp: txin_to_key_r_def txin_to_key_w_def txin_to_key_ok_def bind_pair_iff codec_simps)
qed

fun txin_ok :: "txin_v \<Rightarrow> bool" where
  "txin_ok (Txin_gen h) = True"
| "txin_ok (Txin_to_script x) = txin_to_script_ok x"
| "txin_ok (Txin_to_scripthash x) = txin_to_scripthash_ok x"
| "txin_ok (Txin_to_key x) = txin_to_key_ok x"

interpretation tx_input: element_codec txin_w txin_r txin_ok
proof unfold_locales
  show "txin_r (txin_w x @ b) = Some (x, b)" if "txin_ok x" for x b
    using that by (cases x)
      (simp_all add: txin_r_def in_script.reads_back in_scripthash.reads_back in_key.reads_back codec_simps)
  show "txin_ok x \<and> b = txin_w x @ b'" if "txin_r b = Some (x, b')" "b' \<noteq> []" for x b b'
    using that by (auto simp: txin_r_def bind_pair_iff in_script.read_iff in_scripthash.read_iff in_key.read_iff codec_simps
        split: if_split_asm)
  show "txin_w x \<noteq> []" for x
    by (cases x) (simp_all add: serialize_uint_w_def store_le_def)
qed

interpretation input_vector: element_codec "do_serialize_container_w txin_w" "do_serialize_container_r txin_r"
  "\<lambda>xs. list_all txin_ok xs \<and> length xs < 2 ^ 64"
  by (rule tx_input.vector_codec)

interpretation output_vector: element_codec "do_serialize_container_w tx_out_w" "do_serialize_container_r tx_out_r"
  "\<lambda>xs. list_all tx_out_ok xs \<and> length xs < 2 ^ 64"
  by (rule tx_output.vector_codec)

definition transaction_prefix_ok :: "transaction_prefix \<Rightarrow> bool" where
  "transaction_prefix_ok x \<longleftrightarrow> tx_version x \<noteq> 0 \<and> \<not> CURRENT_TRANSACTION_VERSION < tx_version x \<and>
     list_all txin_ok (vin x) \<and> length (vin x) < 2 ^ 64 \<and> list_all tx_out_ok (vout x) \<and> length (vout x) < 2 ^ 64 \<and>
     length (tx_extra x) < 2 ^ 64"

interpretation prefix: checked_codec transaction_prefix_w transaction_prefix_r transaction_prefix_ok
proof unfold_locales
  show "transaction_prefix_r (the (transaction_prefix_w x) @ b) = Some (x, b)" if "transaction_prefix_ok x" for x b
    using that by (cases x) (simp add: transaction_prefix_r_def transaction_prefix_w_def transaction_prefix_ok_def
        input_vector.reads_back output_vector.reads_back codec_simps)
  show "transaction_prefix_ok x \<and> b = the (transaction_prefix_w x) @ b'"
    if "transaction_prefix_r b = Some (x, b')" "b' \<noteq> []" for x b b'
    using that by (auto simp: transaction_prefix_r_def transaction_prefix_w_def transaction_prefix_ok_def bind_pair_iff
        input_vector.read_iff output_vector.read_iff codec_simps split: if_split_asm)
  show "transaction_prefix_w x \<noteq> None" if "transaction_prefix_ok x" for x
    using that by (simp add: transaction_prefix_w_def transaction_prefix_ok_def)
qed

text \<open>The ring signatures of the first version.\<close>

fun signatures_ok :: "txin_v list \<Rightarrow> bytes list list \<Rightarrow> bool" where
  "signatures_ok [] [] = True"
| "signatures_ok (i # ins) (s # ss) = (length s = get_signature_size i \<and> list_all (\<lambda>k. length k = 64) s \<and> signatures_ok ins ss)"
| "signatures_ok ins ss = False"

definition signatures_bytes :: "bytes list list \<Rightarrow> bytes" where
  "signatures_bytes ss = concat (map (elements_w (serialize_blob_w 64)) ss)"

lemma elements_w_length: "list_all (\<lambda>k. length k = n) xs \<Longrightarrow> length (elements_w (serialize_blob_w n) xs) = length xs * n"
  by (induction xs) (simp_all add: elements_w_def serialize_blob_w_def)

lemma signature_vector_iff:
  "signature_vector_r cnt b = Some (s, b') \<longleftrightarrow>
     (length s = cnt \<and> list_all (\<lambda>k. length k = 64) s) \<and> b = elements_w (serialize_blob_w 64) s @ b'"
  using elements_w_length [of 64 s] by (auto simp: signature_vector_r_def blob64_array.solid_iff)

lemma signatures_loop_written: "signatures_ok ins ss \<Longrightarrow> signatures_loop_w ins ss = Some (signatures_bytes ss)"
  by (induction ins ss rule: signatures_ok.induct) (simp_all add: signatures_bytes_def)

lemma signatures_ok_length: "signatures_ok ins ss \<Longrightarrow> length ss = length ins"
  by (induction ins ss rule: signatures_ok.induct) simp_all

lemma signatures_written: "signatures_ok ins ss \<Longrightarrow> signatures_w False ins ss = Some (signatures_bytes ss)"
  using signatures_loop_written [of ins ss] signatures_ok_length [of ins ss]
  by (cases ss) (auto simp: signatures_w_def signatures_bytes_def)

interpretation ring_signatures: solid_codec signatures_bytes "signatures_r ins" "signatures_ok ins" for ins
proof unfold_locales
  show "signatures_r ins b = Some (ss, b') \<longleftrightarrow> signatures_ok ins ss \<and> b = signatures_bytes ss @ b'" for b ss b'
  proof (induction ins arbitrary: b ss)
    case Nil
    then show ?case by (cases ss) (auto simp: signatures_bytes_def)
  next
    case (Cons i ins)
    then show ?case by (cases ss) (auto simp: bind_pair_iff signature_vector_iff signatures_bytes_def)
  qed
qed

text \<open>
  Transactions, read into the object \<open>tx\<close>: what reading leaves in an object. The parts that are not on the archive are those
  of \<open>tx\<close>, the flags of the cached values are reset, and the sizes are those of the parts on the archive.
\<close>

definition rct_ok :: "rctSig \<Rightarrow> transaction_prefix \<Rightarrow> rctSig \<Rightarrow> bool" where
  "rct_ok rv pre x \<longleftrightarrow>
     rctSigBase_ok (rct_base rv) (length (vin pre)) (length (vout pre)) (rct_base x) \<and>
     (if rct_type (rct_base x) = RCTTypeNull then rct_p x = rct_p rv
      else rctSigPrunable_ok (rct_p rv) (rct_type (rct_base x)) (length (vin pre)) (length (vout pre)) (tx_mixin (vin pre)) (rct_p x))"

definition base_bytes :: "transaction \<Rightarrow> bytes" where
  "base_bytes x = the (serialize_base_w x)"

definition transaction_ok :: "transaction \<Rightarrow> transaction \<Rightarrow> bool" where
  "transaction_ok tx x \<longleftrightarrow>
     transaction_prefix_ok (tx_prefix x) \<and>
     \<not> hash_valid x \<and> \<not> prunable_hash_valid x \<and> \<not> blob_size_valid x \<and> \<not> pruned x \<and>
     tx_hash x = tx_hash tx \<and> prunable_hash x = prunable_hash tx \<and> blob_size x = blob_size tx \<and>
     prefix_size x = of_nat (length (the (transaction_prefix_w (tx_prefix x)))) \<and>
     (if tx_version (tx_prefix x) = 1 then
        signatures_ok (vin (tx_prefix x)) (signatures x) \<and> rct_signatures x = rct_signatures tx \<and>
        unprunable_size x = of_nat (length (base_bytes x))
      else signatures x = signatures tx \<and>
        (if vin (tx_prefix x) = [] then rct_signatures x = rct_signatures tx \<and> unprunable_size x = unprunable_size tx
         else rct_ok (rct_signatures tx) (tx_prefix x) (rct_signatures x) \<and> unprunable_size x = of_nat (length (base_bytes x))))"

text \<open>The bytes of the part that is pruned away.\<close>

definition prunable_bytes :: "transaction \<Rightarrow> bytes" where
  "prunable_bytes x =
     (if tx_version (tx_prefix x) = 1 then signatures_bytes (signatures x)
      else if vin (tx_prefix x) = [] \<or> rct_type (rct_base (rct_signatures x)) = RCTTypeNull then []
      else the (serialize_rctsig_prunable_w (rct_p (rct_signatures x)) (rct_type (rct_base (rct_signatures x)))
             (length (vin (tx_prefix x))) (length (vout (tx_prefix x))) (tx_mixin (vin (tx_prefix x)))))"

lemma prefix_archived:
  "transaction_ok tx x \<Longrightarrow>
     \<exists>c. transaction_prefix_w (tx_prefix x) = Some c \<and> (\<forall>r. transaction_prefix_r (c @ r) = Some (tx_prefix x, r))"
  using prefix.written [of "tx_prefix x"] prefix.reads_back [of "tx_prefix x"]
  by (cases "transaction_prefix_w (tx_prefix x)") (auto simp: transaction_ok_def)

lemma base_archived:
  assumes "rct_ok rv pre x"
  shows "\<exists>d. serialize_rctsig_base_w (rct_base x) (length (vin pre)) (length (vout pre)) = Some d \<and>
    (\<forall>r. serialize_rctsig_base_r (rct_base rv) (length (vin pre)) (length (vout pre)) (d @ r) = Some (rct_base x, r))"
proof -
  have ok: "rctSigBase_ok (rct_base rv) (length (vin pre)) (length (vout pre)) (rct_base x)" using assms by (simp add: rct_ok_def)
  show ?thesis using rct_base_part.written [OF ok] rct_base_part.reads_back [OF ok] by blast
qed

lemma transaction_written:
  assumes "transaction_ok tx x"
  shows "transaction_w x = Some (base_bytes x @ prunable_bytes x, x)"
proof -
  let ?pre = "tx_prefix x" let ?rv = "rct_signatures x"
  obtain c where c: "transaction_prefix_w ?pre = Some c" using prefix_archived [OF assms] by blast
  consider "tx_version ?pre = 1" | "tx_version ?pre \<noteq> 1" "vin ?pre = []" | "tx_version ?pre \<noteq> 1" "vin ?pre \<noteq> []" by blast
  then show ?thesis
  proof cases
    case 1
    then show ?thesis using assms c
      by (simp add: transaction_w_def transaction_ok_def base_bytes_def prunable_bytes_def serialize_base_w_def signatures_written)
  next
    case 2
    then show ?thesis using assms c
      by (simp add: transaction_w_def transaction_ok_def base_bytes_def prunable_bytes_def serialize_base_w_def)
  next
    case 3
    then have ok: "rct_ok (rct_signatures tx) ?pre ?rv" using assms by (simp add: transaction_ok_def)
    obtain d where d: "serialize_rctsig_base_w (rct_base ?rv) (length (vin ?pre)) (length (vout ?pre)) = Some d"
      using base_archived [OF ok] by blast
    show ?thesis
    proof (cases "rct_type (rct_base ?rv) = RCTTypeNull")
      case True
      then show ?thesis using 3 assms c d
        by (simp add: transaction_w_def transaction_ok_def base_bytes_def prunable_bytes_def serialize_base_w_def)
    next
      case False
      then obtain e where "serialize_rctsig_prunable_w (rct_p ?rv) (rct_type (rct_base ?rv)) (length (vin ?pre))
          (length (vout ?pre)) (tx_mixin (vin ?pre)) = Some e"
        using ok rct_prunable_part.written [of "rct_p (rct_signatures tx)" "rct_type (rct_base ?rv)" "length (vin ?pre)"
            "length (vout ?pre)" "tx_mixin (vin ?pre)" "rct_p ?rv"] by (auto simp: rct_ok_def)
      then show ?thesis using False 3 assms c d
        by (simp add: transaction_w_def transaction_ok_def base_bytes_def prunable_bytes_def serialize_base_w_def)
    qed
  qed
qed

lemma transaction_read:
  assumes ok: "transaction_ok tx x" and np: "\<not> pruned tx"
  shows "transaction_r tx ((base_bytes x @ prunable_bytes x) @ b) = Some (x, b)"
proof -
  let ?pre = "tx_prefix x" let ?rv = "rct_signatures x"
  obtain c where c: "transaction_prefix_w ?pre = Some c" and p: "\<And>r. transaction_prefix_r (c @ r) = Some (?pre, r)"
    using prefix_archived [OF ok] by blast
  consider "tx_version ?pre = 1" | "tx_version ?pre \<noteq> 1" "vin ?pre = []" | "tx_version ?pre \<noteq> 1" "vin ?pre \<noteq> []" by blast
  then show ?thesis
  proof cases
    case 1
    then show ?thesis using assms c
      by (simp add: transaction_r_def transaction_ok_def base_bytes_def prunable_bytes_def serialize_base_w_def p Let_def
          ring_signatures.reads_back)
  next
    case 2
    then show ?thesis using assms c
      by (simp add: transaction_r_def transaction_ok_def base_bytes_def prunable_bytes_def serialize_base_w_def p Let_def)
  next
    case 3
    then have rok: "rct_ok (rct_signatures tx) ?pre ?rv" using assms by (simp add: transaction_ok_def)
    obtain d where d: "serialize_rctsig_base_w (rct_base ?rv) (length (vin ?pre)) (length (vout ?pre)) = Some d"
      and q: "\<And>r. serialize_rctsig_base_r (rct_base (rct_signatures tx)) (length (vin ?pre)) (length (vout ?pre)) (d @ r) = Some (rct_base ?rv, r)"
      using base_archived [OF rok] by blast
    show ?thesis
    proof (cases "rct_type (rct_base ?rv) = RCTTypeNull")
      case True
      then show ?thesis using 3 assms c d rok
        by (simp add: transaction_r_def transaction_ok_def base_bytes_def prunable_bytes_def serialize_base_w_def p q Let_def rct_ok_def)
    next
      case False
      then have "serialize_rctsig_prunable_r (rct_p (rct_signatures tx)) (rct_type (rct_base ?rv)) (length (vin ?pre))
          (length (vout ?pre)) (tx_mixin (vin ?pre)) (prunable_bytes x @ r) = Some (rct_p ?rv, r)" for r
        using rok 3 rct_prunable_part.reads_back [of "rct_p (rct_signatures tx)" "rct_type (rct_base ?rv)" "length (vin ?pre)"
            "length (vout ?pre)" "tx_mixin (vin ?pre)" "rct_p ?rv"] by (simp add: rct_ok_def prunable_bytes_def)
      then show ?thesis using False 3 assms c d
        by (simp add: transaction_r_def transaction_ok_def base_bytes_def serialize_base_w_def p q Let_def)
    qed
  qed
qed

lemma base_nonempty: "rctSigBase_ok rv inputs outputs x \<Longrightarrow> the (serialize_rctsig_base_w x inputs outputs) \<noteq> []"
  by (auto simp: serialize_rctsig_base_w_def rctSigBase_ok_def Let_def serialize_uint_w_def store_le_def)

text \<open>
  A transaction with bytes after it, or whose last part is of fixed layout, is exactly what would be written: this is so for
  every transaction of the second version with inputs, and for those of the first version with a ring signature.
\<close>

definition ends_solid :: "transaction \<Rightarrow> bool" where
  "ends_solid x \<longleftrightarrow>
     (if tx_version (tx_prefix x) = 1 then list_ex (\<lambda>i. 0 < get_signature_size i) (vin (tx_prefix x)) else vin (tx_prefix x) \<noteq> [])"

lemma signatures_nonempty: "signatures_ok ins ss \<Longrightarrow> list_ex (\<lambda>i. 0 < get_signature_size i) ins \<Longrightarrow> signatures_bytes ss \<noteq> []"
proof (induction ins ss rule: signatures_ok.induct)
  case (2 i ins s ss)
  then show ?case by (cases s) (auto simp: signatures_bytes_def elements_w_def serialize_blob_w_def)
qed simp_all

lemma transaction_canonical_rct:
  assumes r: "transaction_r tx b = Some (x, b')" and np: "\<not> pruned tx"
    and p: "transaction_prefix_r b = Some (pre, b1)" and 3: "tx_version pre \<noteq> 1" "vin pre \<noteq> []"
  shows "transaction_ok tx x \<and> b = (base_bytes x @ prunable_bytes x) @ b'"
proof -
  note pc = prefix.canonical [OF p]
  let ?in = "length (vin pre)" let ?out = "length (vout pre)" let ?rv = "rct_signatures tx"
  obtain base b2 where s: "serialize_rctsig_base_r (rct_base ?rv) ?in ?out b1 = Some (base, b2)"
    using r p 3 by (auto simp: transaction_r_def Let_def bind_eq_Some_conv)
  let ?x = "tx\<lparr>hash_valid := False, prunable_hash_valid := False, blob_size_valid := False, tx_prefix := pre,
      prefix_size := of_nat (length b - length b1), unprunable_size := of_nat (length b - length b2), pruned := False\<rparr>"
  show ?thesis
  proof (cases "rct_type base = RCTTypeNull")
    case True
    then have x: "x = ?x\<lparr>rct_signatures := ?rv\<lparr>rct_base := base\<rparr>\<rparr>" and b2: "b2 = b'"
      using r p s 3 np by (auto simp: transaction_r_def Let_def bind_eq_Some_conv)
    have t: "rctSigBase_ok (rct_base ?rv) ?in ?out base" "b1 = the (serialize_rctsig_base_w base ?in ?out) @ b2"
      using rctsig_base_canonical [OF s] True by auto
    then obtain d where d: "serialize_rctsig_base_w base ?in ?out = Some d" using rct_base_part.written by blast
    have "b1 \<noteq> []" using t base_nonempty by auto
    then obtain c where "transaction_prefix_ok pre" "transaction_prefix_w pre = Some c" "b = c @ b1"
      using pc prefix.written [of pre] by auto
    then show ?thesis using x 3 True t d b2
      by (simp add: transaction_ok_def base_bytes_def prunable_bytes_def serialize_base_w_def rct_ok_def)
  next
    case False
    then obtain q where q: "serialize_rctsig_prunable_r (rct_p ?rv) (rct_type base) ?in ?out (tx_mixin (vin pre)) b2 = Some (q, b')"
      and x: "x = ?x\<lparr>rct_signatures := ?rv\<lparr>rct_base := base, rct_p := q\<rparr>\<rparr>"
      using r p s 3 np by (auto simp: transaction_r_def Let_def bind_eq_Some_conv)
    have u: "rctSigPrunable_ok (rct_p ?rv) (rct_type base) ?in ?out (tx_mixin (vin pre)) q" "b2 \<noteq> []"
      "b2 = the (serialize_rctsig_prunable_w q (rct_type base) ?in ?out (tx_mixin (vin pre))) @ b'"
      using rctsig_prunable_canonical [OF q] 3 False by auto
    then have t: "rctSigBase_ok (rct_base ?rv) ?in ?out base" "b1 = the (serialize_rctsig_base_w base ?in ?out) @ b2"
      using rctsig_base_canonical [OF s] by auto
    then obtain d where d: "serialize_rctsig_base_w base ?in ?out = Some d" using rct_base_part.written by blast
    have "b1 \<noteq> []" using t base_nonempty by auto
    then obtain c where "transaction_prefix_ok pre" "transaction_prefix_w pre = Some c" "b = c @ b1"
      using pc prefix.written [of pre] by auto
    then show ?thesis using x 3 False t u d
      by (simp add: transaction_ok_def base_bytes_def prunable_bytes_def serialize_base_w_def rct_ok_def)
  qed
qed

lemma transaction_canonical:
  assumes r: "transaction_r tx b = Some (x, b')" and np: "\<not> pruned tx" and e: "b' \<noteq> [] \<or> ends_solid x"
  shows "transaction_ok tx x \<and> b = (base_bytes x @ prunable_bytes x) @ b'"
proof -
  obtain pre b1 where p: "transaction_prefix_r b = Some (pre, b1)"
    using r by (auto simp: transaction_r_def Let_def bind_eq_Some_conv)
  note pc = prefix.canonical [OF p]
  consider "tx_version pre = 1" | "tx_version pre \<noteq> 1" "vin pre = []" | "tx_version pre \<noteq> 1" "vin pre \<noteq> []" by blast
  then show ?thesis
  proof cases
    case 1
    then obtain sigs where s: "signatures_r (vin pre) b1 = Some (sigs, b')" and x: "x = tx\<lparr>hash_valid := False,
        prunable_hash_valid := False, blob_size_valid := False, tx_prefix := pre, prefix_size := of_nat (length b - length b1),
        unprunable_size := of_nat (length b - length b1), signatures := sigs, pruned := False\<rparr>"
      using r p np by (auto simp: transaction_r_def Let_def bind_eq_Some_conv)
    have t: "signatures_ok (vin pre) sigs" "b1 = signatures_bytes sigs @ b'" using s ring_signatures.solid_iff by auto
    then have "b1 \<noteq> []" using e x 1 signatures_nonempty [OF t(1)] by (auto simp: ends_solid_def)
    then obtain c where "transaction_prefix_ok pre" "transaction_prefix_w pre = Some c" "b = c @ b1"
      using pc prefix.written [of pre] by auto
    then show ?thesis using x 1 t
      by (simp add: transaction_ok_def base_bytes_def prunable_bytes_def serialize_base_w_def)
  next
    case 2
    then have x: "x = tx\<lparr>hash_valid := False, prunable_hash_valid := False, blob_size_valid := False, tx_prefix := pre,
        prefix_size := of_nat (length b - length b1), pruned := False\<rparr>" and b1: "b1 = b'"
      using r p np by (auto simp: transaction_r_def Let_def bind_eq_Some_conv)
    then have "b1 \<noteq> []" using e 2 by (auto simp: ends_solid_def)
    then obtain c where "transaction_prefix_ok pre" "transaction_prefix_w pre = Some c" "b = c @ b1"
      using pc prefix.written [of pre] by auto
    then show ?thesis using x 2 b1
      by (simp add: transaction_ok_def base_bytes_def prunable_bytes_def serialize_base_w_def)
  next
    case 3
    then show ?thesis by (rule transaction_canonical_rct [OF r np p])
  qed
qed

lemma default_not_pruned: "default_constructed tx \<Longrightarrow> \<not> pruned tx"
proof -
  assume "default_constructed tx"
  then have "pruned (transaction_set_null tx) = pruned tx" by (simp add: default_constructed_def)
  then show ?thesis by (simp add: transaction_set_null_def)
qed

text \<open>The part that is not prunable alone, and what it leaves in the object.\<close>

lemma serialize_base_written:
  assumes "transaction_ok tx x"
  shows "serialize_base_w x = Some (base_bytes x)"
proof (cases "tx_version (tx_prefix x) = 1 \<or> vin (tx_prefix x) = []")
  case True
  then show ?thesis using prefix_archived [OF assms] by (auto simp: base_bytes_def serialize_base_w_def Let_def)
next
  case False
  then have "rct_ok (rct_signatures tx) (tx_prefix x) (rct_signatures x)" using assms by (simp add: transaction_ok_def)
  from base_archived [OF this] show ?thesis
    using False prefix_archived [OF assms] by (auto simp: base_bytes_def serialize_base_w_def Let_def)
qed

lemma base_size: "transaction_ok tx x \<Longrightarrow> tx_version (tx_prefix x) = 1 \<or> vin (tx_prefix x) \<noteq> [] \<Longrightarrow>
    unprunable_size x = of_nat (length (base_bytes x))"
  by (auto simp: transaction_ok_def split: if_split_asm)

lemma serialize_base_read:
  assumes ok: "transaction_ok tx x"
  shows "serialize_base_r tx (base_bytes x @ b) =
    Some (tx\<lparr>tx_prefix := tx_prefix x, pruned := True,
             rct_signatures := (rct_signatures tx)\<lparr>rct_base := rct_base (rct_signatures x)\<rparr>\<rparr>, b)"
proof -
  let ?pre = "tx_prefix x" let ?rv = "rct_signatures x"
  obtain c where c: "transaction_prefix_w ?pre = Some c" and p: "\<And>r. transaction_prefix_r (c @ r) = Some (?pre, r)"
    using prefix_archived [OF ok] by blast
  show ?thesis
  proof (cases "tx_version ?pre = 1 \<or> vin ?pre = []")
    case True
    then show ?thesis using assms c
      by (auto simp: serialize_base_r_def transaction_ok_def base_bytes_def serialize_base_w_def p Let_def)
  next
    case False
    then have rok: "rct_ok (rct_signatures tx) ?pre ?rv" using assms by (simp add: transaction_ok_def)
    obtain d where d: "serialize_rctsig_base_w (rct_base ?rv) (length (vin ?pre)) (length (vout ?pre)) = Some d"
      and q: "\<And>r. serialize_rctsig_base_r (rct_base (rct_signatures tx)) (length (vin ?pre)) (length (vout ?pre)) (d @ r) = Some (rct_base ?rv, r)"
      using base_archived [OF rok] by blast
    then show ?thesis using False c d
      by (simp add: serialize_base_r_def base_bytes_def serialize_base_w_def p q Let_def)
  qed
qed

text \<open>Blocks.\<close>

definition block_header_ok :: "block_header \<Rightarrow> bool" where
  "block_header_ok x \<longleftrightarrow> unat (major_version x) < 2 ^ 8 \<and> unat (minor_version x) < 2 ^ 8 \<and> length (prev_id x) = 32"

interpretation header: codec block_header_w block_header_r block_header_ok
proof unfold_locales
  show "block_header_r (block_header_w x @ b) = Some (x, b)" if "block_header_ok x" for x b
    using that by (cases x) (simp add: block_header_r_def block_header_w_def block_header_ok_def codec_simps)
  show "block_header_ok x \<and> b = block_header_w x @ b'" if "block_header_r b = Some (x, b')" "b' \<noteq> []" for x b b'
    using that by (auto simp: block_header_r_def block_header_w_def block_header_ok_def bind_pair_iff codec_simps)
qed

definition block_ok :: "block \<Rightarrow> block \<Rightarrow> bool" where
  "block_ok bl x \<longleftrightarrow> \<not> blk_hash_valid x \<and> blk_hash x = blk_hash bl \<and> block_header_ok (blk_header x) \<and>
     transaction_ok (miner_tx bl) (miner_tx x) \<and> list_all (\<lambda>h. length h = 32) (tx_hashes x) \<and>
     length (tx_hashes x) \<le> CRYPTONOTE_MAX_TX_PER_BLOCK"

definition block_head_bytes :: "block \<Rightarrow> bytes" where
  "block_head_bytes x = block_header_w (blk_header x) @ base_bytes (miner_tx x) @ prunable_bytes (miner_tx x)"

lemma block_written:
  "block_ok bl x \<Longrightarrow> block_w x = Some (block_head_bytes x @ do_serialize_container_w (serialize_blob_w 32) (tx_hashes x), x)"
  using transaction_written [of "miner_tx bl" "miner_tx x"]
  by (simp add: block_w_def block_ok_def block_head_bytes_def)

lemma block_read_head:
  assumes "block_ok bl x" "\<not> pruned (miner_tx bl)" "do_serialize_container_r (serialize_blob_r 32) b = Some (tx_hashes x, b')"
  shows "block_r bl (block_head_bytes x @ b) = Some (x, b')"
  using assms transaction_read [of "miner_tx bl" "miner_tx x"] header.reads_back [of "blk_header x"]
  by (simp add: block_r_def block_ok_def block_head_bytes_def Let_def)

lemma block_hashes_read:
  assumes "block_ok bl x"
  shows "do_serialize_container_r (serialize_blob_r 32) (do_serialize_container_w (serialize_blob_w 32) (tx_hashes x) @ b) = Some (tx_hashes x, b)"
proof (rule blob32_vector.reads_back)
  have "length (tx_hashes x) < 2 ^ 64"
    using assms by (simp add: block_ok_def CRYPTONOTE_MAX_TX_PER_BLOCK_def)
  then show "list_all (\<lambda>h. length h = 32) (tx_hashes x) \<and> length (tx_hashes x) < 2 ^ 64" using assms by (simp add: block_ok_def)
qed

text \<open>With a transaction hash after it the count of the hashes cannot be cut short; without one it can.\<close>

lemma hashes_canonical:
  assumes "do_serialize_container_r (serialize_blob_r 32) b = Some (hs, b')" "hs \<noteq> [] \<or> b' \<noteq> []"
  shows "list_all (\<lambda>h. length h = 32) hs \<and> b = do_serialize_container_w (serialize_blob_w 32) hs @ b'"
proof -
  obtain cnt b1 where s: "serialize_uvarint_r 64 b = Some (cnt, b1)" "elements_r (serialize_blob_r 32) (unat cnt) b1 = Some (hs, b')"
    using assms(1) by (auto simp: do_serialize_container_r_def bind_eq_Some_conv split: if_splits)
  have e: "length hs = unat cnt" "list_all (\<lambda>h. length h = 32) hs" "b1 = elements_w (serialize_blob_w 32) hs @ b'"
    using s(2) blob32_array.solid_iff by auto
  then have "b1 \<noteq> []" using assms(2) blobs_nonempty [of hs] by auto
  then have "b = serialize_uvarint_w cnt @ b1" using s(1) varint.canonical by blast
  then show ?thesis using e by (simp add: do_serialize_container_w_def unat_inv)
qed

lemma no_hashes_read:
  "do_serialize_container_r (serialize_blob_r 32) [0x00] = Some ([], [])"
  "do_serialize_container_r (serialize_blob_r 32) [0x80] = Some ([], [])"
  "do_serialize_container_r (serialize_blob_r 32) [] = Some ([], [])"
  by code_simp+

lemma block_canonical:
  assumes r: "block_r bl b = Some (x, b')" and np: "\<not> pruned (miner_tx bl)" and e: "tx_hashes x \<noteq> [] \<or> b' \<noteq> []"
  shows "block_ok bl x \<and> b = (block_head_bytes x @ do_serialize_container_w (serialize_blob_w 32) (tx_hashes x)) @ b'"
proof -
  obtain h b1 m b2 hs where s: "block_header_r b = Some (h, b1)" "transaction_r (miner_tx bl) b1 = Some (m, b2)"
      "do_serialize_container_r (serialize_blob_r 32) b2 = Some (hs, b')" "length hs \<le> CRYPTONOTE_MAX_TX_PER_BLOCK"
    and x: "x = bl\<lparr>blk_hash_valid := False, blk_header := h, miner_tx := m, tx_hashes := hs\<rparr>"
    using r by (auto simp: block_r_def Let_def bind_eq_Some_conv split: if_split_asm)
  have c: "list_all (\<lambda>h. length h = 32) hs" "b2 = do_serialize_container_w (serialize_blob_w 32) hs @ b'"
    using hashes_canonical [OF s(3)] e x by auto
  then have "b2 \<noteq> []" by (simp add: do_serialize_container_w_def serialize_uvarint_w_def)
  then have t: "transaction_ok (miner_tx bl) m" "b1 = (base_bytes m @ prunable_bytes m) @ b2"
    using transaction_canonical [OF s(2) np] by auto
  then have "block_header_ok h" "b = block_header_w h @ b1" using header.canonical [OF s(1)] \<open>b2 \<noteq> []\<close> by auto
  then show ?thesis using x s(4) c t by (simp add: block_ok_def block_head_bytes_def)
qed

section \<open>Sample objects\<close>

definition sample_empty :: transaction where
  "sample_empty =
     \<lparr>tx_prefix = \<lparr>tx_version = 1, unlock_time = 0, vin = [], vout = [], tx_extra = []\<rparr>,
      hash_valid = False, prunable_hash_valid = False, blob_size_valid = False, signatures = [],
      rct_signatures = \<lparr>rct_base = \<lparr>rct_type = 0, message = replicate 32 170, mixRing = [], base_pseudoOuts = [], ecdhInfo = [],
          outPk = [], txnFee = 0\<rparr>,
        rct_p = \<lparr>rangeSigs = [], bulletproofs = [], MGs = [], CLSAGs = [], pseudoOuts = []\<rparr>\<rparr>,
      tx_hash = replicate 32 0, prunable_hash = replicate 32 0, blob_size = 0, pruned = False, unprunable_size = 0, prefix_size = 0\<rparr>"

text \<open>A transaction with one input, a ring of two, one output, and a bulletproof; and a block with its miner transaction.\<close>

definition sample_proof :: Bulletproof where
  "sample_proof = \<lparr>bp_V = [], bp_A = replicate 32 1, bp_S = replicate 32 2, bp_T1 = replicate 32 3, bp_T2 = replicate 32 4,
     bp_taux = replicate 32 5, bp_mu = replicate 32 6, bp_L = replicate 6 (replicate 32 7), bp_R = replicate 6 (replicate 32 8),
     bp_a = replicate 32 9, bp_b = replicate 32 10, bp_t = replicate 32 11\<rparr>"

definition sample_content :: transaction where
  "sample_content = sample_empty\<lparr>
     tx_prefix := \<lparr>tx_version = 2, unlock_time = 300,
       vin = [Txin_to_key \<lparr>txin_amount = 0, key_offsets = [70000, 3], k_image = replicate 32 12\<rparr>],
       vout = [\<lparr>out_amount = 0, out_target = Txout_to_key (replicate 32 13)\<rparr>], tx_extra = [1, 2, 3]\<rparr>,
     rct_signatures := \<lparr>
       rct_base = \<lparr>rct_type = 5, message = replicate 32 170, mixRing = [], base_pseudoOuts = [],
         ecdhInfo = [\<lparr>ecdh_mask = zero_key, ecdh_amount = replicate 8 14 @ replicate 24 0\<rparr>],
         outPk = [\<lparr>ct_dest = zero_key, ct_mask = replicate 32 15\<rparr>], txnFee = 100000\<rparr>,
       rct_p = \<lparr>rangeSigs = [], bulletproofs = [sample_proof], MGs = [],
         CLSAGs = [\<lparr>cl_s = [replicate 32 16, replicate 32 17], cl_c1 = replicate 32 18, cl_I = zero_key, cl_D = replicate 32 19\<rparr>],
         pseudoOuts = [replicate 32 20]\<rparr>\<rparr>\<rparr>"

definition sized :: "transaction \<Rightarrow> transaction" where
  "sized x = x\<lparr>prefix_size := of_nat (length (the (transaction_prefix_w (tx_prefix x)))), unprunable_size := of_nat (length (base_bytes x))\<rparr>"

definition sample_tx :: transaction where
  "sample_tx = sized sample_content"

definition sample_miner_tx :: transaction where
  "sample_miner_tx = sized (sample_empty\<lparr>
     tx_prefix := \<lparr>tx_version = 2, unlock_time = 360, vin = [Txin_gen 300],
       vout = [\<lparr>out_amount = 1000, out_target = Txout_to_key (replicate 32 13)\<rparr>], tx_extra = [1, 2, 3]\<rparr>\<rparr>)"

definition sample_block :: "hash list \<Rightarrow> block" where
  "sample_block hs = \<lparr>blk_header = \<lparr>major_version = 8, minor_version = 8, timestamp = 1600000000, prev_id = replicate 32 21, nonce = 77\<rparr>,
     blk_hash_valid = False, miner_tx = sample_miner_tx, tx_hashes = hs, blk_hash = replicate 32 0\<rparr>"

definition sample_empty_block :: block where
  "sample_empty_block = (sample_block [])\<lparr>miner_tx := sample_empty\<rparr>"

lemma sized_fields [simp]:
  "tx_prefix (sized x) = tx_prefix x" "hash_valid (sized x) = hash_valid x" "prunable_hash_valid (sized x) = prunable_hash_valid x"
  "blob_size_valid (sized x) = blob_size_valid x" "signatures (sized x) = signatures x" "rct_signatures (sized x) = rct_signatures x"
  "tx_hash (sized x) = tx_hash x" "prunable_hash (sized x) = prunable_hash x" "blob_size (sized x) = blob_size x"
  "pruned (sized x) = pruned x" "unprunable_size (sized x) = of_nat (length (base_bytes x))"
  "prefix_size (sized x) = of_nat (length (the (transaction_prefix_w (tx_prefix x))))"
  by (simp_all add: sized_def)

lemma base_bytes_sized [simp]: "base_bytes (sized x) = base_bytes x"
  unfolding base_bytes_def serialize_base_w_def sized_fields ..

lemma sample_empty_default: "default_constructed sample_empty"
  by (simp add: default_constructed_def sample_empty_def transaction_set_null_def transaction_prefix_set_null_def)

lemmas sample_defs = sample_tx_def sample_miner_tx_def sample_content_def sample_empty_def sample_proof_def

lemma sample_version: "\<not> CURRENT_TRANSACTION_VERSION < 2"
  by (simp add: CURRENT_TRANSACTION_VERSION_def)

lemma sample_proofs: "n_bulletproof_max_amounts [sample_proof] = 1"
  by (simp add: n_bulletproof_max_amounts_def n_bulletproof_max_amounts1_def sample_proof_def)

lemma sample_proof_ok: "Bulletproof_ok sample_proof"
  by (simp add: Bulletproof_ok_def sample_proof_def list_all_iff)

lemma sample_rct: "rct_ok (rct_signatures sample_empty) (tx_prefix sample_content) (rct_signatures sample_content)"
  using sample_proofs sample_proof_ok
  by (simp add: rct_ok_def sample_content_def sample_empty_def rctSigBase_ok_def rctSigPrunable_ok_def valid_type_def bp_type_def
      bulletproofs_ok_def CLSAG_ok_def ecdhTuple_ok_def outPk_ok_def zero_key_def)

lemma sample_tx_ok: "transaction_ok sample_empty sample_tx"
  using sample_rct
  by (simp add: transaction_ok_def sample_tx_def sample_content_def sample_empty_def transaction_prefix_ok_def sample_version
      tx_out_ok_def txin_to_key_ok_def)

lemma sample_miner_tx_ok: "transaction_ok sample_empty sample_miner_tx"
  by (simp add: transaction_ok_def sample_miner_tx_def sample_empty_def transaction_prefix_ok_def sample_version
      tx_out_ok_def rct_ok_def rctSigBase_ok_def)

lemma write_varint_1: "write_varint 1 = [1]"
  by code_simp

lemmas sample_bytes = write_varint_1 do_serialize_container_w_def elements_w_def serialize_uint_w_def serialize_blob_w_def serialize_uvarint_w_def
  write_varint_small write_varint_big

lemma sample_base_size: "length (base_bytes sample_tx) = 126"
  by (simp add: sample_tx_def sample_content_def base_bytes_def serialize_base_w_def transaction_prefix_w_def
      serialize_rctsig_base_w_def sample_version valid_type_def txin_to_key_w_def tx_out_w_def ecdhTuple_w_def outPk_mask_w_def
      sample_bytes)

lemma sample_prunable_size: "length (prunable_bytes sample_tx) = 835"
  using sample_proofs
  by (simp add: sample_tx_def sample_content_def prunable_bytes_def serialize_rctsig_prunable_w_def bp_type_def valid_type_def
      bulletproofs_w_def Bulletproof_w_def sample_proof_def CLSAG_w_def sample_bytes length_concat sum_list_replicate)

lemma sample_size: "length (base_bytes sample_tx @ prunable_bytes sample_tx) < 2 ^ 32"
  by (simp add: sample_base_size sample_prunable_size)

lemma sample_block_ok: "list_all (\<lambda>h. length h = 32) hs \<Longrightarrow> length hs < 5 \<Longrightarrow> block_ok sample_empty_block (sample_block hs)"
  using sample_miner_tx_ok
  by (simp add: block_ok_def sample_empty_block_def sample_block_def block_header_ok_def CRYPTONOTE_MAX_TX_PER_BLOCK_def)

section \<open>Properties\<close>

text \<open>C35: A transaction that is written to the archive is read back as it was, whatever it contains: ring signatures of the first
  version, or the base and prunable parts of every type of ring confidential signature.\<close>

theorem transaction_roundtrip:
  assumes "default_constructed tx" "transaction_ok tx x"
  shows "\<exists>blob. transaction_w x = Some (blob, x) \<and> parse_binary (transaction_r tx) blob = Some x"
proof (intro exI conjI)
  show "transaction_w x = Some (base_bytes x @ prunable_bytes x, x)" using assms(2) by (rule transaction_written)
  show "parse_binary (transaction_r tx) (base_bytes x @ prunable_bytes x) = Some x"
    using transaction_read [OF assms(2) default_not_pruned [OF assms(1)], of "[]"]
    by (simp add: parse_binary_def serialize_load_def)
qed

theorem transaction_roundtrip_witness:
  "\<exists>blob. transaction_w sample_tx = Some (blob, sample_tx) \<and> parse_binary (transaction_r sample_empty) blob = Some sample_tx"
  by (rule transaction_roundtrip) (simp_all add: sample_empty_default sample_tx_ok)

text \<open>C36: A blob that is accepted as a transaction, of the second version with inputs or of the first version with a ring
  signature, is the only one for that transaction: writing the transaction gives the same blob.\<close>

theorem transaction_blob_unique:
  assumes "default_constructed tx" "parse_binary (transaction_r tx) blob = Some x" "ends_solid x"
  shows "transaction_w x = Some (blob, x)"
proof -
  have "transaction_r tx blob = Some (x, [])"
    using assms(2) by (auto simp: parse_binary_def serialize_load_def bind_eq_Some_conv split: if_split_asm)
  from transaction_canonical [OF this default_not_pruned [OF assms(1)]] assms(3)
  have "transaction_ok tx x" "blob = base_bytes x @ prunable_bytes x" by auto
  then show ?thesis using transaction_written by blast
qed

theorem transaction_blob_unique_witness:
  "transaction_w sample_tx = Some (base_bytes sample_tx @ prunable_bytes sample_tx, sample_tx)"
proof (rule transaction_blob_unique [OF sample_empty_default])
  show "parse_binary (transaction_r sample_empty) (base_bytes sample_tx @ prunable_bytes sample_tx) = Some sample_tx"
    using transaction_read [OF sample_tx_ok default_not_pruned [OF sample_empty_default], of "[]"]
    by (simp add: parse_binary_def serialize_load_def)
  show "ends_solid sample_tx" by (simp add: ends_solid_def sample_defs sized_def)
qed

text \<open>C37: The first \<open>unprunable_size\<close> bytes of a transaction blob are the transaction without its prunable part, and reading them
  alone gives its prefix and the base of its signatures, marked as pruned.\<close>

theorem transaction_pruning:
  assumes "transaction_ok tx x" "tx_version (tx_prefix x) = 1 \<or> vin (tx_prefix x) \<noteq> []"
    and "transaction_w x = Some (blob, y)" "length blob < 2 ^ 32"
  shows "serialize_base_w x = Some (take (unat (unprunable_size x)) blob) \<and>
    serialize_base_r tx (take (unat (unprunable_size x)) blob) =
      Some (tx\<lparr>tx_prefix := tx_prefix x, pruned := True,
               rct_signatures := (rct_signatures tx)\<lparr>rct_base := rct_base (rct_signatures x)\<rparr>\<rparr>, [])"
proof -
  have b: "blob = base_bytes x @ prunable_bytes x" using transaction_written [OF assms(1)] assms(3) by simp
  then have "unat (unprunable_size x) = length (base_bytes x)"
    using base_size [OF assms(1,2)] assms(4) unat_of_nat_u32 [of "length (base_bytes x)"] by simp
  then have "take (unat (unprunable_size x)) blob = base_bytes x" using b by simp
  then show ?thesis using serialize_base_written [OF assms(1)] serialize_base_read [OF assms(1), of "[]"] by simp
qed

theorem transaction_pruning_witness:
  "serialize_base_w sample_tx = Some (take (unat (unprunable_size sample_tx)) (base_bytes sample_tx @ prunable_bytes sample_tx)) \<and>
    serialize_base_r sample_empty (take (unat (unprunable_size sample_tx)) (base_bytes sample_tx @ prunable_bytes sample_tx)) =
      Some (sample_empty\<lparr>tx_prefix := tx_prefix sample_tx, pruned := True,
               rct_signatures := (rct_signatures sample_empty)\<lparr>rct_base := rct_base (rct_signatures sample_tx)\<rparr>\<rparr>, [])"
proof (rule transaction_pruning [OF sample_tx_ok _ transaction_written [OF sample_tx_ok]])
  show "tx_version (tx_prefix sample_tx) = 1 \<or> vin (tx_prefix sample_tx) \<noteq> []" by (simp add: sample_defs)
  show "length (base_bytes sample_tx @ prunable_bytes sample_tx) < 2 ^ 32" by (rule sample_size)
qed

text \<open>C38: A block that is written to the archive is read back as it was, with its miner transaction and its transaction hashes.\<close>

theorem block_roundtrip:
  assumes "default_constructed (miner_tx bl)" "block_ok bl x"
  shows "\<exists>blob. block_w x = Some (blob, x) \<and> parse_binary (block_r bl) blob = Some x"
proof (intro exI conjI)
  show "block_w x = Some (block_head_bytes x @ do_serialize_container_w (serialize_blob_w 32) (tx_hashes x), x)"
    using assms(2) by (rule block_written)
  show "parse_binary (block_r bl) (block_head_bytes x @ do_serialize_container_w (serialize_blob_w 32) (tx_hashes x)) = Some x"
    using block_read_head [OF assms(2) default_not_pruned [OF assms(1)] block_hashes_read [OF assms(2), of "[]"]]
    by (simp add: parse_binary_def serialize_load_def)
qed

theorem block_roundtrip_witness:
  "\<exists>blob. block_w (sample_block [replicate 32 22]) = Some (blob, sample_block [replicate 32 22]) \<and>
     parse_binary (block_r sample_empty_block) blob = Some (sample_block [replicate 32 22])"
proof (rule block_roundtrip)
  show "default_constructed (miner_tx sample_empty_block)" by (simp add: sample_empty_block_def sample_empty_default)
qed (simp add: sample_block_ok)

text \<open>C39: A blob that is accepted as a block with transactions is the only one for that block.\<close>

theorem block_blob_unique:
  assumes "default_constructed (miner_tx bl)" "parse_binary (block_r bl) blob = Some x" "tx_hashes x \<noteq> []"
  shows "block_w x = Some (blob, x)"
proof -
  have "block_r bl blob = Some (x, [])"
    using assms(2) by (auto simp: parse_binary_def serialize_load_def bind_eq_Some_conv split: if_split_asm)
  from block_canonical [OF this default_not_pruned [OF assms(1)]] assms(3)
  have "block_ok bl x" "blob = block_head_bytes x @ do_serialize_container_w (serialize_blob_w 32) (tx_hashes x)" by auto
  then show ?thesis using block_written by blast
qed

theorem block_blob_unique_witness:
  "block_w (sample_block [replicate 32 22]) =
     Some (block_head_bytes (sample_block [replicate 32 22]) @ do_serialize_container_w (serialize_blob_w 32) [replicate 32 22],
           sample_block [replicate 32 22])"
proof (rule block_blob_unique [of sample_empty_block])
  let ?x = "sample_block [replicate 32 22]"
  have ok: "block_ok sample_empty_block ?x" by (rule sample_block_ok) simp_all
  have np: "\<not> pruned (miner_tx sample_empty_block)" by (simp add: sample_empty_block_def sample_empty_def)
  show "default_constructed (miner_tx sample_empty_block)" by (simp add: sample_empty_block_def sample_empty_default)
  show "parse_binary (block_r sample_empty_block)
      (block_head_bytes ?x @ do_serialize_container_w (serialize_blob_w 32) [replicate 32 22]) = Some ?x"
    using block_read_head [OF ok np block_hashes_read [OF ok, of "[]"]]
    by (simp add: parse_binary_def serialize_load_def sample_block_def)
  show "tx_hashes ?x \<noteq> []" by (simp add: sample_block_def)
qed

text \<open>C40: A block without transactions has two more blobs that are accepted for it, besides the one that is written: the count of
  the hashes, a last byte of zero, may be left out or be a byte that announces another one.\<close>

theorem block_without_transactions_blobs:
  assumes "default_constructed (miner_tx bl)" "block_ok bl x" "tx_hashes x = []"
  shows "\<exists>blob. block_w x = Some (blob @ [0x00], x) \<and> parse_binary (block_r bl) (blob @ [0x00]) = Some x \<and>
    parse_binary (block_r bl) (blob @ [0x80]) = Some x \<and> parse_binary (block_r bl) blob = Some x"
proof -
  have "do_serialize_container_w (serialize_blob_w 32) [] = [0x00]" by code_simp
  then have w: "block_w x = Some (block_head_bytes x @ [0x00], x)" using block_written [OF assms(2)] assms(3) by simp
  have r: "block_r bl (block_head_bytes x @ c) = Some (x, [])"
    if "do_serialize_container_r (serialize_blob_r 32) c = Some ([], [])" for c
    using block_read_head [OF assms(2) default_not_pruned [OF assms(1)]] that assms(3) by simp
  have "parse_binary (block_r bl) (block_head_bytes x @ [0x00]) = Some x" "parse_binary (block_r bl) (block_head_bytes x @ [0x80]) = Some x"
    "parse_binary (block_r bl) (block_head_bytes x) = Some x"
    using r [OF no_hashes_read(1)] r [OF no_hashes_read(2)] r [OF no_hashes_read(3)]
    by (simp_all add: parse_binary_def serialize_load_def)
  then show ?thesis using w by blast
qed

theorem block_without_transactions_blobs_witness:
  "\<exists>blob. block_w (sample_block []) = Some (blob @ [0x00], sample_block []) \<and>
    parse_binary (block_r sample_empty_block) (blob @ [0x00]) = Some (sample_block []) \<and>
    parse_binary (block_r sample_empty_block) (blob @ [0x80]) = Some (sample_block []) \<and>
    parse_binary (block_r sample_empty_block) blob = Some (sample_block [])"
proof (rule block_without_transactions_blobs)
  show "block_ok sample_empty_block (sample_block [])" by (rule sample_block_ok) simp_all
qed (simp_all add: sample_empty_block_def sample_empty_default sample_block_def)

end
