(* ===== verification/Spec2Isabelle.thy ===== *)
theory Spec2Isabelle
  imports Int_Util Keccak ChaCha Varint Base58 Difficulty Binary64 Block_Reward Hard_Fork Pruning Scalars Field_Elements Curve_Group Point_Encoding Tree_Hash Binary_Archive Ringct_Types Transaction
begin

text \<open>Verification of parts of the sumokoin sources.\<close>

end
